(* ===== verification/Prelude.thy ===== *)
theory Prelude
  imports Main "HOL-Library.AList" "HOL-Library.Sublist"
begin

text \<open>
  What every component of the model shares: Python exceptions as values, sequencing of
  fallible and of stateful fallible computations, dictionaries in insertion order
  (association lists with the library's \<open>AList.update\<close> and \<open>AList.delete\<close>), and the
  order-preserving removal of duplicates that the sources write with a \<open>seen\<close> set or
  \<open>dict.setdefault\<close>.
\<close>

named_theorems dict_simps \<open>equations about dictionaries in insertion order\<close>
named_theorems eff_simps \<open>unfolding of stateful computations\<close>

section \<open>Exceptions\<close>

text \<open>
  One constructor per exception class the modelled code raises or catches. The
  \<open>ExtractionError\<close> family carries the defence layer that the unpack handler reads.
\<close>

datatype exn =
    ValueError string
  | KeyError string
  | TypeError string
  | AttributeError string
  | IndexError
  | StructError
  | RuntimeError string
  | ValidationError
  | AuthError string
  | StorageError string
  | HTTPException nat
  | ExtractionError string string
  | ZipBombError string string
  | ProduceError
  | TimeoutExpired
  | WriteError nat
  | DuplicateKeyError
  | OperationalError
  | UniqueViolation
  | ClientError string

type_synonym 'a result = "exn + 'a"

definition rbind :: "'a result \<Rightarrow> ('a \<Rightarrow> 'b result) \<Rightarrow> 'b result" where
  "rbind r f = (case r of Inl e \<Rightarrow> Inl e | Inr x \<Rightarrow> f x)"

lemma rbind_simps [simp]: "rbind (Inl e) f = Inl e" "rbind (Inr x) f = f x"
  by (simp_all add: rbind_def)

lemma rbind_eq_Inr [simp]: "rbind r f = Inr y \<longleftrightarrow> (\<exists>x. r = Inr x \<and> f x = Inr y)"
  by (cases r) auto

text \<open>
  A stateful computation returns its result or the exception it raised, together with the
  state it leaves: effects that happened before a raise stay.
\<close>

type_synonym ('s, 'a) eff = "'s \<Rightarrow> 'a result \<times> 's"

definition ret :: "'a \<Rightarrow> ('s, 'a) eff" where
  "ret x s = (Inr x, s)"

definition raise :: "exn \<Rightarrow> ('s, 'a) eff" where
  "raise e s = (Inl e, s)"

definition ebind :: "('s, 'a) eff \<Rightarrow> ('a \<Rightarrow> ('s, 'b) eff) \<Rightarrow> ('s, 'b) eff" where
  "ebind m f s = (case m s of (Inl e, s') \<Rightarrow> (Inl e, s') | (Inr x, s') \<Rightarrow> f x s')"

definition eseq :: "('s, 'a) eff \<Rightarrow> ('s, 'b) eff \<Rightarrow> ('s, 'b) eff" where
  "eseq m n = ebind m (\<lambda>_. n)"

definition lift_result :: "'a result \<Rightarrow> ('s, 'a) eff" where
  "lift_result r s = (r, s)"

definition modify :: "('s \<Rightarrow> 's) \<Rightarrow> ('s, unit) eff" where
  "modify f s = (Inr (), f s)"

definition gets :: "('s \<Rightarrow> 'a) \<Rightarrow> ('s, 'a) eff" where
  "gets f s = (Inr (f s), s)"

text \<open>\<open>try: m except Exception as e: h e\<close>.\<close>

definition catch :: "('s, 'a) eff \<Rightarrow> (exn \<Rightarrow> ('s, 'a) eff) \<Rightarrow> ('s, 'a) eff" where
  "catch m h s = (case m s of (Inl e, s') \<Rightarrow> h e s' | (Inr x, s') \<Rightarrow> (Inr x, s'))"

lemmas eff_defs [eff_simps] =
  ret_def raise_def ebind_def eseq_def lift_result_def modify_def gets_def catch_def

lemma ebind_result [simp]:
  "m s = (Inl e, s') \<Longrightarrow> ebind m f s = (Inl e, s')"
  "m s = (Inr x, s') \<Longrightarrow> ebind m f s = f x s'"
  by (simp_all add: ebind_def)

lemma ebind_InrE:
  assumes "ebind m f s = (Inr y, s'')"
  obtains x s' where "m s = (Inr x, s')" and "f x s' = (Inr y, s'')"
  using assms by (auto simp: ebind_def split: prod.splits sum.splits)

section \<open>Dictionaries in insertion order\<close>

type_synonym ('k, 'v) dict = "('k \<times> 'v) list"

abbreviation dget :: "('k, 'v) dict \<Rightarrow> 'k \<Rightarrow> 'v option" where
  "dget \<equiv> map_of"

abbreviation dset :: "'k \<Rightarrow> 'v \<Rightarrow> ('k, 'v) dict \<Rightarrow> ('k, 'v) dict" where
  "dset \<equiv> AList.update"

abbreviation ddel :: "'k \<Rightarrow> ('k, 'v) dict \<Rightarrow> ('k, 'v) dict" where
  "ddel \<equiv> AList.delete"

abbreviation dkeys :: "('k, 'v) dict \<Rightarrow> 'k list" where
  "dkeys d \<equiv> map fst d"

lemma dget_dset [simp, dict_simps]: "dget (dset k v d) = (dget d)(k \<mapsto> v)"
  by (rule update_conv')

lemma dget_ddel [simp, dict_simps]: "dget (ddel k d) = (dget d)(k := None)"
  by (rule delete_conv')

lemma set_dkeys_dset [simp]: "set (dkeys (dset k v d)) = insert k (set (dkeys d))"
  by (induction d) auto

lemma fst_set_dset [simp]: "fst ` set (dset k v d) = insert k (fst ` set d)"
  using set_dkeys_dset [of k v d] by simp

lemma dset_fresh: "k \<notin> set (dkeys d) \<Longrightarrow> dset k v d = d @ [(k, v)]"
  by (induction d) auto

lemma dset_idem [simp]: "dset k v (dset k v d) = dset k v d"
  by (induction d) auto

lemma dget_None_iff [dict_simps]: "dget d k = None \<longleftrightarrow> k \<notin> set (dkeys d)"
  by (simp add: map_of_eq_None_iff image_image)

section \<open>Removing duplicates, first occurrence kept\<close>

definition push_new :: "'a \<Rightarrow> 'a list \<Rightarrow> 'a list" where
  "push_new x xs = (if x \<in> set xs then xs else xs @ [x])"

definition dedup :: "'a list \<Rightarrow> 'a list" where
  "dedup xs = foldl (\<lambda>acc x. push_new x acc) [] xs"

lemma set_push_new [simp]: "set (push_new x xs) = insert x (set xs)"
  by (auto simp: push_new_def)

lemma distinct_push_new [simp]: "distinct (push_new x xs) = distinct xs"
  by (auto simp: push_new_def)

lemma foldl_push_new_set: "set (foldl (\<lambda>acc x. push_new x acc) acc xs) = set acc \<union> set xs"
  by (induction xs arbitrary: acc) auto

lemma foldl_push_new_distinct:
  "distinct acc \<Longrightarrow> distinct (foldl (\<lambda>acc x. push_new x acc) acc xs)"
  by (induction xs arbitrary: acc) auto

lemma foldl_push_new_prefix: "prefix acc (foldl (\<lambda>acc x. push_new x acc) acc xs)"
proof (induction xs arbitrary: acc)
  case (Cons x xs)
  have "prefix acc (push_new x acc)" by (simp add: push_new_def)
  also have "prefix \<dots> (foldl (\<lambda>acc x. push_new x acc) (push_new x acc) xs)" by (rule Cons.IH)
  finally show ?case by simp
qed simp

lemma set_dedup [simp]: "set (dedup xs) = set xs"
  by (simp add: dedup_def foldl_push_new_set)

lemma distinct_dedup [simp]: "distinct (dedup xs)"
  by (simp add: dedup_def foldl_push_new_distinct)

lemma dedup_Nil [simp]: "dedup [] = []"
  by (simp add: dedup_def)

lemma dedup_distinct: "distinct xs \<Longrightarrow> dedup xs = xs"
proof -
  have "distinct (acc @ xs) \<Longrightarrow> foldl (\<lambda>acc x. push_new x acc) acc xs = acc @ xs" for acc
    by (induction xs arbitrary: acc) (auto simp: push_new_def)
  from this [of "[]"] show "distinct xs \<Longrightarrow> dedup xs = xs" by (simp add: dedup_def)
qed

section \<open>Counting occurrences\<close>

text \<open>\<open>Counter(xs)\<close>: occurrences in order of first appearance.\<close>

definition tally :: "'a list \<Rightarrow> ('a, int) dict" where
  "tally xs = foldl (\<lambda>d x. dset x (1 + (case dget d x of None \<Rightarrow> 0 | Some n \<Rightarrow> n)) d) [] xs"

lemma tally_foldl:
  "(case dget (foldl (\<lambda>d x. dset x (1 + (case dget d x of None \<Rightarrow> 0 | Some n \<Rightarrow> n)) d) d xs) t of
      None \<Rightarrow> 0 | Some n \<Rightarrow> n) = (case dget d t of None \<Rightarrow> 0 | Some n \<Rightarrow> n) + int (count_list xs t)"
  by (induction xs arbitrary: d) (auto split: option.splits)

lemma tally_distinct: "distinct (dkeys (tally (xs :: 'a list)))"
proof -
  have "distinct (dkeys d) \<Longrightarrow>
    distinct (dkeys (foldl (\<lambda>d x. dset x (1 + (case dget d x of None \<Rightarrow> 0 | Some n \<Rightarrow> n)) d) d xs))"
    for d :: "('a, int) dict"
    by (induction xs arbitrary: d) (simp_all add: distinct_update)
  from this [of "[]"] show ?thesis by (simp add: tally_def)
qed

lemma set_dkeys_tally: "set (dkeys (tally (xs :: 'a list))) = set xs"
proof -
  have "set (dkeys (foldl (\<lambda>d x. dset x (1 + (case dget d x of None \<Rightarrow> 0 | Some n \<Rightarrow> n)) d) d xs)) =
    set (dkeys d) \<union> set xs" for d :: "('a, int) dict"
    by (induction xs arbitrary: d) auto
  from this [of "[]"] show ?thesis by (simp add: tally_def)
qed

lemma tally_count: "dget (tally xs) t = (if t \<in> set xs then Some (int (count_list xs t)) else None)"
proof (cases "dget (tally xs) t")
  case None
  then have "t \<notin> set (dkeys (tally xs))" by (simp add: dget_None_iff)
  then show ?thesis using None set_dkeys_tally [of xs] by simp
next
  case (Some n)
  then have "t \<in> set (dkeys (tally xs))" by (metis dget_None_iff option.distinct(1))
  moreover have "n = int (count_list xs t)"
    using tally_foldl [where d = "[]" and xs = xs and t = t] Some by (simp add: tally_def)
  ultimately show ?thesis using Some set_dkeys_tally [of xs] by simp
qed

lemma tally_sum: "sum_list (map snd (tally xs)) = int (length xs)"
proof -
  have "sum_list (map snd (tally xs)) = sum_list (map (\<lambda>t. the (dget (tally xs) t)) (dkeys (tally xs)))"
    using tally_distinct [of xs] by (auto intro!: arg_cong [where f = sum_list])
  also have "\<dots> = (\<Sum>t \<in> set xs. the (dget (tally xs) t))"
    using sum_list_distinct_conv_sum_set [OF tally_distinct] set_dkeys_tally [of xs] by metis
  also have "\<dots> = (\<Sum>t \<in> set xs. int (count_list xs t))"
    by (intro sum.cong) (simp_all add: tally_count)
  also have "\<dots> = int (length xs)" by (simp add: sum_count_set flip: of_nat_sum)
  finally show ?thesis .
qed

section \<open>Lists of options and results\<close>

lemma those_eq_Some: "those xs = Some ys \<longleftrightarrow> xs = map Some ys"
  by (induction xs arbitrary: ys) (auto simp: Cons_eq_map_conv split: option.splits)

lemma those_map_Some [simp]: "those (map Some ys) = Some ys"
  by (simp add: those_eq_Some)

lemma those_map_eq_Some:
  "those (map f xs) = Some ys \<longleftrightarrow> length xs = length ys \<and> (\<forall>i < length xs. f (xs ! i) = Some (ys ! i))"
  by (auto simp: those_eq_Some list_eq_iff_nth_eq)

end
