(* ===== verification/PyFloat.thy ===== *)
theory PyFloat
  imports Complex_Main "HOL-Library.Log_Nat"
begin

text \<open>
  Python's \<open>float\<close>: finite binary64 values as rational numbers, every arithmetic result
  rounded to 53 significant bits, ties to even (\<open>fl\<close>). The exponent range is not bounded:
  overflow, subnormals, infinities and NaN are outside the model. Scores, thresholds and
  percentages of the sources stay far inside the normal range.
\<close>

type_synonym pyfloat = rat

section \<open>Rounding\<close>

text \<open>Nearest integer, ties to even.\<close>

definition rne :: "rat \<Rightarrow> int" where
  "rne x =
     (let f = \<lfloor>x\<rfloor>; r = x - of_int f
      in if r < 1/2 then f else if 1/2 < r then f + 1 else if even f then f else f + 1)"

text \<open>The exponent of the leading bit of a positive rational.\<close>

definition ilog2 :: "rat \<Rightarrow> int" where
  "ilog2 x =
     (case quotient_of x of (n, d) \<Rightarrow>
        let k = bitlen n - bitlen d in if 2 powi k \<le> x then k else k - 1)"

definition fl_pos :: "rat \<Rightarrow> pyfloat" where
  "fl_pos x = (let u = 2 powi (ilog2 x - 52) in of_int (rne (x / u)) * u)"

definition fl :: "rat \<Rightarrow> pyfloat" where
  "fl x = (if x = 0 then 0 else if x < 0 then - fl_pos (- x) else fl_pos x)"

definition fadd :: "pyfloat \<Rightarrow> pyfloat \<Rightarrow> pyfloat" where "fadd a b = fl (a + b)"
definition fsub :: "pyfloat \<Rightarrow> pyfloat \<Rightarrow> pyfloat" where "fsub a b = fl (a - b)"
definition fmul :: "pyfloat \<Rightarrow> pyfloat \<Rightarrow> pyfloat" where "fmul a b = fl (a * b)"
definition fdiv :: "pyfloat \<Rightarrow> pyfloat \<Rightarrow> pyfloat" where "fdiv a b = fl (a / b)"

text \<open>A decimal literal \<open>n / d\<close> of the source.\<close>

definition flit :: "int \<Rightarrow> int \<Rightarrow> pyfloat" where
  "flit n d = fl (of_int n / of_int d)"

text \<open>\<open>round(x, k)\<close>: the exact value to \<open>k\<close> decimals, ties to even, then to binary.\<close>

definition py_round :: "pyfloat \<Rightarrow> nat \<Rightarrow> pyfloat" where
  "py_round x k = fl (of_int (rne (x * 10 ^ k)) / 10 ^ k)"

section \<open>Nearest integers\<close>

lemma rne_of_int [simp]: "rne (of_int n) = n"
  by (simp add: rne_def)

lemma rne_mono: "x \<le> y \<Longrightarrow> rne x \<le> rne y"
proof -
  assume le: "x \<le> y"
  then have fle: "\<lfloor>x\<rfloor> \<le> \<lfloor>y\<rfloor>" by (rule floor_mono)
  have up: "rne z \<le> \<lfloor>z\<rfloor> + 1" and lo: "\<lfloor>z\<rfloor> \<le> rne z" for z
    by (auto simp: rne_def Let_def)
  show ?thesis
  proof (cases "\<lfloor>x\<rfloor> = \<lfloor>y\<rfloor>")
    case True
    with le show ?thesis by (auto simp: rne_def Let_def)
  next
    case False
    with fle have "\<lfloor>x\<rfloor> + 1 \<le> \<lfloor>y\<rfloor>" by simp
    with up [of x] lo [of y] show ?thesis by linarith
  qed
qed

lemma rne_ge: "of_int n \<le> x \<Longrightarrow> n \<le> rne x"
  using rne_mono [of "of_int n" x] by simp

lemma rne_le: "x \<le> of_int n \<Longrightarrow> rne x \<le> n"
  using rne_mono [of x "of_int n"] by simp

section \<open>The leading bit\<close>

lemma bitlen_bounds_rat:
  assumes "0 < n"
  shows "(2::rat) powi (bitlen n - 1) \<le> of_int n" and "of_int n < (2::rat) powi (bitlen n)"
proof -
  have b: "2 ^ nat (bitlen n - 1) \<le> n \<and> n < 2 ^ nat (bitlen n)"
    using assms by (rule bitlen_bounds)
  have pos: "0 < bitlen n"
  proof (rule ccontr)
    assume "\<not> 0 < bitlen n"
    with b have "n < 1" by simp
    with assms show False by simp
  qed
  have e1: "(2::rat) powi (bitlen n - 1) = of_int (2 ^ nat (bitlen n - 1))"
    using pos by (simp add: power_int_def)
  have e2: "(2::rat) powi (bitlen n) = of_int (2 ^ nat (bitlen n))"
    using pos by (simp add: power_int_def)
  show "(2::rat) powi (bitlen n - 1) \<le> of_int n" using b unfolding e1 of_int_le_iff by simp
  show "of_int n < (2::rat) powi (bitlen n)" using b unfolding e2 of_int_less_iff by simp
qed

lemma ilog2_bounds:
  assumes "0 < x"
  shows "2 powi (ilog2 x) \<le> x" and "x < 2 powi (ilog2 x + 1)"
proof -
  obtain n d where nd: "quotient_of x = (n, d)" by (cases "quotient_of x")
  then have d: "0 < d" and x: "x = of_int n / of_int d"
    using quotient_of_denom_pos quotient_of_div by blast+
  from assms x d have n: "0 < n" by (simp add: zero_less_divide_iff)
  define k where "k = bitlen n - bitlen d"
  have "x < 2 powi (bitlen n) / 2 powi (bitlen d - 1)"
    unfolding x using bitlen_bounds_rat [OF n] bitlen_bounds_rat [OF d] d n
    by (intro frac_less) auto
  also have "\<dots> = 2 powi (k + 1)"
    unfolding k_def by (simp flip: power_int_diff add: algebra_simps)
  finally have hi: "x < 2 powi (k + 1)" .
  have "2 powi (k - 1) = (2::rat) powi (bitlen n - 1) / 2 powi (bitlen d)"
    unfolding k_def by (simp flip: power_int_diff add: algebra_simps)
  also have "\<dots> \<le> x"
    unfolding x using bitlen_bounds_rat [OF n] bitlen_bounds_rat [OF d] d n
    by (intro frac_le) auto
  finally have lo: "2 powi (k - 1) \<le> x" .
  have i: "ilog2 x = (if 2 powi k \<le> x then k else k - 1)"
    by (simp add: ilog2_def nd k_def Let_def)
  show "2 powi (ilog2 x) \<le> x" using lo i by auto
  show "x < 2 powi (ilog2 x + 1)" using hi i by auto
qed

lemma powi_less_iff: "(2::rat) powi a < 2 powi b \<longleftrightarrow> a < b"
  by (metis linorder_not_le one_less_numeral_iff power_int_strict_increasing power_int_increasing
      order_less_le semiring_norm(76) less_imp_le)

lemma ilog2_mono:
  assumes "0 < x" "x \<le> y"
  shows "ilog2 x \<le> ilog2 y"
proof -
  have "2 powi (ilog2 x) \<le> x" using assms by (simp add: ilog2_bounds)
  also have "x \<le> y" by fact
  also have "y < 2 powi (ilog2 y + 1)" using assms by (simp add: ilog2_bounds)
  finally show ?thesis by (simp add: powi_less_iff)
qed

lemma ilog2_unique:
  assumes "2 powi k \<le> x" "x < 2 powi (k + 1)"
  shows "ilog2 x = k"
proof -
  have "(0::rat) < 2 powi k" by simp
  with assms(1) have x: "0 < x" by (rule less_le_trans [rotated])
  have "k < ilog2 x + 1" using assms(1) ilog2_bounds(2) [OF x] powi_less_iff by (metis order_le_less_trans)
  moreover have "ilog2 x < k + 1" using assms(2) ilog2_bounds(1) [OF x] powi_less_iff by (metis order_le_less_trans)
  ultimately show ?thesis by simp
qed

section \<open>Rounding to 53 bits\<close>

lemma fl_pos_bounds:
  assumes "0 < x"
  shows "2 powi (ilog2 x) \<le> fl_pos x" and "fl_pos x \<le> 2 powi (ilog2 x + 1)"
proof -
  define u where "u = (2::rat) powi (ilog2 x - 52)"
  have u: "0 < u" by (simp add: u_def)
  have a: "2 powi (ilog2 x) = of_int (2 ^ 52) * u"
    unfolding u_def by (simp add: power_int_diff)
  have b: "2 powi (ilog2 x + 1) = of_int (2 ^ 53) * u"
    unfolding u_def by (simp add: power_int_diff power_int_add)
  have "of_int (2 ^ 52) \<le> x / u"
    using ilog2_bounds(1) [OF assms] u unfolding a by (simp add: pos_le_divide_eq)
  then have "2 ^ 52 \<le> rne (x / u)" by (rule rne_ge)
  then have "(of_int (2 ^ 52) :: rat) \<le> of_int (rne (x / u))" by (simp only: of_int_le_iff)
  from mult_right_mono [OF this less_imp_le [OF u]]
  show "2 powi (ilog2 x) \<le> fl_pos x"
    unfolding a fl_pos_def Let_def u_def [symmetric] .
  have "x / u \<le> of_int (2 ^ 53)"
    using ilog2_bounds(2) [OF assms] u unfolding b by (simp add: pos_divide_le_eq)
  then have "rne (x / u) \<le> 2 ^ 53" by (rule rne_le)
  then have "of_int (rne (x / u)) \<le> (of_int (2 ^ 53) :: rat)" by (simp only: of_int_le_iff)
  from mult_right_mono [OF this less_imp_le [OF u]]
  show "fl_pos x \<le> 2 powi (ilog2 x + 1)"
    unfolding b fl_pos_def Let_def u_def [symmetric] .
qed

lemma fl_pos_positive: "0 < x \<Longrightarrow> 0 < fl_pos x"
  using fl_pos_bounds(1) [of x] by (rule less_le_trans [rotated]) simp_all

lemma fl_pos_mono:
  assumes "0 < x" "x \<le> y"
  shows "fl_pos x \<le> fl_pos y"
proof (cases "ilog2 x = ilog2 y")
  case True
  define u where "u = (2::rat) powi (ilog2 y - 52)"
  have u: "0 < u" by (simp add: u_def)
  with assms have "x / u \<le> y / u" by (simp add: divide_right_mono)
  then have "rne (x / u) \<le> rne (y / u)" by (rule rne_mono)
  with u show ?thesis
    by (simp add: fl_pos_def Let_def True flip: u_def)
next
  case False
  with ilog2_mono [OF assms] have le: "ilog2 x + 1 \<le> ilog2 y" by simp
  have "fl_pos x \<le> 2 powi (ilog2 x + 1)" using assms by (simp add: fl_pos_bounds)
  also have "\<dots> \<le> 2 powi (ilog2 y)" using le by (simp add: power_int_increasing)
  also have "\<dots> \<le> fl_pos y" using assms by (simp add: fl_pos_bounds)
  finally show ?thesis .
qed

lemma fl_0 [simp]: "fl 0 = 0"
  by (simp add: fl_def)

lemma fl_minus: "fl (- x) = - fl x"
  by (simp add: fl_def)

lemma fl_mono: "x \<le> y \<Longrightarrow> fl x \<le> fl y"
proof -
  assume le: "x \<le> y"
  consider "0 < x" | "x \<le> 0" "0 \<le> y" | "y < 0" by linarith
  then show ?thesis
  proof cases
    case 1
    with le show ?thesis using fl_pos_mono [of x y] by (simp add: fl_def)
  next
    case 2
    have "fl x \<le> 0" using 2 fl_pos_positive [of "- x"] by (auto simp: fl_def)
    moreover have "0 \<le> fl y" using 2 fl_pos_positive [of y] by (auto simp: fl_def)
    ultimately show ?thesis by simp
  next
    case 3
    with le show ?thesis using fl_pos_mono [of "- y" "- x"] by (simp add: fl_def)
  qed
qed

lemma fl_pos_exact:
  assumes x: "x = of_int m * 2 powi k" and m: "0 < m" "m < 2 ^ 53"
  shows "fl_pos x = x"
proof -
  have pos: "0 < x" using x m by simp
  have "(of_int m :: rat) < of_int (2 ^ 53)" using m(2) by (simp only: of_int_less_iff)
  then have "x < of_int (2 ^ 53) * 2 powi k"
    unfolding x by (rule mult_strict_right_mono) simp
  also have "\<dots> = 2 powi (k + 53)" by (simp add: power_int_add)
  finally have "2 powi (ilog2 x) < (2::rat) powi (k + 53)"
    using ilog2_bounds(1) [OF pos] by simp
  then have le: "ilog2 x - 52 \<le> k" by (simp add: powi_less_iff)
  define e where "e = ilog2 x - 52"
  define j where "j = nat (k - e)"
  have k: "k = e + int j" using le by (simp add: e_def j_def)
  define u where "u = (2::rat) powi e"
  have u: "0 < u" by (simp add: u_def)
  have "x = of_int m * 2 powi (e + int j)" using x unfolding k .
  also have "\<dots> = of_int (m * 2 ^ j) * u"
    by (simp add: u_def power_int_add)
  finally have xu: "x = of_int (m * 2 ^ j) * u" .
  with u have "x / u = of_int (m * 2 ^ j)" by (simp only: xu) simp
  then have "rne (x / u) = m * 2 ^ j" by (metis rne_of_int)
  then have "fl_pos x = of_int (m * 2 ^ j) * u"
    by (simp only: fl_pos_def Let_def flip: e_def u_def)
  with xu show ?thesis by (simp only:)
qed

lemma fl_exact:
  assumes x: "x = of_int m * 2 powi k" and m: "\<bar>m\<bar> < 2 ^ 53"
  shows "fl x = x"
proof -
  consider "m = 0" | "0 < m" | "m < 0" by linarith
  then show ?thesis
  proof cases
    case 2
    with x m have "0 < x" "fl_pos x = x" by (auto intro: fl_pos_exact)
    then show ?thesis by (simp add: fl_def)
  next
    case 3
    then have "- x = of_int (- m) * 2 powi k" "0 < - m" "- m < 2 ^ 53" using x m by auto
    then have "fl_pos (- x) = - x" by (rule fl_pos_exact)
    moreover have "x < 0" using x 3 by (simp add: mult_less_0_iff)
    ultimately show ?thesis by (simp add: fl_def)
  qed (simp add: x)
qed

lemma fl_of_int: "\<bar>m\<bar> < 2 ^ 53 \<Longrightarrow> fl (of_int m) = of_int m"
  by (rule fl_exact [where k = 0]) simp_all

lemma fl_1 [simp]: "fl 1 = 1"
  using fl_of_int [of 1] by simp

lemma fl_nonneg [simp]: "0 \<le> x \<Longrightarrow> 0 \<le> fl x"
  using fl_mono [of 0 x] by simp

lemma fl_le_1 [simp]: "x \<le> 1 \<Longrightarrow> fl x \<le> 1"
  using fl_mono [of x 1] by simp

text \<open>Rounding to decimals keeps the unit interval.\<close>

lemma py_round_unit:
  assumes "0 \<le> x" "x \<le> 1"
  shows "0 \<le> py_round x k" "py_round x k \<le> 1"
proof -
  have "of_int 0 \<le> x * 10 ^ k" using assms by simp
  then have 0: "0 \<le> rne (x * 10 ^ k)" by (rule rne_ge)
  have "x * 10 ^ k \<le> 1 * 10 ^ k" using assms by (intro mult_right_mono) simp_all
  then have "x * 10 ^ k \<le> of_int (10 ^ k)" by simp
  then have 1: "rne (x * 10 ^ k) \<le> 10 ^ k" by (rule rne_le)
  have "0 \<le> (of_int (rne (x * 10 ^ k)) :: rat) / 10 ^ k" using 0 by simp
  then show "0 \<le> py_round x k" unfolding py_round_def by (rule fl_nonneg)
  have "(of_int (rne (x * 10 ^ k)) :: rat) \<le> of_int (10 ^ k)" using 1 by (simp only: of_int_le_iff)
  then have "(of_int (rne (x * 10 ^ k)) :: rat) / 10 ^ k \<le> 1" by simp
  then show "py_round x k \<le> 1" unfolding py_round_def by (rule fl_le_1)
qed

lemma py_round_mono: "x \<le> y \<Longrightarrow> py_round x k \<le> py_round y k"
  unfolding py_round_def
  by (intro fl_mono divide_right_mono) (simp_all add: rne_mono)

end
