(* ===== verification/Contracts.thy ===== *)
theory Contracts
  imports PyStr PyFloat
begin

text \<open>
  The naming half of the frozen interface \<open>shared/\<close>: decoded JSON values, topic names
  and partition keys (\<open>topics.py\<close>) and Redis key builders (\<open>redis_keys.py\<close>). The
  lemmas show that the topic lists partition the topics, and that no two Redis keys of
  different purpose, job or message coincide.
\<close>

section \<open>JSON values\<close>

datatype json =
    JNull
  | JBool bool
  | JInt int
  | JFloat pyfloat
  | JStr string
  | JList "json list"
  | JObj "(string \<times> json) list"

type_synonym payload = "(string, json) dict"

text \<open>Python's truth value of a decoded JSON value.\<close>

fun truthy :: "json \<Rightarrow> bool" where
  "truthy JNull = False"
| "truthy (JBool b) = b"
| "truthy (JInt i) = (i \<noteq> 0)"
| "truthy (JFloat x) = (x \<noteq> 0)"
| "truthy (JStr s) = (s \<noteq> [])"
| "truthy (JList js) = (js \<noteq> [])"
| "truthy (JObj d) = (d \<noteq> [])"

text \<open>\<open>d[k]\<close> and \<open>d.get(k)\<close> on a dictionary.\<close>

definition jindex :: "payload \<Rightarrow> string \<Rightarrow> json result" where
  "jindex d k = (case dget d k of None \<Rightarrow> Inl (KeyError k) | Some v \<Rightarrow> Inr v)"

definition jget :: "payload \<Rightarrow> string \<Rightarrow> json" where
  "jget d k = (case dget d k of None \<Rightarrow> JNull | Some v \<Rightarrow> v)"

fun json_str :: "json \<Rightarrow> string option" where
  "json_str (JStr s) = Some s"
| "json_str _ = None"

fun json_list :: "json \<Rightarrow> json list" where
  "json_list (JList js) = js"
| "json_list _ = []"

fun json_obj :: "json \<Rightarrow> payload" where
  "json_obj (JObj d) = d"
| "json_obj _ = []"

section \<open>Topics\<close>

definition FIRMWARE_UPLOADED :: string where "FIRMWARE_UPLOADED = ''firmware.uploaded''"
definition FIRMWARE_TRIAGED :: string where "FIRMWARE_TRIAGED = ''firmware.triaged''"
definition FIRMWARE_EXTRACTED :: string where "FIRMWARE_EXTRACTED = ''firmware.extracted''"
definition FIRMWARE_ANALYZED :: string where "FIRMWARE_ANALYZED = ''firmware.analyzed''"
definition FIRMWARE_MATCHED :: string where "FIRMWARE_MATCHED = ''firmware.matched''"
definition FIRMWARE_COMPLETED :: string where "FIRMWARE_COMPLETED = ''firmware.completed''"
definition FIRMWARE_DLQ :: string where "FIRMWARE_DLQ = ''firmware.dlq''"

lemmas topic_defs =
  FIRMWARE_UPLOADED_def FIRMWARE_TRIAGED_def FIRMWARE_EXTRACTED_def FIRMWARE_ANALYZED_def
  FIRMWARE_MATCHED_def FIRMWARE_COMPLETED_def FIRMWARE_DLQ_def

definition JOB_KEYED_TOPICS :: "string list" where
  "JOB_KEYED_TOPICS = [FIRMWARE_UPLOADED, FIRMWARE_TRIAGED, FIRMWARE_COMPLETED, FIRMWARE_DLQ]"

definition SUB_BLOB_KEYED_TOPICS :: "string list" where
  "SUB_BLOB_KEYED_TOPICS = [FIRMWARE_EXTRACTED, FIRMWARE_ANALYZED, FIRMWARE_MATCHED]"

definition ALL_TOPICS :: "string list" where
  "ALL_TOPICS =
     [FIRMWARE_UPLOADED, FIRMWARE_TRIAGED, FIRMWARE_EXTRACTED, FIRMWARE_ANALYZED,
      FIRMWARE_MATCHED, FIRMWARE_COMPLETED, FIRMWARE_DLQ]"

definition partition_key :: "string \<Rightarrow> payload \<Rightarrow> json" where
  "partition_key topic payload =
     (if topic \<in> set SUB_BLOB_KEYED_TOPICS then jget payload ''sub_blob_id''
      else jget payload ''job_id'')"

lemma topic_lists_disjoint: "set JOB_KEYED_TOPICS \<inter> set SUB_BLOB_KEYED_TOPICS = {}"
  by (simp add: JOB_KEYED_TOPICS_def SUB_BLOB_KEYED_TOPICS_def topic_defs)

lemma topic_lists_cover: "set JOB_KEYED_TOPICS \<union> set SUB_BLOB_KEYED_TOPICS = set ALL_TOPICS"
  by (auto simp: JOB_KEYED_TOPICS_def SUB_BLOB_KEYED_TOPICS_def ALL_TOPICS_def)

lemma distinct_ALL_TOPICS: "distinct ALL_TOPICS"
  by (simp add: ALL_TOPICS_def topic_defs)

lemma topics_no_colon: "t \<in> set ALL_TOPICS \<Longrightarrow> CHR '':'' \<notin> set t"
  by (auto simp: ALL_TOPICS_def topic_defs)

section \<open>Redis keys\<close>

definition bloom_key :: string where
  "bloom_key = ''bloom:firmware_hashes''"

definition total_children :: "string \<Rightarrow> string" where
  "total_children job_id = ''job:'' @ job_id @ '':total_children''"

definition completed_children :: "string \<Rightarrow> string" where
  "completed_children job_id = ''job:'' @ job_id @ '':completed_children''"

definition matched_children :: "string \<Rightarrow> string" where
  "matched_children job_id = ''job:'' @ job_id @ '':matched_children''"

definition extraction_complete :: "string \<Rightarrow> string" where
  "extraction_complete job_id = ''job:'' @ job_id @ '':extraction_complete''"

definition dlq_lock_key :: "string \<Rightarrow> string" where
  "dlq_lock_key job_id = ''lock:dlq_retry:'' @ job_id"

definition idempotency_key :: "string \<Rightarrow> string \<Rightarrow> string" where
  "idempotency_key topic message_key = ''processed:'' @ topic @ '':'' @ message_key"

lemmas redis_key_defs =
  bloom_key_def total_children_def completed_children_def matched_children_def
  extraction_complete_def dlq_lock_key_def idempotency_key_def

lemma append_suffix_neq_drop:
  "length t \<le> length s \<Longrightarrow> drop (length s - length t) s \<noteq> t \<Longrightarrow> a @ s \<noteq> b @ t"
proof
  assume le: "length t \<le> length s" and ne: "drop (length s - length t) s \<noteq> t"
    and eq: "a @ s = b @ t"
  have "t = drop (length (b @ t) - length t) (b @ t)" by simp
  also have "\<dots> = drop (length (a @ s) - length t) (a @ s)" by (simp only: eq)
  also have "\<dots> = drop (length s - length t) s" using le by simp
  finally show False using ne by simp
qed

lemma counter_keys_inj [simp]:
  "total_children i = total_children j \<longleftrightarrow> i = j"
  "completed_children i = completed_children j \<longleftrightarrow> i = j"
  "matched_children i = matched_children j \<longleftrightarrow> i = j"
  "extraction_complete i = extraction_complete j \<longleftrightarrow> i = j"
  "dlq_lock_key i = dlq_lock_key j \<longleftrightarrow> i = j"
  by (simp_all add: redis_key_defs)

lemma counter_keys_distinct [simp]:
  "total_children i \<noteq> completed_children j" "completed_children j \<noteq> total_children i"
  "total_children i \<noteq> matched_children j" "matched_children j \<noteq> total_children i"
  "total_children i \<noteq> extraction_complete j" "extraction_complete j \<noteq> total_children i"
  "completed_children i \<noteq> matched_children j" "matched_children j \<noteq> completed_children i"
  "completed_children i \<noteq> extraction_complete j" "extraction_complete j \<noteq> completed_children i"
  "matched_children i \<noteq> extraction_complete j" "extraction_complete j \<noteq> matched_children i"
proof -
  have 1: "total_children i \<noteq> completed_children j" for i j
    using append_suffix_neq_drop [of "'':total_children''" "'':completed_children''" j i]
    by (simp add: redis_key_defs)
  have 2: "total_children i \<noteq> matched_children j" for i j
    using append_suffix_neq_drop [of "'':total_children''" "'':matched_children''" j i]
    by (simp add: redis_key_defs)
  have 3: "completed_children i \<noteq> matched_children j" for i j
    using append_suffix_neq_drop [of "'':matched_children''" "'':completed_children''" i j]
    by (simp add: redis_key_defs)
  have 4: "k \<noteq> extraction_complete j" if "last k = CHR ''n''" for k j
    using that by (auto simp: redis_key_defs)
  show "total_children i \<noteq> completed_children j" "completed_children j \<noteq> total_children i"
    "total_children i \<noteq> matched_children j" "matched_children j \<noteq> total_children i"
    "completed_children i \<noteq> matched_children j" "matched_children j \<noteq> completed_children i"
    using 1 2 3 by metis+
  show "total_children i \<noteq> extraction_complete j" "completed_children i \<noteq> extraction_complete j"
    "matched_children i \<noteq> extraction_complete j"
    by (rule 4, simp add: redis_key_defs)+
  then show "extraction_complete j \<noteq> total_children i" "extraction_complete j \<noteq> completed_children i"
    "extraction_complete j \<noteq> matched_children i"
    by metis+
qed

lemma key_spaces_distinct [simp]:
  "idempotency_key t m \<noteq> total_children j" "total_children j \<noteq> idempotency_key t m"
  "idempotency_key t m \<noteq> completed_children j" "completed_children j \<noteq> idempotency_key t m"
  "idempotency_key t m \<noteq> matched_children j" "matched_children j \<noteq> idempotency_key t m"
  "idempotency_key t m \<noteq> extraction_complete j" "extraction_complete j \<noteq> idempotency_key t m"
  "idempotency_key t m \<noteq> dlq_lock_key j" "dlq_lock_key j \<noteq> idempotency_key t m"
  "dlq_lock_key i \<noteq> total_children j" "total_children j \<noteq> dlq_lock_key i"
  "dlq_lock_key i \<noteq> completed_children j" "completed_children j \<noteq> dlq_lock_key i"
  "dlq_lock_key i \<noteq> matched_children j" "matched_children j \<noteq> dlq_lock_key i"
  "dlq_lock_key i \<noteq> extraction_complete j" "extraction_complete j \<noteq> dlq_lock_key i"
  by (simp_all add: redis_key_defs)

lemma idempotency_key_inj:
  assumes "t \<in> set ALL_TOPICS" "t' \<in> set ALL_TOPICS"
  shows "idempotency_key t m = idempotency_key t' m' \<longleftrightarrow> t = t' \<and> m = m'"
proof
  assume "idempotency_key t m = idempotency_key t' m'"
  then have "split_on CHR '':'' (t @ CHR '':'' # m) = split_on CHR '':'' (t' @ CHR '':'' # m')"
    by (simp add: idempotency_key_def)
  then have "t # split_on CHR '':'' m = t' # split_on CHR '':'' m'"
    by (simp add: split_on_append_sep assms topics_no_colon)
  then show "t = t' \<and> m = m'" by (metis join_split_on list.inject)
qed simp

end
