(* ===== verification/Events.thy ===== *)
theory Events
  imports Contracts
begin

text \<open>
  The payload half of the frozen interface \<open>shared/contracts/\<close>: the enumerations
  (\<open>enums.py\<close>), one contract per event (\<open>events.py\<close>), the SBOM artifact
  (\<open>sbom.py\<close>) and \<open>validate_payload\<close>. A contract class is a value of \<open>ftype\<close>, one
  line per declared field with its constraint and default; \<open>validate\<close> reads it the way
  a model with \<open>extra="forbid"\<close> is read: unknown fields are rejected, missing fields
  take their default or are an error, and the result lists the fields in declaration
  order (\<open>model_dump\<close>). How pydantic reads a scalar of one JSON type as another is not
  part of the repository: it is the parameter \<open>coercers\<close>, with its documented
  behaviour on well-typed values in \<open>coercers_ok\<close>.
\<close>

section \<open>Enumerations\<close>

datatype ConfidenceTier = CONFIRMED | HIGH_CONFIDENCE | POSSIBLE | LOW_CONFIDENCE | NO_MATCH

datatype MatchedVia = EXACT_CPE | EMBEDDING_SIMILARITY

fun tier_value :: "ConfidenceTier \<Rightarrow> string" where
  "tier_value CONFIRMED = ''CONFIRMED''"
| "tier_value HIGH_CONFIDENCE = ''HIGH_CONFIDENCE''"
| "tier_value POSSIBLE = ''POSSIBLE''"
| "tier_value LOW_CONFIDENCE = ''LOW_CONFIDENCE''"
| "tier_value NO_MATCH = ''NO_MATCH''"

fun via_value :: "MatchedVia \<Rightarrow> string" where
  "via_value EXACT_CPE = ''exact_cpe''"
| "via_value EMBEDDING_SIMILARITY = ''embedding_similarity''"

definition tier_values :: "string list" where
  "tier_values = map tier_value [CONFIRMED, HIGH_CONFIDENCE, POSSIBLE, LOW_CONFIDENCE, NO_MATCH]"

definition via_values :: "string list" where
  "via_values = map via_value [EXACT_CPE, EMBEDDING_SIMILARITY]"

lemma tier_value_inj [simp]: "tier_value a = tier_value b \<longleftrightarrow> a = b"
  by (cases a; cases b) simp_all

lemma via_value_inj [simp]: "via_value a = via_value b \<longleftrightarrow> a = b"
  by (cases a; cases b) simp_all

lemma tier_value_in [simp]: "tier_value t \<in> set tier_values"
  by (cases t) (simp_all add: tier_values_def)

lemma via_value_in [simp]: "via_value v \<in> set via_values"
  by (cases v) (simp_all add: via_values_def)

section \<open>Contracts as data\<close>

datatype ftype =
    TStr
  | TInt "int option"
  | TFloat "pyfloat option" "pyfloat option"
  | TBool
  | TDatetime
  | TEnum "string list"
  | TLiteral string
  | TSha256
  | TOptional ftype
  | TList ftype
  | TModel "(string \<times> ftype \<times> json option) list" "payload \<Rightarrow> bool"

record coercers =
  co_str :: "json \<Rightarrow> string option"
  co_int :: "json \<Rightarrow> int option"
  co_float :: "json \<Rightarrow> pyfloat option"
  co_bool :: "json \<Rightarrow> bool option"
  co_datetime :: "json \<Rightarrow> string option"

definition coercers_ok :: "coercers \<Rightarrow> bool" where
  "coercers_ok C \<longleftrightarrow>
     (\<forall>s. co_str C (JStr s) = Some s) \<and>
     (\<forall>i. co_int C (JInt i) = Some i) \<and>
     (\<forall>x. co_float C (JFloat x) = Some x) \<and>
     (\<forall>b. co_bool C (JBool b) = Some b) \<and>
     (\<forall>j s. co_datetime C j = Some s \<longrightarrow> co_datetime C (JStr s) = Some s)"

text \<open>A concrete reader that accepts well-typed values only, for the witnesses.\<close>

definition strict_coercers :: coercers where
  "strict_coercers =
     \<lparr>co_str = json_str,
      co_int = (\<lambda>j. case j of JInt i \<Rightarrow> Some i | _ \<Rightarrow> None),
      co_float = (\<lambda>j. case j of JFloat x \<Rightarrow> Some x | _ \<Rightarrow> None),
      co_bool = (\<lambda>j. case j of JBool b \<Rightarrow> Some b | _ \<Rightarrow> None),
      co_datetime = json_str\<rparr>"

lemma coercers_ok_strict [simp]: "coercers_ok strict_coercers"
  by (auto simp: coercers_ok_def strict_coercers_def)

definition is_hex :: "char \<Rightarrow> bool" where
  "is_hex c = (c \<in> set ''0123456789abcdefABCDEF'')"

definition sha256_is_hex64 :: "string \<Rightarrow> string option" where
  "sha256_is_hex64 v =
     (let v = strip v
      in if length v \<noteq> 64 \<or> \<not> (\<forall>c \<in> set v. is_hex c) then None else Some (lower v))"

definition ge_ok :: "'a::linorder option \<Rightarrow> 'a \<Rightarrow> bool" where
  "ge_ok b x = (case b of None \<Rightarrow> True | Some lo \<Rightarrow> lo \<le> x)"

definition le_ok :: "'a::linorder option \<Rightarrow> 'a \<Rightarrow> bool" where
  "le_ok b x = (case b of None \<Rightarrow> True | Some hi \<Rightarrow> x \<le> hi)"

fun validate :: "coercers \<Rightarrow> ftype \<Rightarrow> json \<Rightarrow> json option"
and validate_fields ::
  "coercers \<Rightarrow> (string \<times> ftype \<times> json option) list \<Rightarrow> payload \<Rightarrow> payload option" where
  "validate C TStr j = map_option JStr (co_str C j)"
| "validate C (TInt lo) j =
     (case co_int C j of None \<Rightarrow> None | Some i \<Rightarrow> if ge_ok lo i then Some (JInt i) else None)"
| "validate C (TFloat lo hi) j =
     (case co_float C j of None \<Rightarrow> None
      | Some x \<Rightarrow> if ge_ok lo x \<and> le_ok hi x then Some (JFloat x) else None)"
| "validate C TBool j = map_option JBool (co_bool C j)"
| "validate C TDatetime j = map_option JStr (co_datetime C j)"
| "validate C (TEnum vs) j =
     (case j of JStr s \<Rightarrow> if s \<in> set vs then Some (JStr s) else None | _ \<Rightarrow> None)"
| "validate C (TLiteral v) j = (if j = JStr v then Some (JStr v) else None)"
| "validate C TSha256 j =
     (case co_str C j of None \<Rightarrow> None | Some s \<Rightarrow> map_option JStr (sha256_is_hex64 s))"
| "validate C (TOptional t) j = (if j = JNull then Some JNull else validate C t j)"
| "validate C (TList t) j =
     (case j of JList js \<Rightarrow> map_option JList (those (map (\<lambda>j. validate C t j) js)) | _ \<Rightarrow> None)"
| "validate C (TModel fs chk) j =
     (case j of
        JObj d \<Rightarrow>
          if set (dkeys d) \<subseteq> set (map fst fs)
          then (case validate_fields C fs d of
                  None \<Rightarrow> None
                | Some vs \<Rightarrow> if chk vs then Some (JObj vs) else None)
          else None
      | _ \<Rightarrow> None)"
| "validate_fields C [] d = Some []"
| "validate_fields C ((n, t, dflt) # fs) d =
     (case (case dget d n of None \<Rightarrow> dflt | Some j \<Rightarrow> validate C t j) of
        None \<Rightarrow> None
      | Some v \<Rightarrow> map_option ((#) (n, v)) (validate_fields C fs d))"

section \<open>The event contracts\<close>

definition FirmwareUploaded :: ftype where
  "FirmwareUploaded = TModel
     [(''job_id'', TStr, None),
      (''s3_key'', TStr, None),
      (''uploaded_by'', TStr, None),
      (''uploaded_at'', TDatetime, None)] (\<lambda>_. True)"

definition FirmwareTriaged :: ftype where
  "FirmwareTriaged = TModel
     [(''job_id'', TStr, None),
      (''sha256'', TSha256, None),
      (''is_duplicate'', TBool, None),
      (''size_bytes'', TInt (Some 0), None)] (\<lambda>_. True)"

definition FirmwareExtracted :: ftype where
  "FirmwareExtracted = TModel
     [(''job_id'', TStr, None),
      (''sub_blob_id'', TStr, None),
      (''s3_key'', TStr, None),
      (''parent_blob_id'', TOptional TStr, Some JNull)] (\<lambda>_. True)"

definition EntropySection :: ftype where
  "EntropySection = TModel
     [(''offset'', TInt (Some 0), None),
      (''entropy'', TFloat (Some 0) (Some 8), None),
      (''flagged_packed'', TBool, None)] (\<lambda>_. True)"

definition VersionCandidate :: ftype where
  "VersionCandidate = TModel
     [(''vendor'', TStr, None), (''product'', TStr, None), (''version'', TStr, None)] (\<lambda>_. True)"

definition SecretFlag :: ftype where
  "SecretFlag = TModel [(''type'', TStr, None), (''context'', TStr, None)] (\<lambda>_. True)"

definition HardeningFlags :: ftype where
  "HardeningFlags = TModel
     [(''nx'', TBool, None), (''pie'', TBool, None), (''relro'', TStr, None),
      (''canary'', TBool, None)] (\<lambda>_. True)"

definition FirmwareAnalyzed :: ftype where
  "FirmwareAnalyzed = TModel
     [(''job_id'', TStr, None),
      (''sub_blob_id'', TStr, None),
      (''strings_found'', TList TStr, Some (JList [])),
      (''entropy_sections'', TList EntropySection, Some (JList [])),
      (''version_candidates'', TList VersionCandidate, Some (JList [])),
      (''secrets_flagged'', TList SecretFlag, Some (JList [])),
      (''hardening_flags'', HardeningFlags, None)] (\<lambda>_. True)"

text \<open>\<open>CveMatch._check_invariants\<close>, on the validated fields, in the order of its checks.\<close>

definition cve_match_invariants :: "payload \<Rightarrow> bool" where
  "cve_match_invariants d =
     (let tier = jget d ''confidence_tier'';
          via = jget d ''matched_via'';
          score = jget d ''similarity_score'';
          rationale = jget d ''llm_rationale'';
          rationale_allowed =
            tier \<in> {JStr (tier_value POSSIBLE), JStr (tier_value LOW_CONFIDENCE)}
      in if tier = JStr (tier_value NO_MATCH) then False
         else if via = JStr (via_value EXACT_CPE) \<and> score \<noteq> JNull then False
         else if via = JStr (via_value EXACT_CPE) \<and> tier \<noteq> JStr (tier_value CONFIRMED) then False
         else if via \<noteq> JStr (via_value EXACT_CPE) \<and> score = JNull then False
         else if via \<noteq> JStr (via_value EXACT_CPE) \<and> tier = JStr (tier_value CONFIRMED) then False
         else if rationale \<noteq> JNull \<and> \<not> rationale_allowed then False
         else True)"

definition CveMatch :: ftype where
  "CveMatch = TModel
     [(''cve_id'', TStr, None),
      (''confidence_tier'', TEnum tier_values, None),
      (''similarity_score'', TOptional (TFloat (Some 0) (Some 1)), Some JNull),
      (''matched_via'', TEnum via_values, None),
      (''llm_rationale'', TOptional TStr, Some JNull)] cve_match_invariants"

definition FirmwareMatched :: ftype where
  "FirmwareMatched = TModel
     [(''job_id'', TStr, None),
      (''sub_blob_id'', TStr, None),
      (''cve_matches'', TList CveMatch, Some (JList []))] (\<lambda>_. True)"

definition FirmwareCompleted :: ftype where
  "FirmwareCompleted = TModel
     [(''job_id'', TStr, None),
      (''status'', TLiteral ''COMPLETE'', Some (JStr ''COMPLETE'')),
      (''report_s3_key'', TStr, None),
      (''sbom_s3_key'', TStr, None)] (\<lambda>_. True)"

definition FirmwareDlq :: ftype where
  "FirmwareDlq = TModel
     [(''original_topic'', TStr, None),
      (''payload'', TStr, None),
      (''error'', TStr, None),
      (''failed_at'', TDatetime, None)] (\<lambda>_. True)"

definition SbomComponent :: ftype where
  "SbomComponent = TModel
     [(''vendor'', TStr, None),
      (''product'', TStr, None),
      (''version'', TStr, None),
      (''source_sub_blob_id'', TStr, None)] (\<lambda>_. True)"

definition Sbom :: ftype where
  "Sbom = TModel
     [(''job_id'', TStr, None),
      (''generated_at'', TDatetime, None),
      (''components'', TList SbomComponent, Some (JList []))] (\<lambda>_. True)"

lemmas contract_defs =
  FirmwareUploaded_def FirmwareTriaged_def FirmwareExtracted_def EntropySection_def
  VersionCandidate_def SecretFlag_def HardeningFlags_def FirmwareAnalyzed_def CveMatch_def
  FirmwareMatched_def FirmwareCompleted_def FirmwareDlq_def SbomComponent_def Sbom_def

section \<open>The single validation entry point\<close>

definition TOPIC_MODELS :: "(string, ftype) dict" where
  "TOPIC_MODELS =
     [(FIRMWARE_UPLOADED, FirmwareUploaded),
      (FIRMWARE_TRIAGED, FirmwareTriaged),
      (FIRMWARE_EXTRACTED, FirmwareExtracted),
      (FIRMWARE_ANALYZED, FirmwareAnalyzed),
      (FIRMWARE_MATCHED, FirmwareMatched),
      (FIRMWARE_COMPLETED, FirmwareCompleted),
      (FIRMWARE_DLQ, FirmwareDlq)]"

definition validate_payload :: "coercers \<Rightarrow> string \<Rightarrow> json \<Rightarrow> payload result" where
  "validate_payload C topic payload =
     (case dget TOPIC_MODELS topic of
        None \<Rightarrow> Inl (ValueError ''unknown topic'')
      | Some model \<Rightarrow>
          (case validate C model payload of
             Some (JObj d) \<Rightarrow> Inr d
           | _ \<Rightarrow> Inl ValidationError))"

lemma TOPIC_MODELS_keys: "dkeys TOPIC_MODELS = ALL_TOPICS"
  by (simp add: TOPIC_MODELS_def ALL_TOPICS_def)

lemma TOPIC_MODELS_simps [simp]:
  "dget TOPIC_MODELS FIRMWARE_UPLOADED = Some FirmwareUploaded"
  "dget TOPIC_MODELS FIRMWARE_TRIAGED = Some FirmwareTriaged"
  "dget TOPIC_MODELS FIRMWARE_EXTRACTED = Some FirmwareExtracted"
  "dget TOPIC_MODELS FIRMWARE_ANALYZED = Some FirmwareAnalyzed"
  "dget TOPIC_MODELS FIRMWARE_MATCHED = Some FirmwareMatched"
  "dget TOPIC_MODELS FIRMWARE_COMPLETED = Some FirmwareCompleted"
  "dget TOPIC_MODELS FIRMWARE_DLQ = Some FirmwareDlq"
  by (simp_all add: TOPIC_MODELS_def topic_defs)

section \<open>Reading a dumped payload again\<close>

text \<open>
  A contract is well formed when its field names are distinct and every default is a
  value the field itself accepts unchanged.
\<close>

fun schema_ok :: "coercers \<Rightarrow> ftype \<Rightarrow> bool"
and fields_ok :: "coercers \<Rightarrow> (string \<times> ftype \<times> json option) list \<Rightarrow> bool" where
  "schema_ok C (TOptional t) = schema_ok C t"
| "schema_ok C (TList t) = schema_ok C t"
| "schema_ok C (TModel fs chk) = (distinct (map fst fs) \<and> fields_ok C fs)"
| "schema_ok C _ = True"
| "fields_ok C [] = True"
| "fields_ok C ((n, t, dflt) # fs) =
     (schema_ok C t \<and> (case dflt of None \<Rightarrow> True | Some v \<Rightarrow> validate C t v = Some v) \<and>
      fields_ok C fs)"

lemma validate_fields_names:
  "validate_fields C fs d = Some vs \<Longrightarrow> map fst vs = map fst fs"
proof (induction fs arbitrary: vs)
  case (Cons f fs)
  then show ?case by (cases f) (auto split: option.splits)
qed simp

lemma validate_fields_lookup:
  assumes "validate_fields C fs d = Some vs" "distinct (map fst fs)" "(n, t, dflt) \<in> set fs"
  shows "\<exists>v. dget vs n = Some v \<and> (case dget d n of None \<Rightarrow> dflt = Some v | Some j \<Rightarrow> validate C t j = Some v)"
  using assms
proof (induction fs arbitrary: vs)
  case (Cons f fs)
  obtain m u e where f: "f = (m, u, e)" by (cases f)
  show ?case
  proof (cases "(n, t, dflt) = f")
    case True
    then show ?thesis using Cons.prems f by (auto split: option.splits)
  next
    case False
    then have "n \<noteq> m" using Cons.prems f by (force simp: image_iff)
    then show ?thesis using Cons f False by (auto split: option.splits)
  qed
qed simp

lemma validate_fields_cong:
  "(\<And>n. n \<in> set (map fst fs) \<Longrightarrow> dget d n = dget e n) \<Longrightarrow>
   validate_fields C fs d = validate_fields C fs e"
proof (induction fs)
  case (Cons f fs)
  obtain m u w where f: "f = (m, u, w)" by (cases f)
  have *: "validate_fields C fs d = validate_fields C fs e" by (rule Cons.IH) (simp add: Cons.prems)
  have "dget d m = dget e m" by (rule Cons.prems) (simp add: f)
  with * show ?case by (simp only: f validate_fields.simps)
qed simp

lemma lower_hex:
  "is_hex c \<Longrightarrow> is_hex (lower_char c) \<and> \<not> is_upper (lower_char c) \<and> \<not> is_space (lower_char c)"
proof -
  have "list_all (\<lambda>c. is_hex (lower_char c) \<and> \<not> is_space (lower_char c)) ''0123456789abcdefABCDEF''"
    by code_simp
  then show "is_hex c \<Longrightarrow> is_hex (lower_char c) \<and> \<not> is_upper (lower_char c) \<and> \<not> is_space (lower_char c)"
    unfolding is_hex_def [of c] by (auto simp: list_all_iff)
qed

lemma sha256_is_hex64_Some:
  assumes "sha256_is_hex64 v = Some w"
  shows "length w = 64 \<and> (\<forall>c \<in> set w. is_hex c \<and> \<not> is_upper c \<and> \<not> is_space c)"
  using assms lower_hex by (auto simp: sha256_is_hex64_def Let_def lower_def split: if_splits)

lemma sha256_is_hex64_idem:
  assumes "sha256_is_hex64 v = Some w"
  shows "sha256_is_hex64 w = Some w"
proof -
  note w = sha256_is_hex64_Some [OF assms]
  then have "w \<noteq> []" by auto
  with w have "stripped w" by (simp add: stripped_def)
  then have "strip w = w" by (rule strip_stripped)
  moreover have "lower w = w" using w by (simp add: lower_def lower_char_def map_idI)
  ultimately show ?thesis using w by (simp add: sha256_is_hex64_def)
qed

lemma validate_idem:
  "coercers_ok C \<Longrightarrow> schema_ok C t \<Longrightarrow> validate C t j = Some v \<Longrightarrow> validate C t v = Some v"
  "coercers_ok C \<Longrightarrow> fields_ok C fs \<Longrightarrow> distinct (map fst fs) \<Longrightarrow>
   validate_fields C fs d = Some vs \<Longrightarrow> validate_fields C fs vs = Some vs"
proof (induction C t j and C fs d arbitrary: v and vs rule: validate_validate_fields.induct)
  case (8 C j)
  then show ?case
    by (auto simp: coercers_ok_def sha256_is_hex64_idem split: option.splits)
next
  case (10 C t j)
  from "10.prems" obtain js ws where j: "j = JList js" and v: "v = JList ws"
    and ws: "those (map (validate C t) js) = Some ws"
    by (auto split: json.splits)
  have "validate C t w = Some w" if "w \<in> set ws" for w
  proof -
    from that ws obtain i where "i < length js" "validate C t (js ! i) = Some w"
      by (auto simp: those_map_eq_Some in_set_conv_nth)
    then show ?thesis using "10.IH" [OF j, of "js ! i" w] "10.prems" by simp
  qed
  then have "map (validate C t) ws = map Some ws" by simp
  then have "those (map (validate C t) ws) = Some ws" by (simp only: those_map_Some)
  then show ?case by (simp add: v)
next
  case (11 C fs chk j)
  from "11.prems"(3) obtain d vs where d: "j = JObj d" "set (dkeys d) \<subseteq> set (map fst fs)"
    and vs: "validate_fields C fs d = Some vs" "chk vs" "v = JObj vs"
    by (simp only: validate.simps split: json.splits if_splits option.splits) simp_all
  have "validate_fields C fs vs = Some vs"
    by (rule "11.IH" [OF d]) (use "11.prems" vs in simp_all)
  moreover have "set (dkeys vs) \<subseteq> set (map fst fs)"
    by (simp only: validate_fields_names [OF vs(1)] subset_refl)
  ultimately show ?case using vs by (simp del: set_map)
next
  case (13 C n t dflt fs d)
  from "13.prems" obtain v vs' where vs: "vs = (n, v) # vs'"
    and v: "(case dget d n of None \<Rightarrow> dflt | Some j \<Rightarrow> validate C t j) = Some v"
    and vs': "validate_fields C fs d = Some vs'"
    by (auto split: option.splits)
  have "validate C t v = Some v" using v "13.IH"(1) "13.prems" by (auto split: option.splits)
  moreover have "validate_fields C fs vs = validate_fields C fs vs'"
    by (rule validate_fields_cong) (use "13.prems" vs in auto)
  moreover have "validate_fields C fs vs' = Some vs'"
    using "13.IH"(2) [OF v] "13.prems" vs' by auto
  ultimately show ?case by (simp add: vs)
qed (auto simp: coercers_ok_def split: option.splits json.splits if_splits)

lemma schema_ok_all:
  "list_all (schema_ok C) [FirmwareUploaded, FirmwareTriaged, FirmwareExtracted, FirmwareAnalyzed,
     FirmwareMatched, FirmwareCompleted, FirmwareDlq]"
  by (simp add: contract_defs)

lemma schema_ok_contracts: "dget TOPIC_MODELS topic = Some m \<Longrightarrow> schema_ok C m"
proof -
  assume "dget TOPIC_MODELS topic = Some m"
  then have "m \<in> set (map snd TOPIC_MODELS)" by (force dest: map_of_SomeD)
  also have "map snd TOPIC_MODELS = [FirmwareUploaded, FirmwareTriaged, FirmwareExtracted,
      FirmwareAnalyzed, FirmwareMatched, FirmwareCompleted, FirmwareDlq]"
    by (simp add: TOPIC_MODELS_def)
  finally show ?thesis using schema_ok_all [of C] by (metis list_all_iff)
qed

lemma validate_model_Some:
  assumes "validate C (TModel fs chk) j = Some v"
  obtains d vs where "j = JObj d" "set (dkeys d) \<subseteq> set (map fst fs)"
    "validate_fields C fs d = Some vs" "chk vs" "v = JObj vs"
  using assms by (auto split: json.splits if_splits option.splits)

lemma validate_payload_Inr:
  "validate_payload C topic j = Inr d \<longleftrightarrow>
   (\<exists>m. dget TOPIC_MODELS topic = Some m \<and> validate C m j = Some (JObj d))"
  by (auto simp: validate_payload_def split: option.splits json.splits)

text \<open>
  A payload that the contract layer has accepted and dumped is accepted again
  unchanged: what \<open>emit\<close> validates on the way out is what the consumer of the topic reads
  on the way in.
\<close>

theorem validate_payload_stable:
  assumes "coercers_ok C" and "validate_payload C topic j = Inr d"
  shows "validate_payload C topic (JObj d) = Inr d"
  using assms validate_idem(1) schema_ok_contracts unfolding validate_payload_Inr by blast

lemma uploaded_example:
  "validate_payload strict_coercers FIRMWARE_UPLOADED
     (JObj [(''uploaded_by'', JStr ''u''), (''job_id'', JStr ''j''),
            (''s3_key'', JStr ''k''), (''uploaded_at'', JStr ''t'')]) =
   Inr [(''job_id'', JStr ''j''), (''s3_key'', JStr ''k''),
        (''uploaded_by'', JStr ''u''), (''uploaded_at'', JStr ''t'')]"
  by (simp add: validate_payload_def FirmwareUploaded_def strict_coercers_def)

theorem validate_payload_stable_witness:
  "validate_payload strict_coercers FIRMWARE_UPLOADED
     (JObj [(''job_id'', JStr ''j''), (''s3_key'', JStr ''k''),
            (''uploaded_by'', JStr ''u''), (''uploaded_at'', JStr ''t'')]) =
   Inr [(''job_id'', JStr ''j''), (''s3_key'', JStr ''k''),
        (''uploaded_by'', JStr ''u''), (''uploaded_at'', JStr ''t'')]"
  by (rule validate_payload_stable [OF coercers_ok_strict uploaded_example])

section \<open>What a validated match entry satisfies\<close>

lemma tier_valuesE:
  assumes "s \<in> set tier_values"
  obtains t where "s = tier_value t"
  using assms unfolding tier_values_def set_map by blast

lemma via_valuesE:
  assumes "s \<in> set via_values"
  obtains v where "s = via_value v"
  using assms unfolding via_values_def set_map by blast

text \<open>The dumped form of a match entry, built from typed parts.\<close>

definition cve_match_payload ::
  "string \<Rightarrow> ConfidenceTier \<Rightarrow> pyfloat option \<Rightarrow> MatchedVia \<Rightarrow> string option \<Rightarrow> payload" where
  "cve_match_payload cve_id tier score via rationale =
     [(''cve_id'', JStr cve_id),
      (''confidence_tier'', JStr (tier_value tier)),
      (''similarity_score'', (case score of None \<Rightarrow> JNull | Some x \<Rightarrow> JFloat x)),
      (''matched_via'', JStr (via_value via)),
      (''llm_rationale'', (case rationale of None \<Rightarrow> JNull | Some r \<Rightarrow> JStr r))]"

definition cve_match_wf ::
  "ConfidenceTier \<Rightarrow> pyfloat option \<Rightarrow> MatchedVia \<Rightarrow> string option \<Rightarrow> bool" where
  "cve_match_wf tier score via rationale \<longleftrightarrow>
     tier \<noteq> NO_MATCH \<and>
     (via = EXACT_CPE \<longleftrightarrow> tier = CONFIRMED) \<and>
     (via = EXACT_CPE \<longleftrightarrow> score = None) \<and>
     (case score of None \<Rightarrow> True | Some x \<Rightarrow> 0 \<le> x \<and> x \<le> 1) \<and>
     (rationale = None \<or> tier = POSSIBLE \<or> tier = LOW_CONFIDENCE)"

lemma cve_match_invariants_iff:
  assumes "case score of None \<Rightarrow> True | Some x \<Rightarrow> 0 \<le> x \<and> x \<le> 1"
  shows "cve_match_invariants (cve_match_payload i tier score via rat) \<longleftrightarrow> cve_match_wf tier score via rat"
  using assms
  by (cases tier; cases via; cases score; cases rat)
    (simp_all add: cve_match_invariants_def cve_match_payload_def cve_match_wf_def jget_def)

lemma validate_CveMatch_iff:
  assumes "coercers_ok C"
  shows "validate C CveMatch (JObj (cve_match_payload i tier score via rat)) =
    (if cve_match_wf tier score via rat then Some (JObj (cve_match_payload i tier score via rat)) else None)"
proof (cases "case score of None \<Rightarrow> True | Some x \<Rightarrow> 0 \<le> x \<and> x \<le> 1")
  case True
  have "validate_fields C
     [(''cve_id'', TStr, None), (''confidence_tier'', TEnum tier_values, None),
      (''similarity_score'', TOptional (TFloat (Some 0) (Some 1)), Some JNull),
      (''matched_via'', TEnum via_values, None), (''llm_rationale'', TOptional TStr, Some JNull)]
     (cve_match_payload i tier score via rat) = Some (cve_match_payload i tier score via rat)"
    using assms True
    by (cases score; cases rat)
      (simp_all add: cve_match_payload_def coercers_ok_def ge_ok_def le_ok_def)
  moreover have "set (dkeys (cve_match_payload i tier score via rat)) =
     {''cve_id'', ''confidence_tier'', ''similarity_score'', ''matched_via'', ''llm_rationale''}"
    by (auto simp: cve_match_payload_def)
  ultimately show ?thesis
    by (simp add: CveMatch_def cve_match_invariants_iff [OF True] del: validate_fields.simps)
next
  case False
  then have "\<not> cve_match_wf tier score via rat" by (simp add: cve_match_wf_def)
  moreover have "validate C CveMatch (JObj (cve_match_payload i tier score via rat)) = None"
    using assms False
    by (cases score; cases rat)
      (auto simp: CveMatch_def cve_match_payload_def coercers_ok_def ge_ok_def le_ok_def)
  ultimately show ?thesis by simp
qed

lemma validate_field_cases:
  "validate C TStr j = Some v \<Longrightarrow> \<exists>s. v = JStr s"
  "validate C (TOptional TStr) j = Some v \<Longrightarrow> v = JNull \<or> (\<exists>s. v = JStr s)"
  "validate C (TEnum vals) j = Some v \<Longrightarrow> \<exists>s \<in> set vals. v = JStr s"
  "validate C (TOptional (TFloat (Some 0) (Some 1))) j = Some v \<Longrightarrow>
     v = JNull \<or> (\<exists>x. v = JFloat x \<and> 0 \<le> x \<and> x \<le> 1)"
  by (auto simp: ge_ok_def le_ok_def split: json.splits option.splits if_splits)

lemma validate_fields_ConsD:
  "validate_fields C ((n, t, dflt) # fs) d = Some vs \<Longrightarrow>
   \<exists>v vs'. vs = (n, v) # vs' \<and> (dflt = Some v \<or> (\<exists>j. validate C t j = Some v)) \<and>
     validate_fields C fs d = Some vs'"
  by (auto split: option.splits)

lemma validate_list_elems:
  "validate C (TList t) j = Some v \<Longrightarrow> list_all (\<lambda>m. \<exists>j. validate C t j = Some m) (json_list v)"
proof -
  assume "validate C (TList t) j = Some v"
  then obtain js ws where v: "v = JList ws" and ws: "those (map (validate C t) js) = Some ws"
    by (auto split: json.splits)
  from ws show ?thesis by (auto simp: v list_all_length those_map_eq_Some)
qed

lemma validate_CveMatch_Some:
  assumes "validate C CveMatch j = Some v"
  obtains i tier score via rat where "v = JObj (cve_match_payload i tier score via rat)"
    "cve_match_wf tier score via rat"
proof -
  from assms obtain d vs where
    vs: "validate_fields C
     [(''cve_id'', TStr, None), (''confidence_tier'', TEnum tier_values, None),
      (''similarity_score'', TOptional (TFloat (Some 0) (Some 1)), Some JNull),
      (''matched_via'', TEnum via_values, None), (''llm_rationale'', TOptional TStr, Some JNull)] d = Some vs"
    and chk: "cve_match_invariants vs" and v: "v = JObj vs"
    unfolding CveMatch_def by (rule validate_model_Some)
  from vs obtain a b c e f where fields:
      "vs = [(''cve_id'', a), (''confidence_tier'', b), (''similarity_score'', c),
             (''matched_via'', e), (''llm_rationale'', f)]"
    and typed: "\<exists>j. validate C TStr j = Some a" "\<exists>j. validate C (TEnum tier_values) j = Some b"
      "c = JNull \<or> (\<exists>j. validate C (TOptional (TFloat (Some 0) (Some 1))) j = Some c)"
      "\<exists>j. validate C (TEnum via_values) j = Some e"
      "f = JNull \<or> (\<exists>j. validate C (TOptional TStr) j = Some f)"
    by (fastforce dest!: validate_fields_ConsD simp del: validate.simps validate_fields.simps(2))
  from typed(1) obtain i where a: "a = JStr i" by (auto dest: validate_field_cases)
  from typed(2) obtain tier where b: "b = JStr (tier_value tier)"
    by (metis validate_field_cases(3) tier_valuesE)
  from typed(4) obtain via where e: "e = JStr (via_value via)"
    by (metis validate_field_cases(3) via_valuesE)
  from typed(3) obtain score where c: "c = (case score of None \<Rightarrow> JNull | Some x \<Rightarrow> JFloat x)"
    and range: "case score of None \<Rightarrow> True | Some x \<Rightarrow> 0 \<le> x \<and> x \<le> 1"
    by (smt (verit) validate_field_cases(4) option.simps(4) option.simps(5))
  from typed(5) obtain rat where f: "f = (case rat of None \<Rightarrow> JNull | Some r \<Rightarrow> JStr r)"
    by (metis validate_field_cases(2) option.simps(4) option.simps(5))
  have vs': "vs = cve_match_payload i tier score via rat"
    by (simp add: fields a b c e f cve_match_payload_def)
  show thesis
    by (rule that [of i tier score via rat])
      (use chk range in \<open>simp_all add: v vs' cve_match_invariants_iff\<close>)
qed

text \<open>
  Every entry of \<open>cve_matches\<close> in an accepted \<open>firmware.matched\<close> payload has the five
  dumped fields, and: it is never \<open>NO_MATCH\<close>; it is \<open>CONFIRMED\<close> exactly when it was found by
  exact CPE, and exactly then it has no score; a score lies in [0, 1]; a rationale occurs
  on \<open>POSSIBLE\<close> and \<open>LOW_CONFIDENCE\<close> entries only.
\<close>

theorem validated_matches_wf:
  assumes "validate_payload C FIRMWARE_MATCHED j = Inr d"
    and "m \<in> set (json_list (jget d ''cve_matches''))"
  shows "\<exists>i tier score via rat.
    m = JObj (cve_match_payload i tier score via rat) \<and> cve_match_wf tier score via rat"
proof -
  from assms(1) obtain d0 where
    vs: "validate_fields C [(''job_id'', TStr, None), (''sub_blob_id'', TStr, None),
           (''cve_matches'', TList CveMatch, Some (JList []))] d0 = Some d"
    by (auto simp: validate_payload_Inr FirmwareMatched_def
        simp del: validate.simps validate_fields.simps elim!: validate_model_Some)
  from validate_fields_lookup [OF this, of "''cve_matches''" "TList CveMatch" "Some (JList [])"]
  obtain v where v: "dget d ''cve_matches'' = Some v"
    and "case dget d0 ''cve_matches'' of None \<Rightarrow> v = JList [] | Some j \<Rightarrow> validate C (TList CveMatch) j = Some v"
    by (auto split: option.splits)
  then have "v = JList [] \<or> (\<exists>j. validate C (TList CveMatch) j = Some v)"
    by (auto split: option.splits)
  then have "list_all (\<lambda>m. \<exists>j. validate C CveMatch j = Some m) (json_list v)"
    by (rule disjE) (use validate_list_elems in force)+
  moreover have "m \<in> set (json_list v)" using assms(2) v by (simp add: jget_def)
  ultimately have "\<exists>j. validate C CveMatch j = Some m" by (simp add: list_all_iff)
  then show ?thesis by (metis validate_CveMatch_Some)
qed

lemma matched_example:
  "validate_payload strict_coercers FIRMWARE_MATCHED
     (JObj [(''job_id'', JStr ''j''), (''sub_blob_id'', JStr ''b''),
            (''cve_matches'', JList [JObj (cve_match_payload ''CVE-1'' POSSIBLE (Some (1/2)) EMBEDDING_SIMILARITY None)])]) =
   Inr [(''job_id'', JStr ''j''), (''sub_blob_id'', JStr ''b''),
        (''cve_matches'', JList [JObj (cve_match_payload ''CVE-1'' POSSIBLE (Some (1/2)) EMBEDDING_SIMILARITY None)])]"
proof -
  have "validate strict_coercers CveMatch
      (JObj (cve_match_payload ''CVE-1'' POSSIBLE (Some (1/2)) EMBEDDING_SIMILARITY None)) =
    Some (JObj (cve_match_payload ''CVE-1'' POSSIBLE (Some (1/2)) EMBEDDING_SIMILARITY None))"
    by (simp add: validate_CveMatch_iff cve_match_wf_def)
  then show ?thesis
    by (simp add: validate_payload_Inr FirmwareMatched_def strict_coercers_def)
qed

theorem validated_matches_wf_witness:
  "\<exists>i tier score via rat.
     JObj (cve_match_payload ''CVE-1'' POSSIBLE (Some (1/2)) EMBEDDING_SIMILARITY None) =
       JObj (cve_match_payload i tier score via rat) \<and> cve_match_wf tier score via rat"
  by (rule validated_matches_wf [OF matched_example]) (simp add: jget_def)

end
