(* ===== verification/RedisStore.thy ===== *)
theory RedisStore
  imports Contracts
begin

text \<open>
  The Redis operations the services call, as the repository's own in-memory client behaves
  (\<open>FakeRedis\<close> in \<open>services/ingestion/tests/_ingest_fakes.py\<close>): strings with an optional
  expiry, \<open>SET\<close> with \<open>NX\<close>, \<open>EX\<close> and \<open>PX\<close>, counters stored as decimal text, and bitmaps.
  Time is in milliseconds. The locale \<open>key_value\<close> states what the clients (the
  idempotency claim, the counters of the completion gate, the locks) rely on; the
  interpretation shows that this client provides it.
\<close>

record redis =
  rd_store :: "(string, string) dict"
  rd_expiry :: "(string, int) dict"
  rd_bits :: "(string, nat list) dict"
  rd_now :: int

definition redis_empty :: redis where
  "redis_empty = \<lparr>rd_store = [], rd_expiry = [], rd_bits = [], rd_now = 0\<rparr>"

section \<open>Operations\<close>

definition r_overdue :: "string \<Rightarrow> redis \<Rightarrow> bool" where
  "r_overdue key r = (case dget (rd_expiry r) key of None \<Rightarrow> False | Some t \<Rightarrow> t \<le> rd_now r)"

definition r_expired :: "string \<Rightarrow> redis \<Rightarrow> bool \<times> redis" where
  "r_expired key r =
     (if r_overdue key r
      then (True, r\<lparr>rd_store := ddel key (rd_store r), rd_expiry := ddel key (rd_expiry r)\<rparr>)
      else (False, r))"

definition r_set :: "string \<Rightarrow> string \<Rightarrow> bool \<Rightarrow> int option \<Rightarrow> redis \<Rightarrow> bool \<times> redis" where
  "r_set key value nx px r =
     (let r = snd (r_expired key r)
      in if nx \<and> dget (rd_store r) key \<noteq> None then (False, r)
         else (True, r\<lparr>rd_store := dset key value (rd_store r),
                       rd_expiry := (case px of
                          Some ms \<Rightarrow> dset key (rd_now r + ms) (rd_expiry r)
                        | None \<Rightarrow> ddel key (rd_expiry r))\<rparr>))"

definition r_get :: "string \<Rightarrow> redis \<Rightarrow> string option \<times> redis" where
  "r_get key r =
     (case r_expired key r of (True, r') \<Rightarrow> (None, r') | (False, r') \<Rightarrow> (dget (rd_store r') key, r'))"

definition r_incrby :: "string \<Rightarrow> int \<Rightarrow> redis \<Rightarrow> int result \<times> redis" where
  "r_incrby key amount r =
     (let r = snd (r_expired key r);
          stored = (case dget (rd_store r) key of None \<Rightarrow> ''0'' | Some s \<Rightarrow> s)
      in case py_int stored of
           None \<Rightarrow> (Inl (ValueError stored), r)
         | Some i \<Rightarrow> (Inr (i + amount), r\<lparr>rd_store := dset key (int_str (i + amount)) (rd_store r)\<rparr>))"

definition r_delete :: "string \<Rightarrow> redis \<Rightarrow> nat \<times> redis" where
  "r_delete key r =
     (if dget (rd_store r) key \<noteq> None \<or> dget (rd_bits r) key \<noteq> None
      then (1, r\<lparr>rd_store := ddel key (rd_store r), rd_expiry := ddel key (rd_expiry r),
                 rd_bits := ddel key (rd_bits r)\<rparr>)
      else (0, r))"

definition r_exists :: "string \<Rightarrow> redis \<Rightarrow> bool \<times> redis" where
  "r_exists key r =
     (case r_expired key r of (gone, r') \<Rightarrow> (\<not> gone \<and> dget (rd_store r') key \<noteq> None, r'))"

definition r_bitmap :: "string \<Rightarrow> redis \<Rightarrow> nat list" where
  "r_bitmap key r = (case dget (rd_bits r) key of None \<Rightarrow> [] | Some bits \<Rightarrow> bits)"

definition r_setbit :: "string \<Rightarrow> nat \<Rightarrow> bool \<Rightarrow> redis \<Rightarrow> nat \<times> redis" where
  "r_setbit key offset value r =
     (let bits = r_bitmap key r
      in (if offset \<in> set bits then 1 else 0,
          r\<lparr>rd_bits := dset key (if value then push_new offset bits else removeAll offset bits)
                         (rd_bits r)\<rparr>))"

definition r_getbit :: "string \<Rightarrow> nat \<Rightarrow> redis \<Rightarrow> nat" where
  "r_getbit key offset r = (if offset \<in> set (r_bitmap key r) then 1 else 0)"

text \<open>The clock, which the process only reads.\<close>

definition r_wait :: "int \<Rightarrow> redis \<Rightarrow> redis" where
  "r_wait ms r = r\<lparr>rd_now := rd_now r + ms\<rparr>"

text \<open>The value a reader sees under a key now.\<close>

definition r_live :: "string \<Rightarrow> redis \<Rightarrow> string option" where
  "r_live key r = (if r_overdue key r then None else dget (rd_store r) key)"

lemmas redis_op_defs =
  r_set_def r_get_def r_incrby_def r_delete_def r_exists_def r_expired_def r_live_def r_overdue_def

section \<open>What the clients rely on\<close>

locale key_value =
  fixes kset :: "string \<Rightarrow> string \<Rightarrow> bool \<Rightarrow> int option \<Rightarrow> 's \<Rightarrow> bool \<times> 's"
    and kget :: "string \<Rightarrow> 's \<Rightarrow> string option \<times> 's"
    and kincr :: "string \<Rightarrow> int \<Rightarrow> 's \<Rightarrow> int result \<times> 's"
    and live :: "string \<Rightarrow> 's \<Rightarrow> string option"
  assumes kget_value: "fst (kget k s) = live k s"
    and kget_live: "live j (snd (kget k s)) = live j s"
    and kset_fst: "fst (kset k v nx px s) = (\<not> (nx \<and> live k s \<noteq> None))"
    and kset_live: "(case px of None \<Rightarrow> True | Some ms \<Rightarrow> 0 < ms) \<Longrightarrow>
      live j (snd (kset k v nx px s)) =
        (if j = k \<and> \<not> (nx \<and> live k s \<noteq> None) then Some v else live j s)"
    and kincr_value: "fst (kincr k n s) =
      (case py_int (case live k s of None \<Rightarrow> ''0'' | Some t \<Rightarrow> t) of
         None \<Rightarrow> Inl (ValueError (case live k s of None \<Rightarrow> ''0'' | Some t \<Rightarrow> t))
       | Some i \<Rightarrow> Inr (i + n))"
    and kincr_live: "live j (snd (kincr k n s)) =
      (case fst (kincr k n s) of
         Inl e \<Rightarrow> live j s | Inr i \<Rightarrow> if j = k then Some (int_str i) else live j s)"

begin

text \<open>The integer a key holds: absent counts as 0, as \<open>INCR\<close> reads it.\<close>

abbreviation counter :: "string \<Rightarrow> 's \<Rightarrow> int option" where
  "counter k s \<equiv> py_int (case live k s of None \<Rightarrow> ''0'' | Some t \<Rightarrow> t)"

lemma incr_counter: "counter k s = Some i \<Longrightarrow> counter k (snd (kincr k n s)) = Some (i + n)"
  by (simp add: kincr_live kincr_value)

lemma incr_other: "j \<noteq> k \<Longrightarrow> live j (snd (kincr k n s)) = live j s"
  by (simp add: kincr_live split: sum.splits)

lemma set_nx_twice:
  assumes "fst (kset k v True px s)" "case px of None \<Rightarrow> True | Some ms \<Rightarrow> 0 < ms"
  shows "\<not> fst (kset k v' True px' (snd (kset k v True px s)))"
  using assms by (simp add: kset_fst kset_live)

end

lemma r_overdue_iff:
  "r_overdue k r \<longleftrightarrow> (\<exists>t. dget (rd_expiry r) k = Some t \<and> t \<le> rd_now r)"
  by (simp add: r_overdue_def split: option.splits)

lemma r_live_expired [simp]: "r_live j (snd (r_expired k r)) = r_live j r"
  by (auto simp: r_expired_def r_live_def r_overdue_iff)

lemma r_expired_store: "dget (rd_store (snd (r_expired k r))) k = r_live k r"
  by (auto simp: r_expired_def r_live_def)

lemma r_get_simp: "r_get k r = (r_live k r, snd (r_expired k r))"
  by (auto simp: r_get_def r_expired_def r_live_def)

lemma r_exists_simp: "r_exists k r = (r_live k r \<noteq> None, snd (r_expired k r))"
  by (auto simp: r_exists_def r_expired_def r_live_def)

lemma r_not_overdue_purged: "\<not> r_overdue k (snd (r_expired k r))"
  by (auto simp: r_expired_def r_overdue_iff)

lemma r_live_put:
  "r_live j (r\<lparr>rd_store := dset k v (rd_store r), rd_expiry := dset k t (rd_expiry r)\<rparr>) =
     (if j = k then (if t \<le> rd_now r then None else Some v) else r_live j r)"
  "r_live j (r\<lparr>rd_store := dset k v (rd_store r), rd_expiry := ddel k (rd_expiry r)\<rparr>) =
     (if j = k then Some v else r_live j r)"
  "\<not> r_overdue k r \<Longrightarrow> r_live j (r\<lparr>rd_store := dset k v (rd_store r)\<rparr>) =
     (if j = k then Some v else r_live j r)"
  by (auto simp: r_live_def r_overdue_iff)

lemma r_set_simp:
  "r_set k v nx px r =
     (let r' = snd (r_expired k r)
      in if nx \<and> r_live k r \<noteq> None then (False, r')
         else (True, r'\<lparr>rd_store := dset k v (rd_store r'),
                       rd_expiry := (case px of Some ms \<Rightarrow> dset k (rd_now r' + ms) (rd_expiry r')
                                     | None \<Rightarrow> ddel k (rd_expiry r'))\<rparr>))"
  by (simp only: r_set_def Let_def r_expired_store)

lemma r_incrby_simp:
  "r_incrby k n r =
     (let r' = snd (r_expired k r);
          stored = (case r_live k r of None \<Rightarrow> ''0'' | Some s \<Rightarrow> s)
      in case py_int stored of
           None \<Rightarrow> (Inl (ValueError stored), r')
         | Some i \<Rightarrow> (Inr (i + n), r'\<lparr>rd_store := dset k (int_str (i + n)) (rd_store r')\<rparr>))"
  by (simp only: r_incrby_def Let_def r_expired_store)

interpretation fake: key_value r_set r_get r_incrby r_live
proof unfold_locales
  fix k v j nx px n s
  show "fst (r_get k s) = r_live k s" "r_live j (snd (r_get k s)) = r_live j s"
    by (simp_all add: r_get_simp)
  show "fst (r_set k v nx px s) = (\<not> (nx \<and> r_live k s \<noteq> None))"
    by (simp add: r_set_simp Let_def del: not_None_eq)
  show "r_live j (snd (r_set k v nx px s)) =
      (if j = k \<and> \<not> (nx \<and> r_live k s \<noteq> None) then Some v else r_live j s)"
    if "case px of None \<Rightarrow> True | Some ms \<Rightarrow> 0 < ms"
    using that by (cases px) (simp_all add: r_set_simp Let_def r_live_put del: not_None_eq)
  show "fst (r_incrby k n s) =
      (case py_int (case r_live k s of None \<Rightarrow> ''0'' | Some t \<Rightarrow> t) of
         None \<Rightarrow> Inl (ValueError (case r_live k s of None \<Rightarrow> ''0'' | Some t \<Rightarrow> t))
       | Some i \<Rightarrow> Inr (i + n))"
    by (simp add: r_incrby_simp Let_def split: option.splits)
  show "r_live j (snd (r_incrby k n s)) =
      (case fst (r_incrby k n s) of
         Inl e \<Rightarrow> r_live j s | Inr i \<Rightarrow> if j = k then Some (int_str i) else r_live j s)"
    by (cases "py_int (case r_live k s of None \<Rightarrow> ''0'' | Some t \<Rightarrow> t)")
      (simp_all add: r_incrby_simp Let_def r_live_put r_not_overdue_purged)
qed

end
