(* ===== verification/Router.thy ===== *)
theory Router
  imports Events RedisStore
begin

text \<open>
  \<open>services/router/\<close>: the handler registry (\<open>registry.py\<close>), the subscription table
  (\<open>topology.py\<close>), the idempotency claim (\<open>idempotency.py\<close>), dead-letter records
  (\<open>dlq.py\<close>), the per-message context with its \<open>emit\<close> (\<open>context.py\<close>, \<open>runner.py\<close>) and
  the poison-pill consumer loop (\<open>runner.py\<close>). A handler is a stateful computation over any
  record that extends \<open>router_state\<close>; the broker is the list of messages produced, with a
  list of coming outcomes of the produce call; what \<open>poll\<close> returns is the input of the
  loop.
\<close>

section \<open>The outside world\<close>

text \<open>
  Library functions the code calls and the model takes as arguments: pydantic's readers,
  the JSON codec, SHA-256 in hexadecimal, the current time as ISO text, and the text
  \<open>f"{type(exc).__name__}: {exc}"\<close> of an exception.
\<close>

record env =
  e_coerce :: coercers
  e_loads :: "string \<Rightarrow> json result"
  e_dumps :: "json \<Rightarrow> string"
  e_sha256 :: "string \<Rightarrow> string"
  e_now :: string
  e_exn :: "exn \<Rightarrow> string"

definition env_ok :: "env \<Rightarrow> bool" where
  "env_ok E \<longleftrightarrow> coercers_ok (e_coerce E) \<and> co_datetime (e_coerce E) (JStr (e_now E)) = Some (e_now E)"

record kmsg =
  km_topic :: string
  km_key :: "string option"
  km_value :: "string option"

record router_state =
  rs_redis :: redis
  rs_log :: "kmsg list"
  rs_faults :: "bool list"

record ctx =
  cx_source :: string
  cx_key :: string

type_synonym 'w handler = "ctx \<Rightarrow> payload \<Rightarrow> ('w, unit) eff"

definition on_redis :: "(redis \<Rightarrow> 'a \<times> redis) \<Rightarrow> ('z router_state_scheme, 'a) eff" where
  "on_redis f s = (case f (rs_redis s) of (x, r) \<Rightarrow> (Inr x, s\<lparr>rs_redis := r\<rparr>))"

definition on_redis_result :: "(redis \<Rightarrow> 'a result \<times> redis) \<Rightarrow> ('z router_state_scheme, 'a) eff" where
  "on_redis_result f s = (case f (rs_redis s) of (x, r) \<Rightarrow> (x, s\<lparr>rs_redis := r\<rparr>))"

text \<open>\<open>producer.produce\<close>: it appends the message, or raises when its local queue is full.\<close>

definition produce :: "kmsg \<Rightarrow> ('z router_state_scheme, unit) eff" where
  "produce m s =
     (case rs_faults s of
        True # fs \<Rightarrow> (Inl ProduceError, s\<lparr>rs_faults := fs\<rparr>)
      | _ \<Rightarrow> (Inr (), s\<lparr>rs_log := rs_log s @ [m], rs_faults := tl (rs_faults s)\<rparr>))"

section \<open>registry.py\<close>

text \<open>The registry maps a topic to a function object, here any type with equality.\<close>

definition register :: "string \<Rightarrow> 'f \<Rightarrow> (string, 'f) dict \<Rightarrow> (string, 'f) dict result" where
  "register topic fn reg =
     (case dget reg topic of
        Some g \<Rightarrow> if g \<noteq> fn then Inl (RuntimeError ''duplicate handler registration for topic'')
                  else Inr (dset topic fn reg)
      | None \<Rightarrow> Inr (dset topic fn reg))"

definition get_handler :: "(string, 'f) dict \<Rightarrow> string \<Rightarrow> 'f option" where
  "get_handler reg topic = dget reg topic"

definition registered_topics :: "(string, 'f) dict \<Rightarrow> string set" where
  "registered_topics reg = set (dkeys reg)"

fun register_all :: "(string \<times> 'f) list \<Rightarrow> (string, 'f) dict \<Rightarrow> (string, 'f) dict result" where
  "register_all [] reg = Inr reg"
| "register_all ((t, f) # rest) reg = rbind (register t f reg) (register_all rest)"

section \<open>topology.py\<close>

definition SERVICE_TO_TOPIC :: "(string, string) dict" where
  "SERVICE_TO_TOPIC =
     [(''triage'', FIRMWARE_UPLOADED),
      (''unpack'', FIRMWARE_TRIAGED),
      (''analysis'', FIRMWARE_EXTRACTED),
      (''match'', FIRMWARE_ANALYZED),
      (''aggregate'', FIRMWARE_MATCHED)]"

definition NEXT_TOPIC :: "(string, string) dict" where
  "NEXT_TOPIC =
     [(FIRMWARE_UPLOADED, FIRMWARE_TRIAGED),
      (FIRMWARE_TRIAGED, FIRMWARE_EXTRACTED),
      (FIRMWARE_EXTRACTED, FIRMWARE_ANALYZED),
      (FIRMWARE_ANALYZED, FIRMWARE_MATCHED),
      (FIRMWARE_MATCHED, FIRMWARE_COMPLETED)]"

definition service_names :: "string \<Rightarrow> string list" where
  "service_names raw =
     (if raw = ''all'' then dkeys SERVICE_TO_TOPIC
      else filter (\<lambda>p. p \<noteq> []) (map strip (split_on CHR '','' raw)))"

definition resolve_subscriptions :: "string \<Rightarrow> string list result" where
  "resolve_subscriptions services_env =
     (let raw = lower (strip services_env)
      in if raw = [] then Inl (ValueError ''SERVICES is empty'')
         else
           let names = service_names raw;
               unknown = filter (\<lambda>n. n \<notin> set (dkeys SERVICE_TO_TOPIC)) names
           in if unknown \<noteq> [] then Inl (ValueError ''unknown SERVICES entries'')
              else Inr (dedup (map (\<lambda>n. the (dget SERVICE_TO_TOPIC n)) names)))"

section \<open>idempotency.py, dlq.py\<close>

definition DEFAULT_TTL_SECONDS :: int where
  "DEFAULT_TTL_SECONDS = 24 * 60 * 60"

definition claim_message ::
  "(string \<Rightarrow> string \<Rightarrow> bool \<Rightarrow> int option \<Rightarrow> 's \<Rightarrow> bool \<times> 's) \<Rightarrow>
   string \<Rightarrow> string \<Rightarrow> int \<Rightarrow> 's \<Rightarrow> bool \<times> 's" where
  "claim_message kset topic message_key ttl =
     kset (idempotency_key topic message_key) ''1'' True (Some (ttl * 1000))"

definition build_dlq_record :: "env \<Rightarrow> string \<Rightarrow> string \<Rightarrow> string \<Rightarrow> payload result" where
  "build_dlq_record E original_topic raw_payload error =
     (case validate (e_coerce E) FirmwareDlq
             (JObj [(''original_topic'', JStr original_topic), (''payload'', JStr raw_payload),
                    (''error'', JStr error), (''failed_at'', JStr (e_now E))]) of
        Some (JObj d) \<Rightarrow> Inr d
      | _ \<Rightarrow> Inl ValidationError)"

section \<open>runner.py\<close>

definition encode_key :: "json \<Rightarrow> string option result" where
  "encode_key key =
     (if truthy key
      then (case key of JStr s \<Rightarrow> Inr (Some s) | _ \<Rightarrow> Inl (AttributeError ''encode''))
      else Inr None)"

definition emit :: "env \<Rightarrow> string \<Rightarrow> payload \<Rightarrow> ('z router_state_scheme, unit) eff" where
  "emit E topic payload =
     ebind (lift_result (validate_payload (e_coerce E) topic (JObj payload))) (\<lambda>validated.
     ebind (lift_result (encode_key (partition_key topic validated))) (\<lambda>key.
     produce \<lparr>km_topic = topic, km_key = key, km_value = Some (e_dumps E (JObj validated))\<rparr>))"

definition message_key :: "env \<Rightarrow> kmsg \<Rightarrow> string \<Rightarrow> string" where
  "message_key E msg raw_value =
     (case km_key msg of
        Some k \<Rightarrow> if k \<noteq> [] then k else e_sha256 E raw_value
      | None \<Rightarrow> e_sha256 E raw_value)"

definition process_message ::
  "env \<Rightarrow> (string, 'f) dict \<Rightarrow> ('f \<Rightarrow> 'z router_state_scheme handler) \<Rightarrow> kmsg \<Rightarrow>
   ('z router_state_scheme, unit) eff" where
  "process_message E reg body msg =
     (let topic = km_topic msg
      in case km_value msg of
           None \<Rightarrow> raise (TypeError ''the JSON object must be str, bytes or bytearray'')
         | Some raw_value \<Rightarrow>
             ebind (lift_result (e_loads E raw_value)) (\<lambda>payload.
             ebind (lift_result (validate_payload (e_coerce E) topic payload)) (\<lambda>payload.
             (case get_handler reg topic of
                None \<Rightarrow> raise (RuntimeError ''no handler registered for topic'')
              | Some handler \<Rightarrow>
                  (let key = message_key E msg raw_value
                   in ebind (on_redis (claim_message r_set topic key DEFAULT_TTL_SECONDS)) (\<lambda>claimed.
                      if \<not> claimed then ret ()
                      else body handler \<lparr>cx_source = topic, cx_key = key\<rparr> payload))))))"

text \<open>What one \<open>consumer.poll\<close> returns; \<open>PollError\<close> tells whether it is end of partition.\<close>

datatype poll = PollNone | PollError bool | PollMsg kmsg

definition produce_dlq :: "env \<Rightarrow> kmsg \<Rightarrow> exn \<Rightarrow> ('z router_state_scheme, unit) eff" where
  "produce_dlq E msg exc =
     (let raw_str = (case km_value msg of None \<Rightarrow> '''' | Some raw \<Rightarrow> raw)
      in ebind (lift_result (build_dlq_record E (km_topic msg) raw_str (e_exn E exc))) (\<lambda>dlq_record.
         ebind (lift_result (encode_key (partition_key FIRMWARE_DLQ dlq_record))) (\<lambda>dlq_key.
         produce \<lparr>km_topic = FIRMWARE_DLQ, km_key = dlq_key,
                  km_value = Some (e_dumps E (JObj dlq_record))\<rparr>)))"

text \<open>
  One iteration: the message is processed, a failure is dead-lettered, a failure of that is
  only logged, and the offset is committed in \<open>finally\<close>.
\<close>

definition poll_step ::
  "env \<Rightarrow> (string, 'f) dict \<Rightarrow> ('f \<Rightarrow> 'z router_state_scheme handler) \<Rightarrow> poll \<Rightarrow>
   kmsg list \<times> 'z router_state_scheme \<Rightarrow> kmsg list \<times> 'z router_state_scheme" where
  "poll_step E reg body p st =
     (case p of
        PollNone \<Rightarrow> st
      | PollError eof \<Rightarrow> st
      | PollMsg msg \<Rightarrow>
          (let (_, w) = catch (process_message E reg body msg)
                          (\<lambda>exc. catch (produce_dlq E msg exc) (\<lambda>_. ret ())) (snd st)
           in (fst st @ [msg], w)))"

definition run_loop ::
  "env \<Rightarrow> (string, 'f) dict \<Rightarrow> ('f \<Rightarrow> 'z router_state_scheme handler) \<Rightarrow> poll list \<Rightarrow>
   kmsg list \<times> 'z router_state_scheme \<Rightarrow> kmsg list \<times> 'z router_state_scheme" where
  "run_loop E reg body polls st = foldl (\<lambda>st p. poll_step E reg body p st) st polls"

text \<open>\<open>run\<close>: exit code 1 without consuming when a subscribed topic has no handler.\<close>

definition run ::
  "env \<Rightarrow> (string, 'f) dict \<Rightarrow> ('f \<Rightarrow> 'z router_state_scheme handler) \<Rightarrow> string \<Rightarrow> poll list \<Rightarrow>
   kmsg list \<times> 'z router_state_scheme \<Rightarrow> nat result \<times> kmsg list \<times> 'z router_state_scheme" where
  "run E reg body services_env polls st =
     (case resolve_subscriptions services_env of
        Inl e \<Rightarrow> (Inl e, st)
      | Inr subscriptions \<Rightarrow>
          if filter (\<lambda>t. t \<notin> registered_topics reg) subscriptions \<noteq> [] then (Inr 1, st)
          else (Inr 0, run_loop E reg body polls st))"

section \<open>Claims\<close>

text \<open>The claim on any store that keeps the contract of \<open>SET NX EX\<close>.\<close>

context key_value
begin

lemma claim_fst:
  "fst (claim_message kset t k ttl s) \<longleftrightarrow> live (idempotency_key t k) s = None"
  by (simp add: claim_message_def kset_fst)

lemma claim_live:
  "0 < ttl \<Longrightarrow> live j (snd (claim_message kset t k ttl s)) =
     (if j = idempotency_key t k \<and> live j s = None then Some ''1'' else live j s)"
  by (auto simp: claim_message_def kset_live)

lemma claim_again: "0 < ttl \<Longrightarrow> \<not> fst (claim_message kset t k ttl' (snd (claim_message kset t k ttl s)))"
  by (auto simp: claim_fst claim_live)

end

lemma DEFAULT_TTL_pos: "0 < DEFAULT_TTL_SECONDS"
  by (simp add: DEFAULT_TTL_SECONDS_def)

lemmas claim_redis = fake.claim_fst fake.claim_live [OF DEFAULT_TTL_pos]

lemma process_message_eq:
  "process_message E reg body msg s =
     (case km_value msg of
        None \<Rightarrow> (Inl (TypeError ''the JSON object must be str, bytes or bytearray''), s)
      | Some raw \<Rightarrow>
     (case e_loads E raw of Inl e \<Rightarrow> (Inl e, s) | Inr j \<Rightarrow>
     (case validate_payload (e_coerce E) (km_topic msg) j of Inl e \<Rightarrow> (Inl e, s) | Inr p \<Rightarrow>
     (case get_handler reg (km_topic msg) of
        None \<Rightarrow> (Inl (RuntimeError ''no handler registered for topic''), s)
      | Some h \<Rightarrow>
          (let k = message_key E msg raw;
               claim = claim_message r_set (km_topic msg) k DEFAULT_TTL_SECONDS (rs_redis s);
               s' = s\<lparr>rs_redis := snd claim\<rparr>
           in if fst claim then body h \<lparr>cx_source = km_topic msg, cx_key = k\<rparr> p s'
              else (Inr (), s'))))))"
  by (simp add: process_message_def Let_def eff_simps on_redis_def split: option.splits sum.splits prod.splits)

text \<open>The states that agree on everything a Redis reader can see and on all else.\<close>

definition same_view :: "'z router_state_scheme \<Rightarrow> 'z router_state_scheme \<Rightarrow> bool" where
  "same_view s s' \<longleftrightarrow>
     (\<exists>r. s' = s\<lparr>rs_redis := r\<rparr> \<and> (\<forall>j. r_live j r = r_live j (rs_redis s)))"

lemma same_view_refl [simp]: "same_view s s"
  by (auto simp: same_view_def intro: exI [of _ "rs_redis s"])

lemma same_view_of_claimed:
  assumes "km_value m = Some raw"
    and "r_live (idempotency_key (km_topic m) (message_key E m raw)) (rs_redis s) \<noteq> None"
  shows "same_view s (snd (process_message E reg body m s))"
proof -
  let ?c = "claim_message r_set (km_topic m) (message_key E m raw) DEFAULT_TTL_SECONDS (rs_redis s)"
  have c: "\<not> fst ?c" "\<forall>j. r_live j (snd ?c) = r_live j (rs_redis s)"
    using assms(2) by (auto simp: claim_redis)
  then have "same_view s (s\<lparr>rs_redis := snd ?c\<rparr>)" by (auto simp: same_view_def)
  with c(1) show ?thesis
    by (simp add: process_message_eq assms(1) Let_def split: sum.splits option.splits)
qed

lemma process_message_claims:
  assumes m: "km_value m = Some raw" and ok: "fst (process_message E reg body m s) = Inr ()"
    and keep: "\<And>h c p s. r_live (idempotency_key (km_topic m) (message_key E m raw)) (rs_redis s) \<noteq> None \<Longrightarrow>
      r_live (idempotency_key (km_topic m) (message_key E m raw)) (rs_redis (snd (body h c p s))) \<noteq> None"
  shows "r_live (idempotency_key (km_topic m) (message_key E m raw))
           (rs_redis (snd (process_message E reg body m s))) \<noteq> None"
proof -
  let ?k = "message_key E m raw"
  let ?c = "claim_message r_set (km_topic m) ?k DEFAULT_TTL_SECONDS (rs_redis s)"
  have live: "r_live (idempotency_key (km_topic m) ?k) (snd ?c) \<noteq> None"
    by (simp add: claim_redis del: not_None_eq)
  from ok show ?thesis
    using live keep [of "s\<lparr>rs_redis := snd ?c\<rparr>"]
    by (auto simp: process_message_eq m Let_def split: sum.splits option.splits if_splits simp del: not_None_eq)
qed


text \<open>A concrete outside world for the examples: one known message text.\<close>

definition sample_payload :: payload where
  "sample_payload = [(''job_id'', JStr ''j''), (''s3_key'', JStr ''k''),
     (''uploaded_by'', JStr ''u''), (''uploaded_at'', JStr ''t'')]"

definition sample_env :: env where
  "sample_env =
     \<lparr>e_coerce = strict_coercers,
      e_loads = (\<lambda>v. if v = ''v'' then Inr (JObj sample_payload) else Inl (ValueError v)),
      e_dumps = (\<lambda>_. ''v''),
      e_sha256 = (\<lambda>_. replicate 64 CHR ''0''),
      e_now = ''now'',
      e_exn = (\<lambda>_. ''error'')\<rparr>"

definition sample_msg :: kmsg where
  "sample_msg = \<lparr>km_topic = FIRMWARE_UPLOADED, km_key = Some ''j'', km_value = Some ''v''\<rparr>"

definition sample_state :: router_state where
  "sample_state = \<lparr>rs_redis = redis_empty, rs_log = [], rs_faults = []\<rparr>"

lemma sample_env_ok [simp]: "env_ok sample_env"
  by (simp add: env_ok_def sample_env_def) (simp add: strict_coercers_def)

lemma sample_validates:
  "validate_payload strict_coercers FIRMWARE_UPLOADED (JObj sample_payload) = Inr sample_payload"
  by (simp add: validate_payload_def FirmwareUploaded_def strict_coercers_def sample_payload_def)

lemma sample_process:
  "fst (process_message sample_env [(FIRMWARE_UPLOADED, ())] (\<lambda>_ _ _. ret ()) sample_msg sample_state) = Inr ()"
  by (simp add: process_message_eq sample_msg_def sample_env_def sample_validates get_handler_def
      Let_def ret_def)


section \<open>The consumer loop\<close>

fun polled :: "poll list \<Rightarrow> kmsg list" where
  "polled [] = []"
| "polled (PollMsg m # ps) = m # polled ps"
| "polled (_ # ps) = polled ps"


lemma build_dlq_record_eq:
  "env_ok E \<Longrightarrow> build_dlq_record E t raw err =
     Inr [(''original_topic'', JStr t), (''payload'', JStr raw), (''error'', JStr err),
          (''failed_at'', JStr (e_now E))]"
  by (simp add: build_dlq_record_def FirmwareDlq_def env_ok_def coercers_ok_def)

definition dlq_payload :: "env \<Rightarrow> string \<Rightarrow> string \<Rightarrow> string \<Rightarrow> payload" where
  "dlq_payload E t raw err =
     [(''original_topic'', JStr t), (''payload'', JStr raw), (''error'', JStr err),
      (''failed_at'', JStr (e_now E))]"

lemma topics_neq [simp]: "FIRMWARE_DLQ \<notin> set SUB_BLOB_KEYED_TOPICS"
  by (simp add: SUB_BLOB_KEYED_TOPICS_def topic_defs)

lemma dlq_key_None: "encode_key (partition_key FIRMWARE_DLQ (dlq_payload E t raw err)) = Inr None"
  by (simp add: encode_key_def partition_key_def jget_def dlq_payload_def)

lemma emit_dlq_record:
  "env_ok E \<Longrightarrow> emit E FIRMWARE_DLQ (dlq_payload E t raw err) =
     produce \<lparr>km_topic = FIRMWARE_DLQ, km_key = None,
              km_value = Some (e_dumps E (JObj (dlq_payload E t raw err)))\<rparr>"
proof -
  assume "env_ok E"
  then have "validate_payload (e_coerce E) FIRMWARE_DLQ (JObj (dlq_payload E t raw err)) = Inr (dlq_payload E t raw err)"
    by (simp add: validate_payload_Inr FirmwareDlq_def dlq_payload_def env_ok_def coercers_ok_def)
  then show ?thesis by (simp add: fun_eq_iff emit_def ebind_def lift_result_def dlq_key_None)
qed

text \<open>
  C14. A message whose processing fails leaves exactly one dead letter behind whatever was
  produced before the failure: it holds the topic, the raw text and the error, and its
  Kafka key is always absent, the payload's job notwithstanding.
\<close>

theorem failure_is_dead_lettered:
  assumes "env_ok E" and "process_message E reg body m w = (Inl exc, w')"
    and "rs_faults w' = []"
  shows "\<exists>w''. poll_step E reg body (PollMsg m) (committed, w) = (committed @ [m], w'') \<and>
    rs_redis w'' = rs_redis w' \<and>
    rs_log w'' = rs_log w' @
      [\<lparr>km_topic = FIRMWARE_DLQ, km_key = None,
        km_value = Some (e_dumps E (JObj (dlq_payload E (km_topic m)
          (case km_value m of None \<Rightarrow> '''' | Some raw \<Rightarrow> raw) (e_exn E exc))))\<rparr>]"
  using assms dlq_key_None [of E]
  by (simp add: poll_step_def catch_def produce_dlq_def Let_def ebind_def lift_result_def
      build_dlq_record_eq produce_def dlq_payload_def)

lemma sample_failure:
  "process_message sample_env [] (\<lambda>_ _ _. ret ()) sample_msg sample_state =
   (Inl (RuntimeError ''no handler registered for topic''), sample_state)"
  by (simp add: process_message_eq sample_msg_def sample_env_def sample_validates get_handler_def)

theorem failure_is_dead_lettered_witness:
  "\<exists>w''. poll_step sample_env [] (\<lambda>_ _ _. ret ()) (PollMsg sample_msg) ([], sample_state) = ([] @ [sample_msg], w'') \<and>
    rs_redis w'' = rs_redis sample_state \<and>
    rs_log w'' = rs_log sample_state @
      [\<lparr>km_topic = FIRMWARE_DLQ, km_key = None,
        km_value = Some (e_dumps sample_env (JObj (dlq_payload sample_env (km_topic sample_msg)
          (case km_value sample_msg of None \<Rightarrow> '''' | Some raw \<Rightarrow> raw)
          (e_exn sample_env (RuntimeError ''no handler registered for topic'')))))\<rparr>]"
  by (rule failure_is_dead_lettered [OF sample_env_ok sample_failure]) (simp add: sample_state_def)

section \<open>Start-up\<close>

lemma services_topics_distinct:
  "distinct (map snd SERVICE_TO_TOPIC)" "distinct (dkeys SERVICE_TO_TOPIC)"
  by (simp_all add: SERVICE_TO_TOPIC_def topic_defs)

lemma resolve_all:
  "resolve_subscriptions ''all'' = Inr (map snd SERVICE_TO_TOPIC)"
  by code_simp

text \<open>
  A service list that resolves yields each consumed topic at most once, only topics of
  the stage table, and the topic of every stage named.
\<close>

theorem resolve_subscriptions_sound:
  assumes "resolve_subscriptions env_value = Inr ts"
  shows "distinct ts \<and> set ts \<subseteq> snd ` set SERVICE_TO_TOPIC \<and>
    set ts = {t. \<exists>n \<in> set (service_names (lower (strip env_value))). (n, t) \<in> set SERVICE_TO_TOPIC}"
proof -
  let ?names = "service_names (lower (strip env_value))"
  from assms have known: "n \<in> set (dkeys SERVICE_TO_TOPIC)" if "n \<in> set ?names" for n
    using that by (auto simp: resolve_subscriptions_def Let_def filter_empty_conv split: if_splits)
  from assms have ts: "ts = dedup (map (\<lambda>n. the (dget SERVICE_TO_TOPIC n)) ?names)"
    by (auto simp: resolve_subscriptions_def Let_def split: if_splits)
  have look: "dget SERVICE_TO_TOPIC n = Some t \<longleftrightarrow> (n, t) \<in> set SERVICE_TO_TOPIC" for n t
    by (rule map_of_eq_Some_iff) (rule services_topics_distinct)
  have "set ts = {t. \<exists>n \<in> set ?names. (n, t) \<in> set SERVICE_TO_TOPIC}"
    using known by (force simp: ts look [symmetric])
  moreover have "distinct ts" by (simp add: ts)
  ultimately show ?thesis by force
qed

theorem resolve_subscriptions_sound_witness:
  "distinct (map snd SERVICE_TO_TOPIC) \<and> set (map snd SERVICE_TO_TOPIC) \<subseteq> snd ` set SERVICE_TO_TOPIC \<and>
    set (map snd SERVICE_TO_TOPIC) =
      {t. \<exists>n \<in> set (service_names (lower (strip ''all''))). (n, t) \<in> set SERVICE_TO_TOPIC}"
  by (rule resolve_subscriptions_sound [OF resolve_all])

text \<open>
  A service list of separators only is not empty and names no unknown stage: the router
  starts and subscribes to nothing.
\<close>

lemma resolve_only_commas: "resolve_subscriptions '' , '' = Inr []"
  by code_simp

end
