(* ===== verification/Reports.thy ===== *)
theory Reports
  imports Router
begin

text \<open>
  The two stores of the last pipeline stages: report documents
  (\<open>services/cve_matching/reports.py\<close>, \<open>InMemoryReportStore\<close>) and JSON artifacts
  (\<open>services/cve_matching/artifacts.py\<close>, \<open>InMemoryArtifactStore\<close>), each with the contract
  its clients rely on as a locale, and the job-status update (\<open>jobs_status.py\<close>).
\<close>

section \<open>Report documents\<close>

type_synonym report_docs = "(string, payload) dict"

definition STATUS_PARTIAL :: string where "STATUS_PARTIAL = ''PARTIAL''"
definition STATUS_COMPLETE :: string where "STATUS_COMPLETE = ''COMPLETE''"

definition new_doc :: "string \<Rightarrow> payload" where
  "new_doc job_id =
     [(''job_id'', JStr job_id), (''status'', JStr STATUS_PARTIAL), (''sub_blobs'', JObj [])]"

definition doc_or_new :: "string \<Rightarrow> report_docs \<Rightarrow> payload" where
  "doc_or_new job_id docs = (case dget docs job_id of Some doc \<Rightarrow> doc | None \<Rightarrow> new_doc job_id)"

definition record_sub_blob :: "string \<Rightarrow> string \<Rightarrow> string \<Rightarrow> json list \<Rightarrow> report_docs \<Rightarrow> report_docs" where
  "record_sub_blob now job_id sub_blob_id cve_matches docs =
     (let doc = doc_or_new job_id docs;
          slots = dset sub_blob_id (JList cve_matches) (json_obj (jget doc ''sub_blobs''))
      in dset job_id (dset ''updated_at'' (JStr now) (dset ''sub_blobs'' (JObj slots) doc)) docs)"

definition get_report :: "string \<Rightarrow> report_docs \<Rightarrow> payload option" where
  "get_report job_id docs = dget docs job_id"

definition dict_update :: "payload \<Rightarrow> payload \<Rightarrow> payload" where
  "dict_update d new = foldl (\<lambda>d (k, v). dset k v d) d new"

definition finalize_report :: "string \<Rightarrow> payload \<Rightarrow> report_docs \<Rightarrow> bool \<times> report_docs" where
  "finalize_report job_id report_fields docs =
     (let doc = doc_or_new job_id docs
      in if jget doc ''status'' = JStr STATUS_COMPLETE then (False, docs)
         else (True, dset job_id
                 (dset ''status'' (JStr STATUS_COMPLETE) (dict_update doc report_fields)) docs))"

text \<open>What the clients can observe: the slots of a job and whether it is complete.\<close>

definition doc_slots :: "payload \<Rightarrow> (string, json) dict" where
  "doc_slots doc = json_obj (jget doc ''sub_blobs'')"

definition slots_of :: "string \<Rightarrow> report_docs \<Rightarrow> (string, json) dict" where
  "slots_of job_id docs = (case dget docs job_id of None \<Rightarrow> [] | Some doc \<Rightarrow> doc_slots doc)"

definition is_complete :: "string \<Rightarrow> report_docs \<Rightarrow> bool" where
  "is_complete job_id docs =
     (case dget docs job_id of None \<Rightarrow> False | Some doc \<Rightarrow> jget doc ''status'' = JStr STATUS_COMPLETE)"

locale report_store =
  fixes record_matches :: "string \<Rightarrow> string \<Rightarrow> json list \<Rightarrow> 's \<Rightarrow> 's"
    and finalize :: "string \<Rightarrow> payload \<Rightarrow> 's \<Rightarrow> bool \<times> 's"
    and slots :: "string \<Rightarrow> 's \<Rightarrow> (string, json) dict"
    and complete :: "string \<Rightarrow> 's \<Rightarrow> bool"
  assumes record_slots: "slots i (record_matches j b ms s) =
      (if i = j then dset b (JList ms) (slots j s) else slots i s)"
    and record_complete: "complete i (record_matches j b ms s) = complete i s"
    and finalize_won: "fst (finalize j rep s) = (\<not> complete j s)"
    and finalize_complete: "complete i (snd (finalize j rep s)) = (i = j \<or> complete i s)"
    and finalize_slots: "dget rep ''sub_blobs'' = None \<Longrightarrow> slots i (snd (finalize j rep s)) = slots i s"
begin

text \<open>Recording a sub-blob twice is recording it once, and keeps one entry per sub-blob.\<close>

lemma record_idem:
  "slots i (record_matches j b ms (record_matches j b ms s)) = slots i (record_matches j b ms s)"
  by (simp add: record_slots)

lemma record_distinct:
  "(\<And>i. distinct (dkeys (slots i s))) \<Longrightarrow> distinct (dkeys (slots i (record_matches j b ms s)))"
  by (simp add: record_slots distinct_update)

lemma finalize_once:
  "fst (finalize j rep s) \<Longrightarrow> \<not> fst (finalize j rep' (snd (finalize j rep s)))"
  by (simp add: finalize_won finalize_complete)

text \<open>A history of calls on one store, with the outcome of each \<open>finalize\<close> of job \<open>j\<close>.\<close>

fun wins :: "string \<Rightarrow> (string \<times> (string \<times> json list) + string \<times> payload) list \<Rightarrow> 's \<Rightarrow> nat" where
  "wins j [] s = 0"
| "wins j (Inl (i, b, ms) # ops) s = wins j ops (record_matches i b ms s)"
| "wins j (Inr (i, rep) # ops) s =
     (if i = j \<and> fst (finalize i rep s) then 1 else 0) + wins j ops (snd (finalize i rep s))"

lemma wins_at_most_one: "wins j ops s \<le> (if complete j s then 0 else 1)"
proof (induction j ops s rule: wins.induct)
  case (2 j i b ms ops s)
  then show ?case by (simp add: record_complete)
next
  case (3 j i rep ops s)
  then show ?case by (auto simp: finalize_won finalize_complete split: if_splits)
qed simp

end

lemma dget_dict_update: "dget new k = None \<Longrightarrow> dget (dict_update d new) k = dget d k"
  unfolding dict_update_def by (induction new arbitrary: d) (auto split: if_splits)

interpretation mem_reports: report_store "record_sub_blob now" finalize_report slots_of is_complete
proof unfold_locales
  fix i j b ms s rep
  have new [simp]: "doc_slots (new_doc j) = []" "jget (new_doc j) ''status'' = JStr STATUS_PARTIAL" for j
    by (simp_all add: new_doc_def doc_slots_def jget_def)
  have stat [simp]: "STATUS_PARTIAL \<noteq> STATUS_COMPLETE"
    by (simp add: STATUS_PARTIAL_def STATUS_COMPLETE_def)
  show "slots_of i (record_sub_blob now j b ms s) =
      (if i = j then dset b (JList ms) (slots_of j s) else slots_of i s)"
    by (cases "dget s j")
      (auto simp: slots_of_def record_sub_blob_def doc_or_new_def Let_def new_doc_def doc_slots_def jget_def)
  show "is_complete i (record_sub_blob now j b ms s) = is_complete i s"
    by (cases "dget s j")
      (auto simp: is_complete_def record_sub_blob_def doc_or_new_def Let_def new_doc_def jget_def)
  show "fst (finalize_report j rep s) = (\<not> is_complete j s)"
    by (simp add: finalize_report_def is_complete_def doc_or_new_def Let_def split: option.splits)
  show "is_complete i (snd (finalize_report j rep s)) = (i = j \<or> is_complete i s)"
    by (auto simp: finalize_report_def is_complete_def doc_or_new_def Let_def jget_def new_doc_def
        split: option.splits)
  show "slots_of i (snd (finalize_report j rep s)) = slots_of i s" if "dget rep ''sub_blobs'' = None"
    using that
    by (simp add: finalize_report_def slots_of_def doc_slots_def doc_or_new_def Let_def jget_def
        dget_dict_update new_doc_def
        split: option.splits)
qed

section \<open>JSON artifacts\<close>

type_synonym artifacts = "(string, payload) dict"

definition sbom_fragment_key :: "string \<Rightarrow> string \<Rightarrow> string" where
  "sbom_fragment_key job_id sub_blob_id = ''sbom-fragments/'' @ job_id @ ''/'' @ sub_blob_id @ ''.json''"

definition sbom_fragment_prefix :: "string \<Rightarrow> string" where
  "sbom_fragment_prefix job_id = ''sbom-fragments/'' @ job_id @ ''/''"

definition sbom_key :: "string \<Rightarrow> string" where
  "sbom_key job_id = ''reports/'' @ job_id @ ''/sbom.json''"

definition report_key :: "string \<Rightarrow> string" where
  "report_key job_id = ''reports/'' @ job_id @ ''/report.json''"

definition put_json :: "string \<Rightarrow> payload \<Rightarrow> artifacts \<Rightarrow> artifacts" where
  "put_json key obj objects = dset key obj objects"

definition get_json :: "string \<Rightarrow> artifacts \<Rightarrow> payload option" where
  "get_json key objects = dget objects key"

definition list_json :: "string \<Rightarrow> artifacts \<Rightarrow> (string \<times> payload) list" where
  "list_json pre objects = filter (\<lambda>(k, _). starts_with pre k) (sort_key fst objects)"

locale artifact_store =
  fixes put :: "string \<Rightarrow> payload \<Rightarrow> 's \<Rightarrow> 's"
    and get_obj :: "string \<Rightarrow> 's \<Rightarrow> payload option"
    and listing :: "string \<Rightarrow> 's \<Rightarrow> (string \<times> payload) list"
  assumes get_put: "get_obj i (put k v s) = (if i = k then Some v else get_obj i s)"
    and listing_get: "dget (listing pre s) k = (if starts_with pre k then get_obj k s else None)"
    and listing_sorted: "sorted (dkeys (listing pre s))"
begin

lemma put_idem: "get_obj i (put k v (put k v s)) = get_obj i (put k v s)"
  by (simp add: get_put)

lemma put_commute: "k \<noteq> l \<Longrightarrow> get_obj i (put k v (put l w s)) = get_obj i (put l w (put k v s))"
  by (simp add: get_put)

text \<open>A fragment shows up in the listing of its own job, and in no other job's of a like name.\<close>

lemma listing_put:
  "dget (listing pre (put k v s)) i =
     (if i = k \<and> starts_with pre k then Some v else dget (listing pre s) i)"
  by (simp add: listing_get get_put)

end

lemma map_of_sort_key_fst:
  "dget (sort_key fst d) k = dget d k" for d :: "(string, 'v) dict"
proof -
  have "filter (\<lambda>x. fst x = k) (sort_key fst d) = filter (\<lambda>x. fst x = k) d"
    by (rule sort_key_stable)
  moreover have "dget d k = dget (filter (\<lambda>x. fst x = k) d) k" for d :: "(string, 'v) dict"
    by (induction d) auto
  ultimately show ?thesis by metis
qed

interpretation mem_artifacts: artifact_store put_json get_json list_json
proof unfold_locales
  fix i k pre :: string and v :: payload and s :: artifacts
  show "get_json i (put_json k v s) = (if i = k then Some v else get_json i s)"
    by (simp add: get_json_def put_json_def)
  have "dget (filter (\<lambda>(k, _). starts_with pre k) d) k = (if starts_with pre k then dget d k else None)"
    for d :: artifacts
    by (induction d) auto
  then show "dget (list_json pre s) k = (if starts_with pre k then get_json k s else None)"
    by (simp add: list_json_def get_json_def map_of_sort_key_fst)
  have "sorted (map fst (sort_key fst s))" by simp
  then show "sorted (dkeys (list_json pre s))"
    unfolding list_json_def by (rule sorted_filter)
qed

section \<open>State of the last stages\<close>

text \<open>
  \<open>as_jobs\<close> is the status column of the Postgres table \<open>jobs\<close>, \<open>as_pg_up\<close> whether the
  database can be reached.
\<close>

record report_state = router_state +
  as_docs :: report_docs
  as_artifacts :: artifacts
  as_jobs :: "(string, string) dict"
  as_pg_up :: bool

definition mark_job_complete :: "string \<Rightarrow> 'z report_state_scheme \<Rightarrow> bool \<times> 'z report_state_scheme" where
  "mark_job_complete job_id s =
     (if \<not> as_pg_up s then (False, s)
      else if dget (as_jobs s) job_id = None then (False, s)
      else (True, s\<lparr>as_jobs := dset job_id ''COMPLETE'' (as_jobs s)\<rparr>))"

end
