(* ===== verification/Narrator.thy ===== *)
theory Narrator
  imports Contracts
begin

text \<open>
  The optional language-model layer (\<open>services/cve_matching/llm.py\<close>): the interface
  \<open>LlmNarrator\<close> as a record of three calls, and the implementation over a
  chat-completion endpoint. The endpoint, the API key and Python's \<open>repr\<close> of nested values
  are parameters; every failure of the endpoint is \<open>None\<close>.
\<close>

record narrator =
  na_rationale :: "string \<Rightarrow> string \<Rightarrow> string \<Rightarrow> string \<Rightarrow> pyfloat \<Rightarrow> string option result"
  na_summary :: "string \<Rightarrow> payload list \<Rightarrow> string option result"
  na_rag :: "string \<Rightarrow> string list \<Rightarrow> string option result"

section \<open>Text formatting\<close>

text \<open>\<open>f"{x:.2f}"\<close> of a non-negative float: the exact value rounded half to even.\<close>

definition fmt_2f :: "pyfloat \<Rightarrow> string" where
  "fmt_2f x =
     (let n = nat (rne (x * 100));
          frac = n mod 100
      in nat_str (n div 100) @ ''.'' @ (if frac < 10 then ''0'' else []) @ nat_str frac)"

fun py_text :: "(json \<Rightarrow> string) \<Rightarrow> json \<Rightarrow> string" where
  "py_text rep JNull = ''None''"
| "py_text rep (JBool b) = (if b then ''True'' else ''False'')"
| "py_text rep (JInt i) = int_str i"
| "py_text rep (JStr s) = s"
| "py_text rep j = rep j"

section \<open>OpenAICompatibleNarrator\<close>

record endpoint =
  ep_api_key :: string
  ep_complete :: "string \<Rightarrow> string \<Rightarrow> int \<Rightarrow> string option result"
  ep_repr :: "json \<Rightarrow> string"

definition is_configured :: "endpoint \<Rightarrow> bool" where
  "is_configured ep = (ep_api_key ep \<noteq> [])"

definition chat :: "endpoint \<Rightarrow> string \<Rightarrow> string \<Rightarrow> int \<Rightarrow> string option" where
  "chat ep system user max_tokens =
     (if \<not> is_configured ep then None
      else case ep_complete ep system user max_tokens of
             Inl _ \<Rightarrow> None
           | Inr content \<Rightarrow>
               (let text = strip (case content of None \<Rightarrow> [] | Some t \<Rightarrow> t)
                in if text = [] then None else Some text))"

definition rationale_system :: string where
  "rationale_system =
     ''You are a firmware security analyst. Explain, in 1-2 sentences, why an '' @
     ''extracted component MIGHT be affected by a CVE. You are given a match that '' @
     ''is already tiered as uncertain; do NOT assert certainty and do NOT invent '' @
     ''details beyond the description. Frame it as guidance for analyst review.''"

definition triage_rationale ::
  "endpoint \<Rightarrow> string \<Rightarrow> string \<Rightarrow> string \<Rightarrow> string \<Rightarrow> pyfloat \<Rightarrow> string option" where
  "triage_rationale ep component cve_id description tier score =
     chat ep rationale_system
       (''Extracted component: '' @ component @ [CHR 0x0A] @
        ''Candidate '' @ cve_id @ '' (tier='' @ tier @ '', similarity='' @ fmt_2f score @ ''):'' @
        [CHR 0x0A] @ description) 220"

definition summary_system :: string where
  "summary_system =
     ''You are a firmware security analyst writing a brief executive summary of a '' @
     ''vulnerability report. Summarize the overall risk in 2-4 sentences, grounded '' @
     ''ONLY in the provided findings. Do not invent CVEs or severities.''"

definition summary_line :: "endpoint \<Rightarrow> payload \<Rightarrow> string" where
  "summary_line ep f =
     ''- '' @ py_text (ep_repr ep) (jget f ''cve_id'') @ '' ['' @
     py_text (ep_repr ep) (jget f ''confidence_tier'') @ ''] on '' @
     py_text (ep_repr ep) (case dget f ''component'' of None \<Rightarrow> JStr ''?'' | Some c \<Rightarrow> c)"

definition executive_summary :: "endpoint \<Rightarrow> string \<Rightarrow> payload list \<Rightarrow> string option" where
  "executive_summary ep job_id findings =
     (if findings = [] then None
      else chat ep summary_system
        (''Job '' @ job_id @ '' findings:'' @ [CHR 0x0A] @
         join [CHR 0x0A] (map (summary_line ep) (take 50 findings))) 300)"

definition rag_system :: string where
  "rag_system =
     ''You are a firmware security assistant. Answer the question using ONLY the '' @
     ''provided context (CVE descriptions and this job's findings). If the answer '' @
     ''is not in the context, say you don't have enough information. Do not invent '' @
     ''CVEs, versions, or severities.''"

definition rag_answer :: "endpoint \<Rightarrow> string \<Rightarrow> string list \<Rightarrow> string option" where
  "rag_answer ep question context_chunks =
     (if context_chunks = [] then None
      else chat ep rag_system
        (''Question: '' @ question @ [CHR 0x0A, CHR 0x0A] @ ''Context:'' @ [CHR 0x0A] @
         join [CHR 0x0A] (map (\<lambda>c. ''- '' @ c) (take 20 context_chunks))) 400)"

definition openai_narrator :: "endpoint \<Rightarrow> narrator" where
  "openai_narrator ep =
     \<lparr>na_rationale = (\<lambda>component cve_id description tier score.
        Inr (triage_rationale ep component cve_id description tier score)),
      na_summary = (\<lambda>job_id findings. Inr (executive_summary ep job_id findings)),
      na_rag = (\<lambda>question chunks. Inr (rag_answer ep question chunks))\<rparr>"

text \<open>\<open>get_narrator\<close>: without an API key the whole layer is off.\<close>

definition get_narrator :: "endpoint \<Rightarrow> narrator option" where
  "get_narrator ep = (if is_configured ep then Some (openai_narrator ep) else None)"

lemma chat_not_empty: "chat ep system user n = Some t \<Longrightarrow> t \<noteq> [] \<and> stripped t"
  by (auto simp: chat_def Let_def split: if_splits sum.splits)

lemma chat_unconfigured: "\<not> is_configured ep \<Longrightarrow> chat ep system user n = None"
  by (simp add: chat_def)

end
