(* ===== verification/Aggregator.thy ===== *)
theory Aggregator
  imports Reports Narrator
begin

text \<open>
  The report aggregator (\<open>services/cve_matching/aggregator.py\<close>) and its handler: the
  completion gate, the assembly of report and SBOM, the atomic finalize and the emission
  of \<open>firmware.completed\<close>.
\<close>

definition TRUTHY :: "string list" where
  "TRUTHY = [''1'', ''true'', ''True'', ''yes'']"

definition completion_ready :: "string \<Rightarrow> ('z router_state_scheme, bool) eff" where
  "completion_ready job_id =
     ebind (on_redis (r_get (total_children job_id))) (\<lambda>total_raw.
     (case total_raw of
        None \<Rightarrow> ret False
      | Some total_raw \<Rightarrow>
          ebind (on_redis (r_get (extraction_complete job_id))) (\<lambda>marker.
          if (case marker of None \<Rightarrow> [] | Some v \<Rightarrow> v) \<notin> set TRUTHY then ret False
          else
            (case py_int total_raw of
               None \<Rightarrow> ret False
             | Some n \<Rightarrow>
                 ebind (on_redis (r_get (matched_children job_id))) (\<lambda>matched_raw.
                 (case (case matched_raw of None \<Rightarrow> Some 0
                        | Some v \<Rightarrow> if v = [] then Some 0 else py_int v) of
                    None \<Rightarrow> ret False
                  | Some m \<Rightarrow> ret (0 < n \<and> n \<le> m)))))))"

definition findings_from_partial :: "payload \<Rightarrow> payload list" where
  "findings_from_partial partial =
     concat (map (\<lambda>(sub_blob_id, matches).
       map (\<lambda>m. dset ''sub_blob_id'' (JStr sub_blob_id) (json_obj m)) (json_list matches))
       (json_obj (jget partial ''sub_blobs'')))"

definition comp_ident :: "json \<Rightarrow> json list" where
  "comp_ident c =
     map (jget (json_obj c)) [''vendor'', ''product'', ''version'', ''source_sub_blob_id'']"

fun dedup_components :: "json list \<Rightarrow> json list list \<Rightarrow> json list" where
  "dedup_components [] seen = []"
| "dedup_components (c # comps) seen =
     (if comp_ident c \<in> set seen then dedup_components comps seen
      else c # dedup_components comps (comp_ident c # seen))"

definition merge_sbom_components :: "(string \<times> payload) list \<Rightarrow> json list" where
  "merge_sbom_components fragments =
     dedup_components (concat (map (\<lambda>(_, doc). json_list (jget doc ''components'')) fragments)) []"

definition tier_text :: "payload \<Rightarrow> string" where
  "tier_text f = (case jget f ''confidence_tier'' of JStr s \<Rightarrow> s | _ \<Rightarrow> ''null'')"

definition summary_stats :: "payload list \<Rightarrow> payload" where
  "summary_stats findings =
     [(''total_findings'', JInt (int (length findings))),
      (''by_tier'', JObj (map (\<lambda>(t, n). (t, JInt n)) (tally (map tier_text findings))))]"

definition safe_summary :: "narrator option \<Rightarrow> string \<Rightarrow> payload list \<Rightarrow> json" where
  "safe_summary narr job_id findings =
     (case narr of
        None \<Rightarrow> JNull
      | Some n \<Rightarrow>
          (case na_summary n job_id findings of
             Inr (Some text) \<Rightarrow> JStr text
           | _ \<Rightarrow> JNull))"

definition build_report ::
  "env \<Rightarrow> narrator option \<Rightarrow> string \<Rightarrow> payload list \<Rightarrow> json list \<Rightarrow> payload" where
  "build_report E narr job_id findings components =
     [(''job_id'', JStr job_id),
      (''status'', JStr ''COMPLETE''),
      (''generated_at'', JStr (e_now E)),
      (''executive_summary'', safe_summary narr job_id findings),
      (''summary_stats'', JObj (summary_stats findings)),
      (''components'', JList components),
      (''findings'', JList (map JObj findings)),
      (''report_s3_key'', JStr (report_key job_id)),
      (''sbom_s3_key'', JStr (sbom_key job_id))]"

definition finalize_job ::
  "env \<Rightarrow> narrator option \<Rightarrow> string \<Rightarrow> ('z report_state_scheme, payload option) eff" where
  "finalize_job E narr job_id s =
     (let partial = (case get_report job_id (as_docs s) of
                       None \<Rightarrow> [(''job_id'', JStr job_id), (''sub_blobs'', JObj [])] | Some d \<Rightarrow> d);
          findings = findings_from_partial partial;
          components = merge_sbom_components
            (list_json (sbom_fragment_prefix job_id) (as_artifacts s))
      in case validate (e_coerce E) Sbom
                (JObj [(''job_id'', JStr job_id), (''generated_at'', JStr (e_now E)),
                       (''components'', JList components)]) of
           Some (JObj sbom_doc) \<Rightarrow>
             (let report_doc = build_report E narr job_id findings components;
                  (won, docs) = finalize_report job_id report_doc (as_docs s);
                  s = s\<lparr>as_docs := docs\<rparr>
              in if \<not> won then (Inr None, s)
                 else
                   (let s = s\<lparr>as_artifacts := put_json (sbom_key job_id) sbom_doc (as_artifacts s)\<rparr>;
                        s = s\<lparr>as_artifacts := put_json (report_key job_id) report_doc (as_artifacts s)\<rparr>;
                        s = snd (mark_job_complete job_id s)
                    in (case validate_payload (e_coerce E) FIRMWARE_COMPLETED
                               (JObj [(''job_id'', JStr job_id), (''status'', JStr ''COMPLETE''),
                                      (''report_s3_key'', JStr (report_key job_id)),
                                      (''sbom_s3_key'', JStr (sbom_key job_id))]) of
                          Inl e \<Rightarrow> (Inl e, s)
                        | Inr completed \<Rightarrow> (Inr (Some completed), s))))
         | _ \<Rightarrow> (Inl ValidationError, s))"

text \<open>Reading a string field of a payload that the router has validated.\<close>

definition str_field :: "payload \<Rightarrow> string \<Rightarrow> string result" where
  "str_field payload k =
     rbind (jindex payload k) (\<lambda>v. case v of JStr s \<Rightarrow> Inr s | _ \<Rightarrow> Inl (TypeError k))"

definition aggregate ::
  "env \<Rightarrow> narrator option \<Rightarrow> payload \<Rightarrow> ('z report_state_scheme, payload option) eff" where
  "aggregate E narr matched_payload =
     ebind (lift_result (str_field matched_payload ''job_id'')) (\<lambda>job_id.
     ebind (lift_result (str_field matched_payload ''sub_blob_id'')) (\<lambda>sub_blob_id.
     (let cve_matches = json_list (jget matched_payload ''cve_matches'')
      in ebind (modify (\<lambda>s. s\<lparr>as_docs :=
             record_sub_blob (e_now E) job_id sub_blob_id cve_matches (as_docs s)\<rparr>)) (\<lambda>_.
         ebind (completion_ready job_id) (\<lambda>ready.
         if \<not> ready then ret None
         else
           ebind (finalize_job E narr job_id) (\<lambda>completed.
           (case completed of
              None \<Rightarrow> ret None
            | Some completed \<Rightarrow>
                ebind (emit E FIRMWARE_COMPLETED completed) (\<lambda>_. ret (Some completed)))))))))"

definition handle_aggregate :: "env \<Rightarrow> narrator option \<Rightarrow> 'z report_state_scheme handler" where
  "handle_aggregate E narr c payload = ebind (aggregate E narr payload) (\<lambda>_. ret ())"

section \<open>The gate\<close>

text \<open>What the gate computes, read off the values visible in Redis.\<close>

definition gate_open :: "string \<Rightarrow> redis \<Rightarrow> bool" where
  "gate_open job_id r =
     (case r_live (total_children job_id) r of
        None \<Rightarrow> False
      | Some t \<Rightarrow>
          (case r_live (extraction_complete job_id) r of None \<Rightarrow> False | Some v \<Rightarrow> v \<in> set TRUTHY) \<and>
          (case py_int t of
             None \<Rightarrow> False
           | Some n \<Rightarrow>
               (case r_live (matched_children job_id) r of
                  None \<Rightarrow> False
                | Some v \<Rightarrow> (case (if v = [] then Some 0 else py_int v) of
                               None \<Rightarrow> False | Some m \<Rightarrow> 0 < n \<and> n \<le> m))))"

lemma completion_ready_eq:
  "\<exists>r. completion_ready job_id s = (Inr (gate_open job_id (rs_redis s)), s\<lparr>rs_redis := r\<rparr>) \<and>
       (\<forall>j. r_live j r = r_live j (rs_redis s))"
proof -
  have empty: "[] \<notin> set TRUTHY" by (simp add: TRUTHY_def)
  have same: "\<exists>r. s\<lparr>rs_redis := x\<rparr> = s\<lparr>rs_redis := r\<rparr> \<and> (\<forall>j. r_live j r = r_live j (rs_redis s))"
    if "\<forall>j. r_live j x = r_live j (rs_redis s)" for x
    using that by blast
  show ?thesis
    using empty
    by (auto simp: completion_ready_def gate_open_def ebind_def on_redis_def ret_def r_get_simp
        split: option.splits intro!: same)
qed

lemma completion_ready_view: "same_view s (snd (completion_ready job_id s))"
  using completion_ready_eq [of job_id s] by (auto simp: same_view_def)

section \<open>Merging fragments\<close>

lemma dedup_components_spec:
  "distinct (map comp_ident (dedup_components cs seen)) \<and>
   set (map comp_ident (dedup_components cs seen)) = set (map comp_ident cs) - set seen \<and>
   subseq (dedup_components cs seen) cs"
  by (induction cs seen rule: dedup_components.induct) auto

text \<open>
  The merged component list holds each (vendor, product, version, sub-blob) identity of
  the fragments exactly once, nothing else, in the order of the fragments.
\<close>

theorem merge_sbom_components_spec:
  "distinct (map comp_ident (merge_sbom_components fragments)) \<and>
   set (map comp_ident (merge_sbom_components fragments)) =
     comp_ident ` (\<Union>(k, doc) \<in> set fragments. set (json_list (jget doc ''components''))) \<and>
   subseq (merge_sbom_components fragments)
     (concat (map (\<lambda>(_, doc). json_list (jget doc ''components'')) fragments))"
  using dedup_components_spec [of _ "[]"] by (force simp: merge_sbom_components_def)

section \<open>The completion event\<close>

definition completed_payload :: "string \<Rightarrow> payload" where
  "completed_payload job_id =
     [(''job_id'', JStr job_id), (''status'', JStr ''COMPLETE''),
      (''report_s3_key'', JStr (report_key job_id)), (''sbom_s3_key'', JStr (sbom_key job_id))]"

lemma completed_validates:
  "env_ok E \<Longrightarrow> validate_payload (e_coerce E) FIRMWARE_COMPLETED (JObj (completed_payload job_id)) =
     Inr (completed_payload job_id)"
  by (simp add: validate_payload_Inr FirmwareCompleted_def completed_payload_def env_ok_def coercers_ok_def)

lemma completed_topic [simp]: "FIRMWARE_COMPLETED \<notin> set SUB_BLOB_KEYED_TOPICS"
  by (simp add: SUB_BLOB_KEYED_TOPICS_def topic_defs)

definition completed_msg :: "env \<Rightarrow> string \<Rightarrow> kmsg" where
  "completed_msg E job_id =
     \<lparr>km_topic = FIRMWARE_COMPLETED, km_key = (if job_id = [] then None else Some job_id),
      km_value = Some (e_dumps E (JObj (completed_payload job_id)))\<rparr>"

lemma emit_completed:
  "env_ok E \<Longrightarrow> emit E FIRMWARE_COMPLETED (completed_payload job_id) = produce (completed_msg E job_id)"
proof -
  assume "env_ok E"
  moreover have "encode_key (partition_key FIRMWARE_COMPLETED (completed_payload job_id)) =
      Inr (if job_id = [] then None else Some job_id)"
    by (simp add: encode_key_def partition_key_def jget_def completed_payload_def)
  ultimately show ?thesis
    by (simp add: fun_eq_iff emit_def ebind_def lift_result_def completed_validates completed_msg_def)
qed

lemma mark_job_complete_jobs:
  "snd (mark_job_complete j (s\<lparr>as_docs := d, as_artifacts := a\<rparr>)) =
     s\<lparr>as_docs := d, as_artifacts := a, as_jobs := as_jobs (snd (mark_job_complete j s))\<rparr>"
  by (cases s) (auto simp: mark_job_complete_def)

definition current_doc :: "string \<Rightarrow> report_docs \<Rightarrow> payload" where
  "current_doc j docs = (case get_report j docs of
     None \<Rightarrow> [(''job_id'', JStr j), (''sub_blobs'', JObj [])] | Some d \<Rightarrow> d)"

definition job_components :: "string \<Rightarrow> artifacts \<Rightarrow> json list" where
  "job_components j arts = merge_sbom_components (list_json (sbom_fragment_prefix j) arts)"

definition final_report :: "env \<Rightarrow> narrator option \<Rightarrow> string \<Rightarrow> 'z report_state_scheme \<Rightarrow> payload" where
  "final_report E narr j s =
     build_report E narr j (findings_from_partial (current_doc j (as_docs s)))
       (job_components j (as_artifacts s))"

definition final_sbom :: "env \<Rightarrow> string \<Rightarrow> artifacts \<Rightarrow> json option" where
  "final_sbom E j arts = validate (e_coerce E) Sbom
     (JObj [(''job_id'', JStr j), (''generated_at'', JStr (e_now E)),
            (''components'', JList (job_components j arts))])"

lemma finalize_job_wins:
  assumes "env_ok E" "\<not> is_complete j (as_docs s)" "final_sbom E j (as_artifacts s) = Some (JObj doc)"
  shows "finalize_job E narr j s =
     (Inr (Some (completed_payload j)),
      s\<lparr>as_docs := snd (finalize_report j (final_report E narr j s) (as_docs s)),
        as_artifacts := put_json (report_key j) (final_report E narr j s)
                          (put_json (sbom_key j) doc (as_artifacts s)),
        as_jobs := as_jobs (snd (mark_job_complete j s))\<rparr>)"
proof -
  let ?rep = "final_report E narr j s"
  have "fst (finalize_report j ?rep (as_docs s))" using assms(2) by (simp add: mem_reports.finalize_won)
  then obtain docs where fr: "finalize_report j ?rep (as_docs s) = (True, docs)"
    by (metis prod.collapse)
  note v = completed_validates [OF assms(1), of j, unfolded completed_payload_def]
  show ?thesis
    using assms(3) fr v mark_job_complete_jobs [where j = j and s = s]
    by (simp add: finalize_job_def Let_def final_report_def current_doc_def final_sbom_def
        job_components_def completed_payload_def)
qed

lemma finalize_job_lost:
  assumes "is_complete j (as_docs s)" "final_sbom E j (as_artifacts s) = Some (JObj doc)"
  shows "finalize_job E narr j s = (Inr None, s)"
proof -
  have "finalize_report j (final_report E narr j s) (as_docs s) = (False, as_docs s)"
    using assms(1) by (auto simp: finalize_report_def is_complete_def doc_or_new_def Let_def split: option.splits)
  then show ?thesis
    using assms(2) by (simp add: finalize_job_def Let_def final_report_def current_doc_def final_sbom_def
        job_components_def)
qed

lemma finalize_job_invalid:
  assumes "\<nexists>doc. final_sbom E j (as_artifacts s) = Some (JObj doc)"
  shows "finalize_job E narr j s = (Inl ValidationError, s)"
  using assms
  by (simp add: finalize_job_def Let_def final_sbom_def job_components_def split: option.splits json.splits)

text \<open>\<open>finalize_job\<close> touches neither Redis nor the log, and wins at most once.\<close>

lemma finalize_job_cases:
  assumes "env_ok E"
  shows "(\<exists>e. finalize_job E narr j s = (Inl e, s)) \<or>
    (is_complete j (as_docs s) \<and> finalize_job E narr j s = (Inr None, s)) \<or>
    (\<not> is_complete j (as_docs s) \<and>
     (\<exists>rep arts jobs. finalize_job E narr j s =
        (Inr (Some (completed_payload j)),
         s\<lparr>as_docs := snd (finalize_report j rep (as_docs s)), as_artifacts := arts, as_jobs := jobs\<rparr>)))"
  using finalize_job_wins [OF assms] finalize_job_lost finalize_job_invalid by metis

section \<open>One call of the aggregator\<close>

lemma aggregate_eq:
  assumes "str_field p ''job_id'' = Inr j" "str_field p ''sub_blob_id'' = Inr b"
  shows "\<exists>r. (\<forall>k. r_live k r = r_live k (rs_redis s)) \<and> aggregate E narr p s =
    (let s1 = s\<lparr>as_docs := record_sub_blob (e_now E) j b (json_list (jget p ''cve_matches'')) (as_docs s),
                rs_redis := r\<rparr>
     in if \<not> gate_open j (rs_redis s) then (Inr None, s1)
        else (case finalize_job E narr j s1 of
                (Inl e, s2) \<Rightarrow> (Inl e, s2)
              | (Inr None, s2) \<Rightarrow> (Inr None, s2)
              | (Inr (Some completed), s2) \<Rightarrow>
                  ebind (emit E FIRMWARE_COMPLETED completed) (\<lambda>_. ret (Some completed)) s2))"
proof -
  let ?s = "s\<lparr>as_docs := record_sub_blob (e_now E) j b (json_list (jget p ''cve_matches'')) (as_docs s)\<rparr>"
  obtain r where r: "completion_ready j ?s = (Inr (gate_open j (rs_redis s)), ?s\<lparr>rs_redis := r\<rparr>)"
    "\<forall>k. r_live k r = r_live k (rs_redis s)"
    using completion_ready_eq [of j ?s] by auto
  show ?thesis
    by (rule exI [of _ r])
      (simp add: r aggregate_def assms lift_result_def ebind_def modify_def Let_def ret_def
        split: sum.splits option.splits prod.splits)
qed

lemma aggregate_malformed:
  "(\<And>j b. str_field p ''job_id'' = Inr j \<Longrightarrow> str_field p ''sub_blob_id'' \<noteq> Inr b) \<Longrightarrow>
   snd (aggregate E narr p s) = s"
  by (simp add: aggregate_def ebind_def lift_result_def split: sum.splits)

lemma aggregate_log_cases:
  assumes "env_ok E"
  shows "let s' = snd (aggregate E narr p s) in
    (\<forall>i. is_complete i (as_docs s) \<longrightarrow> is_complete i (as_docs s')) \<and>
    (rs_log s' = rs_log s \<or>
     (\<exists>i. str_field p ''job_id'' = Inr i \<and> gate_open i (rs_redis s) \<and>
          \<not> is_complete i (as_docs s) \<and> is_complete i (as_docs s') \<and>
          rs_log s' = rs_log s @ [completed_msg E i]))"
proof (cases "\<exists>j b. str_field p ''job_id'' = Inr j \<and> str_field p ''sub_blob_id'' = Inr b")
  case False
  then have "snd (aggregate E narr p s) = s" by (intro aggregate_malformed) blast
  then show ?thesis by simp
next
  case True
  then obtain j b where jb: "str_field p ''job_id'' = Inr j" "str_field p ''sub_blob_id'' = Inr b"
    by blast
  obtain r where ag: "aggregate E narr p s =
    (let s1 = s\<lparr>as_docs := record_sub_blob (e_now E) j b (json_list (jget p ''cve_matches'')) (as_docs s),
                rs_redis := r\<rparr>
     in if \<not> gate_open j (rs_redis s) then (Inr None, s1)
        else (case finalize_job E narr j s1 of
                (Inl e, s2) \<Rightarrow> (Inl e, s2)
              | (Inr None, s2) \<Rightarrow> (Inr None, s2)
              | (Inr (Some completed), s2) \<Rightarrow>
                  ebind (emit E FIRMWARE_COMPLETED completed) (\<lambda>_. ret (Some completed)) s2))"
    using aggregate_eq [OF jb] by blast
  let ?s1 = "s\<lparr>as_docs := record_sub_blob (e_now E) j b (json_list (jget p ''cve_matches'')) (as_docs s),
                rs_redis := r\<rparr>"
  have rec: "is_complete i (as_docs ?s1) = is_complete i (as_docs s)" for i
    by (simp add: mem_reports.record_complete)
  show ?thesis
    using finalize_job_cases [OF assms, of narr j ?s1]
    by (auto simp: ag Let_def rec jb(1) emit_completed [OF assms] ebind_def produce_def ret_def
        mem_reports.finalize_complete mem_reports.record_complete split: list.splits bool.splits)
qed

definition completed_count :: "string \<Rightarrow> kmsg list \<Rightarrow> nat" where
  "completed_count j msgs =
     length (filter (\<lambda>m. km_topic m = FIRMWARE_COMPLETED \<and> km_key m = Some j) msgs)"

text \<open>
  The aggregator among everything else that goes on: between its calls, Redis, the
  artifacts, the jobs table, the availability of Postgres and the broker's outcomes may
  change in any way; other stages may produce to their topics. The report documents are its
  own.
\<close>

inductive agg_step :: "env \<Rightarrow> narrator option \<Rightarrow> report_state \<Rightarrow> report_state \<Rightarrow> bool"
  for E narr where
  call: "agg_step E narr s (snd (aggregate E narr p s))"
| environment: "agg_step E narr s (s\<lparr>rs_redis := r, rs_faults := fs, as_artifacts := arts,
     as_jobs := jobs, as_pg_up := up\<rparr>)"
| other_topic: "km_topic m \<noteq> FIRMWARE_COMPLETED \<Longrightarrow> agg_step E narr s (s\<lparr>rs_log := rs_log s @ [m]\<rparr>)"

inductive_cases agg_stepE: "agg_step E narr s s'"

definition agg_inv :: "string \<Rightarrow> 'z report_state_scheme \<Rightarrow> bool" where
  "agg_inv j s \<longleftrightarrow> completed_count j (rs_log s) \<le> (if is_complete j (as_docs s) then 1 else 0)"

lemma agg_inv_aggregate:
  assumes "env_ok E" "agg_inv j s"
  shows "agg_inv j (snd (aggregate E narr p s))"
proof -
  have "completed_count j [completed_msg E i] \<le> (if i = j then 1 else 0)" for i
    by (simp add: completed_count_def completed_msg_def)
  with aggregate_log_cases [OF assms(1), of narr p s] assms(2) show ?thesis
    by (fastforce simp: Let_def agg_inv_def completed_count_def completed_msg_def split: if_splits)
qed

lemma agg_inv_step:
  assumes "env_ok E" "agg_step E narr s s'" "agg_inv j s"
  shows "agg_inv j s'"
proof (rule agg_stepE [OF assms(2)])
  fix p
  assume "s' = snd (aggregate E narr p s)"
  then show ?thesis by (simp add: agg_inv_aggregate assms)
qed (use assms(3) in \<open>auto simp: agg_inv_def completed_count_def\<close>)

text \<open>
  C1. Exactly-once reporting, upper half: along any history of aggregator calls, redelivered,
  reordered or failing, with the rest of the system changing everything else at will, at
  most one \<open>firmware.completed\<close> event is ever produced for a job.
\<close>

theorem at_most_one_completed:
  assumes "env_ok E" and "(agg_step E narr)\<^sup>*\<^sup>* s s'"
    and "completed_count j (rs_log s) = 0"
  shows "completed_count j (rs_log s') \<le> 1"
proof -
  have "agg_inv j s" using assms(3) by (simp add: agg_inv_def)
  with assms(2) have "agg_inv j s'"
    by (induction rule: rtranclp_induct) (use agg_inv_step [OF assms(1)] in auto)
  then show ?thesis by (auto simp: agg_inv_def split: if_splits)
qed

text \<open>A job with one child, matched and fully extracted, for the examples.\<close>

definition sample_redis :: redis where
  "sample_redis =
     \<lparr>rd_store = [(total_children ''j'', ''1''), (extraction_complete ''j'', ''1''),
                  (matched_children ''j'', ''1'')],
      rd_expiry = [], rd_bits = [], rd_now = 0\<rparr>"

definition sample_report_state :: report_state where
  "sample_report_state =
     \<lparr>rs_redis = sample_redis, rs_log = [], rs_faults = [], as_docs = [], as_artifacts = [],
      as_jobs = [(''j'', ''ANALYZING'')], as_pg_up = True\<rparr>"

definition sample_matched :: payload where
  "sample_matched = [(''job_id'', JStr ''j''), (''sub_blob_id'', JStr ''b''), (''cve_matches'', JList [])]"

lemma py_int_1: "py_int ''1'' = Some 1"
  by code_simp

lemma sample_gate: "gate_open ''j'' sample_redis"
  by (simp add: gate_open_def r_live_def r_overdue_def sample_redis_def py_int_1 TRUTHY_def)

lemma sample_fields:
  "str_field sample_matched ''job_id'' = Inr ''j''" "str_field sample_matched ''sub_blob_id'' = Inr ''b''"
  by (simp_all add: str_field_def jindex_def sample_matched_def)

lemma sample_sbom:
  "final_sbom sample_env ''j'' [] =
     Some (JObj [(''job_id'', JStr ''j''), (''generated_at'', JStr ''now''), (''components'', JList [])])"
proof -
  have "job_components ''j'' [] = []"
    by (simp add: job_components_def list_json_def merge_sbom_components_def)
  then show ?thesis
    by (simp add: final_sbom_def Sbom_def sample_env_def strict_coercers_def)
qed

lemma sample_not_complete: "\<not> is_complete j (as_docs sample_report_state)"
  by (simp add: is_complete_def sample_report_state_def)

theorem at_most_one_completed_witness:
  "completed_count ''j'' (rs_log (snd (aggregate sample_env None sample_matched sample_report_state))) \<le> 1"
proof (rule at_most_one_completed [OF sample_env_ok])
  have "agg_step sample_env None sample_report_state
      (snd (aggregate sample_env None sample_matched sample_report_state))"
    by (rule agg_step.call)
  then show "(agg_step sample_env None)\<^sup>*\<^sup>* sample_report_state
      (snd (aggregate sample_env None sample_matched sample_report_state))" ..
  show "completed_count ''j'' (rs_log sample_report_state) = 0"
    by (simp add: completed_count_def sample_report_state_def)
qed

text \<open>The findings a slot table stands for.\<close>

definition slot_findings :: "(string, json) dict \<Rightarrow> payload list" where
  "slot_findings slots =
     concat (map (\<lambda>(b, ms). map (\<lambda>m. dset ''sub_blob_id'' (JStr b) (json_obj m)) (json_list ms)) slots)"

lemma findings_current_doc: "findings_from_partial (current_doc j docs) = slot_findings (slots_of j docs)"
  by (simp add: findings_from_partial_def current_doc_def slot_findings_def slots_of_def
      doc_slots_def get_report_def jget_def split: option.splits)

lemma aggregate_wins:
  assumes "env_ok E" and "str_field p ''job_id'' = Inr j" and "str_field p ''sub_blob_id'' = Inr b"
    and "gate_open j (rs_redis s)" and "\<not> is_complete j (as_docs s)"
    and "final_sbom E j (as_artifacts s) = Some (JObj sbom_doc)" and "rs_faults s = []"
  shows "\<exists>s' rep. aggregate E narr p s = (Inr (Some (completed_payload j)), s') \<and>
    rs_log s' = rs_log s @ [completed_msg E j] \<and>
    is_complete j (as_docs s') \<and>
    get_json (sbom_key j) (as_artifacts s') = Some sbom_doc \<and>
    get_json (report_key j) (as_artifacts s') = Some rep \<and>
    rep = build_report E narr j
      (slot_findings (dset b (JList (json_list (jget p ''cve_matches''))) (slots_of j (as_docs s))))
      (job_components j (as_artifacts s)) \<and>
    as_jobs s' = as_jobs (snd (mark_job_complete j s))"
proof -
  obtain r where ag: "aggregate E narr p s =
    (let s1 = s\<lparr>as_docs := record_sub_blob (e_now E) j b (json_list (jget p ''cve_matches'')) (as_docs s),
                rs_redis := r\<rparr>
     in if \<not> gate_open j (rs_redis s) then (Inr None, s1)
        else (case finalize_job E narr j s1 of
                (Inl e, s2) \<Rightarrow> (Inl e, s2)
              | (Inr None, s2) \<Rightarrow> (Inr None, s2)
              | (Inr (Some completed), s2) \<Rightarrow>
                  ebind (emit E FIRMWARE_COMPLETED completed) (\<lambda>_. ret (Some completed)) s2))"
    using aggregate_eq [OF assms(2,3)] by blast
  let ?docs = "record_sub_blob (e_now E) j b (json_list (jget p ''cve_matches'')) (as_docs s)"
  let ?s1 = "s\<lparr>as_docs := ?docs, rs_redis := r\<rparr>"
  have "\<not> is_complete j (as_docs ?s1)" using assms(5) by (simp add: mem_reports.record_complete)
  note win = finalize_job_wins [OF assms(1) this, of sbom_doc narr]
  have keys: "sbom_key j \<noteq> report_key j" by (simp add: sbom_key_def report_key_def)
  have rep: "final_report E narr j ?s1 = build_report E narr j
      (slot_findings (dset b (JList (json_list (jget p ''cve_matches''))) (slots_of j (as_docs s))))
      (job_components j (as_artifacts s))"
    by (simp add: final_report_def findings_current_doc mem_reports.record_slots)
  have jobs: "as_jobs (snd (mark_job_complete j ?s1)) = as_jobs (snd (mark_job_complete j s))"
    by (simp add: mark_job_complete_def)
  show ?thesis
    using assms(4,6,7) keys
    by (simp add: ag win rep jobs emit_completed [OF assms(1)] ebind_def produce_def ret_def
        mem_reports.finalize_complete mem_artifacts.get_put del: not_None_eq)
qed

text \<open>
  C8. Completion: when the gate of an unfinished job holds, the event that finds it open
  completes the job: the report is stored with exactly the findings of the sub-blobs
  recorded so far, this event's included, the SBOM with the merged fragments, the Postgres
  row is flipped, and \<open>firmware.completed\<close> is produced, keyed by the job.
\<close>

theorem aggregate_completes:
  assumes "env_ok E" and "str_field p ''job_id'' = Inr j" and "str_field p ''sub_blob_id'' = Inr b"
    and "gate_open j (rs_redis s)" and "\<not> is_complete j (as_docs s)"
    and "final_sbom E j (as_artifacts s) = Some (JObj sbom_doc)" and "rs_faults s = []"
  shows "\<exists>s' rep. aggregate E narr p s = (Inr (Some (completed_payload j)), s') \<and>
    rs_log s' = rs_log s @ [completed_msg E j] \<and>
    is_complete j (as_docs s') \<and>
    get_json (sbom_key j) (as_artifacts s') = Some sbom_doc \<and>
    get_json (report_key j) (as_artifacts s') = Some rep \<and>
    rep = build_report E narr j
      (slot_findings (dset b (JList (json_list (jget p ''cve_matches''))) (slots_of j (as_docs s))))
      (job_components j (as_artifacts s)) \<and>
    as_jobs s' = as_jobs (snd (mark_job_complete j s))"
  by (rule aggregate_wins [OF assms])

theorem aggregate_completes_witness:
  "\<exists>s' rep. aggregate sample_env None sample_matched sample_report_state =
      (Inr (Some (completed_payload ''j'')), s') \<and>
    rs_log s' = rs_log sample_report_state @ [completed_msg sample_env ''j''] \<and>
    is_complete ''j'' (as_docs s') \<and>
    get_json (sbom_key ''j'') (as_artifacts s') =
      Some [(''job_id'', JStr ''j''), (''generated_at'', JStr ''now''), (''components'', JList [])] \<and>
    get_json (report_key ''j'') (as_artifacts s') = Some rep \<and>
    rep = build_report sample_env None ''j''
      (slot_findings (dset ''b'' (JList (json_list (jget sample_matched ''cve_matches'')))
        (slots_of ''j'' (as_docs sample_report_state))))
      (job_components ''j'' (as_artifacts sample_report_state)) \<and>
    as_jobs s' = as_jobs (snd (mark_job_complete ''j'' sample_report_state))"
  by (rule aggregate_completes [OF sample_env_ok sample_fields _ sample_not_complete])
    (simp_all add: sample_report_state_def sample_gate sample_sbom)

text \<open>
  While the gate is closed the event only updates its own sub-blob's slot: nothing is
  produced, no artifact is written and no other job's document changes.
\<close>

theorem aggregate_waits:
  assumes "str_field p ''job_id'' = Inr j" and "str_field p ''sub_blob_id'' = Inr b"
    and "\<not> gate_open j (rs_redis s)"
  shows "\<exists>s'. aggregate E narr p s = (Inr None, s') \<and> rs_log s' = rs_log s \<and>
    as_artifacts s' = as_artifacts s \<and> as_jobs s' = as_jobs s \<and>
    (\<forall>i. slots_of i (as_docs s') =
       (if i = j then dset b (JList (json_list (jget p ''cve_matches''))) (slots_of j (as_docs s))
        else slots_of i (as_docs s)))"
proof -
  obtain r where "aggregate E narr p s = (Inr None,
      s\<lparr>as_docs := record_sub_blob (e_now E) j b (json_list (jget p ''cve_matches'')) (as_docs s),
        rs_redis := r\<rparr>)"
    using aggregate_eq [OF assms(1,2), of s E narr] assms(3) by (auto simp: Let_def)
  then show ?thesis by (simp add: mem_reports.record_slots)
qed

theorem aggregate_waits_witness:
  "\<exists>s'. aggregate sample_env None sample_matched (sample_report_state\<lparr>rs_redis := redis_empty\<rparr>) = (Inr None, s') \<and>
    rs_log s' = rs_log (sample_report_state\<lparr>rs_redis := redis_empty\<rparr>) \<and>
    as_artifacts s' = as_artifacts (sample_report_state\<lparr>rs_redis := redis_empty\<rparr>) \<and>
    as_jobs s' = as_jobs (sample_report_state\<lparr>rs_redis := redis_empty\<rparr>) \<and>
    (\<forall>i. slots_of i (as_docs s') =
       (if i = ''j'' then dset ''b'' (JList (json_list (jget sample_matched ''cve_matches'')))
          (slots_of ''j'' (as_docs (sample_report_state\<lparr>rs_redis := redis_empty\<rparr>)))
        else slots_of i (as_docs (sample_report_state\<lparr>rs_redis := redis_empty\<rparr>))))"
  by (rule aggregate_waits [OF sample_fields])
    (simp add: gate_open_def r_live_def r_overdue_def redis_empty_def)

end
