(* ===== verification/PyRegex.thy ===== *)
theory PyRegex
  imports PyStr
begin

text \<open>
  The part of Python's \<open>re\<close> that the sources use, on ASCII strings: character classes,
  sequence, alternation, greedy repetition and word boundaries, matched by backtracking.
  \<open>ends r s i\<close> lists the positions at which a match of \<open>r\<close> that starts at \<open>i\<close> can end, in
  the order in which the matcher tries them, so that its first element is the match. The
  bodies of the repetitions in the sources never match the empty string; an empty iteration
  is not repeated here.
\<close>

datatype re =
    RChar "char \<Rightarrow> bool"
  | REmpty
  | RSeq re re
  | RAlt re re
  | RRep nat "nat option" re
  | RBound

fun re_size :: "re \<Rightarrow> nat" where
  "re_size (RChar P) = 1"
| "re_size REmpty = 1"
| "re_size (RSeq a b) = 1 + re_size a + re_size b"
| "re_size (RAlt a b) = 1 + re_size a + re_size b"
| "re_size (RRep m M r) = 1 + re_size r"
| "re_size RBound = 1"

definition word_at :: "string \<Rightarrow> nat \<Rightarrow> bool" where
  "word_at s i = (i < length s \<and> is_word (s ! i))"

definition at_boundary :: "string \<Rightarrow> nat \<Rightarrow> bool" where
  "at_boundary s i = ((0 < i \<and> word_at s (i - 1)) \<noteq> word_at s i)"

function ends :: "re \<Rightarrow> string \<Rightarrow> nat \<Rightarrow> nat list" where
  "ends (RChar P) s i = (if i < length s \<and> P (s ! i) then [i + 1] else [])"
| "ends REmpty s i = [i]"
| "ends (RSeq a b) s i = concat (map (\<lambda>j. ends b s j) (ends a s i))"
| "ends (RAlt a b) s i = ends a s i @ ends b s i"
| "ends (RRep m M r) s i =
     (if M = Some 0 then []
      else concat (map (\<lambda>j. if i < j \<and> j \<le> length s
                              then ends (RRep (m - 1) (map_option (\<lambda>k. k - 1) M) r) s j else [])
                       (ends r s i))) @ (if m = 0 then [i] else [])"
| "ends RBound s i = (if at_boundary s i then [i] else [])"
  by pat_completeness auto
termination
  by (relation "measures [\<lambda>(r, s, i). re_size r, \<lambda>(r, s, i). length s - i]") auto

declare ends.simps(5) [simp del]

text \<open>\<open>pattern.search(s)\<close>: the leftmost start that matches, with the end of its match.\<close>

fun first_match :: "re \<Rightarrow> string \<Rightarrow> nat list \<Rightarrow> (nat \<times> nat) option" where
  "first_match r s [] = None"
| "first_match r s (i # is) =
     (case ends r s i of [] \<Rightarrow> first_match r s is | j # _ \<Rightarrow> Some (i, j))"

definition search :: "re \<Rightarrow> string \<Rightarrow> (nat \<times> nat) option" where
  "search r s = first_match r s [0..<Suc (length s)]"

definition slice :: "string \<Rightarrow> nat \<Rightarrow> nat \<Rightarrow> string" where
  "slice s i j = take (j - i) (drop i s)"

definition group0 :: "re \<Rightarrow> string \<Rightarrow> string option" where
  "group0 r s = map_option (\<lambda>(i, j). slice s i j) (search r s)"

text \<open>\<open>m.group(1)\<close> of a pattern \<open>p(g)\<close> whose only group comes last.\<close>

definition group1 :: "re \<Rightarrow> re \<Rightarrow> string \<Rightarrow> string option" where
  "group1 p g s =
     (case search (RSeq p g) s of
        None \<Rightarrow> None
      | Some (i, _) \<Rightarrow>
          (case filter (\<lambda>j. ends g s j \<noteq> []) (ends p s i) of
             [] \<Rightarrow> None
           | j # _ \<Rightarrow> Some (slice s j (hd (ends g s j)))))"

section \<open>Pattern abbreviations\<close>

fun RSeqs :: "re list \<Rightarrow> re" where
  "RSeqs [] = REmpty"
| "RSeqs [r] = r"
| "RSeqs (r # rs) = RSeq r (RSeqs rs)"

fun RAlts :: "re list \<Rightarrow> re" where
  "RAlts [] = RChar (\<lambda>_. False)"
| "RAlts [r] = r"
| "RAlts (r # rs) = RAlt r (RAlts rs)"

definition RStar :: "re \<Rightarrow> re" where "RStar r = RRep 0 None r"
definition RPlus :: "re \<Rightarrow> re" where "RPlus r = RRep 1 None r"
definition ROpt :: "re \<Rightarrow> re" where "ROpt r = RRep 0 (Some 1) r"
definition RText :: "string \<Rightarrow> re" where "RText t = RSeqs (map (\<lambda>c. RChar ((=) c)) t)"
definition RTextI :: "string \<Rightarrow> re" where
  "RTextI t = RSeqs (map (\<lambda>d. RChar (\<lambda>c. lower_char c = lower_char d)) t)"
definition RDigit :: re where "RDigit = RChar is_digit"
definition RDigits :: re where "RDigits = RPlus RDigit"
definition RSpaces :: re where "RSpaces = RPlus (RChar is_space)"
definition ROneOf :: "string \<Rightarrow> re" where "ROneOf cs = RChar (\<lambda>c. c \<in> set cs)"

section \<open>Bounds and language\<close>

lemma ends_bounds: "i \<le> length s \<Longrightarrow> j \<in> set (ends r s i) \<Longrightarrow> i \<le> j \<and> j \<le> length s"
proof (induction r s i arbitrary: j rule: ends.induct)
  case (3 a b s i)
  from "3.prems" obtain k where k: "k \<in> set (ends a s i)" "j \<in> set (ends b s k)" by auto
  with "3.IH"(1) "3.prems" have "i \<le> k \<and> k \<le> length s" by simp
  with "3.IH"(2) [OF k(1)] k(2) show ?case by fastforce
next
  case (5 m M r s i)
  show ?case
  proof (cases "j = i")
    case True
    with "5.prems" show ?thesis by simp
  next
    case False
    with "5.prems"(2) obtain k where k: "M \<noteq> Some 0" "k \<in> set (ends r s i)" "i < k" "k \<le> length s"
      "j \<in> set (ends (RRep (m - 1) (map_option (\<lambda>k. k - 1) M) r) s k)"
      by (subst (asm) ends.simps(5)) (auto split: if_splits)
    from "5.IH"(2) [OF k(1,2)] k(3-5) have "k \<le> j \<and> j \<le> length s" by simp
    with k(3) show ?thesis by simp
  qed
qed (auto split: if_splits)

lemma first_match_Some:
  "first_match r s is = Some (i, j) \<Longrightarrow>
   \<exists>pre post. is = pre @ i # post \<and> (\<forall>k \<in> set pre. ends r s k = []) \<and> ends r s i \<noteq> [] \<and> j = hd (ends r s i)"
proof (induction "is")
  case (Cons k ks)
  show ?case
  proof (cases "ends r s k")
    case Nil
    with Cons obtain pre post where "ks = pre @ i # post" "\<forall>k \<in> set pre. ends r s k = []"
      "ends r s i \<noteq> []" "j = hd (ends r s i)" by auto
    with Nil show ?thesis by (intro exI [of _ "k # pre"] exI [of _ post]) auto
  next
    case (Cons e es)
    with Cons.prems show ?thesis by (intro exI [of _ "[]"] exI [of _ ks]) simp
  qed
qed simp

lemma first_match_None: "first_match r s is = None \<longleftrightarrow> (\<forall>i \<in> set is. ends r s i = [])"
  by (induction "is") (auto split: list.splits)

lemma search_Some:
  assumes "search r s = Some (i, j)"
  shows "i \<le> length s" "ends r s i \<noteq> []" "j = hd (ends r s i)" "\<forall>k < i. ends r s k = []"
proof -
  from first_match_Some [OF assms [unfolded search_def]] obtain pre post where
    *: "[0..<Suc (length s)] = pre @ i # post" "\<forall>k \<in> set pre. ends r s k = []"
      "ends r s i \<noteq> []" "j = hd (ends r s i)" by blast
  have len: "length pre < Suc (length s)" using arg_cong [OF *(1), of length] by simp
  then have "i = length pre"
    using arg_cong [OF *(1), of "\<lambda>xs. xs ! length pre"] by (simp add: nth_append del: upt_Suc)
  moreover have "pre = [0..<length pre]"
    using arg_cong [OF *(1), of "take (length pre)"] len by (simp add: take_upt del: upt_Suc)
  ultimately show "i \<le> length s" "\<forall>k < i. ends r s k = []"
    using *(2) len by (simp, metis atLeastLessThan_iff le0 set_upt)
  show "ends r s i \<noteq> []" "j = hd (ends r s i)" by (fact *)+
qed

lemma search_None: "search r s = None \<longleftrightarrow> (\<forall>i \<le> length s. ends r s i = [])"
  by (auto simp: search_def first_match_None less_Suc_eq_le simp del: upt_Suc)

section \<open>The characters of a match\<close>

text \<open>Every character class of the pattern lies within \<open>P\<close>.\<close>

fun re_all :: "(char \<Rightarrow> bool) \<Rightarrow> re \<Rightarrow> bool" where
  "re_all P (RChar Q) = (\<forall>c. Q c \<longrightarrow> P c)"
| "re_all P REmpty = True"
| "re_all P (RSeq a b) = (re_all P a \<and> re_all P b)"
| "re_all P (RAlt a b) = (re_all P a \<and> re_all P b)"
| "re_all P (RRep m M r) = re_all P r"
| "re_all P RBound = True"

lemma ends_all:
  "re_all P r \<Longrightarrow> i \<le> length s \<Longrightarrow> j \<in> set (ends r s i) \<Longrightarrow> i \<le> k \<Longrightarrow> k < j \<Longrightarrow> P (s ! k)"
proof (induction r s i arbitrary: j k rule: ends.induct)
  case (1 Q s i)
  then have "k = i" "Q (s ! i)" by (auto split: if_splits)
  with 1 show ?case by simp
next
  case (3 a b s i)
  from "3.prems" obtain l where l: "l \<in> set (ends a s i)" "j \<in> set (ends b s l)" by auto
  have "l \<le> length s" using ends_bounds [OF "3.prems"(2) l(1)] by simp
  with 3 l show ?case by (cases "k < l") auto
next
  case (5 m M r s i)
  have "j \<noteq> i" using "5.prems" by simp
  with "5.prems"(3) obtain l where l: "M \<noteq> Some 0" "l \<in> set (ends r s i)" "i < l" "l \<le> length s"
    "j \<in> set (ends (RRep (m - 1) (map_option (\<lambda>k. k - 1) M) r) s l)"
    by (subst (asm) ends.simps(5)) (auto split: if_splits)
  show ?case
  proof (cases "k < l")
    case True
    with 5 l show ?thesis by simp
  next
    case False
    with "5.IH"(2) [OF l(1,2)] "5.prems" l show ?thesis by simp
  qed
qed (auto split: if_splits)

lemma group0_all:
  assumes "group0 r s = Some t" "re_all P r"
  shows "\<forall>c \<in> set t. P c"
proof -
  from assms(1) obtain i j where m: "search r s = Some (i, j)" and t: "t = slice s i j"
    by (auto simp: group0_def)
  note b = search_Some [OF m]
  then have j: "j \<in> set (ends r s i)" by (simp add: list.set_sel)
  then have ij: "i \<le> j" "j \<le> length s" using ends_bounds [OF b(1)] by auto
  show ?thesis
  proof
    fix c
    assume "c \<in> set t"
    then obtain n where "n < j - i" "c = s ! (i + n)"
      using ij by (auto simp: t slice_def in_set_conv_nth)
    then show "P c" using ends_all [OF assms(2) b(1) j, of "i + n"] by simp
  qed
qed

lemma re_all_simps [simp]:
  "re_all P (RStar r) = re_all P r" "re_all P (RPlus r) = re_all P r" "re_all P (ROpt r) = re_all P r"
  "re_all P RDigit = (\<forall>c. is_digit c \<longrightarrow> P c)" "re_all P RDigits = (\<forall>c. is_digit c \<longrightarrow> P c)"
  by (simp_all add: RStar_def RPlus_def ROpt_def RDigit_def RDigits_def)

end
