(* ===== verification/StringScan.thy ===== *)
theory StringScan
  imports PyRegex Contracts
begin

text \<open>
  The string passes of the static-analysis stage (\<open>services/static_analysis/\<close>): extraction
  of printable runs in three encodings (\<open>strings_extract.py\<close>), version banners
  (\<open>versions.py\<close>) and secrets (\<open>secrets.py\<close>). Bytes are characters of code 0 to 255. The
  lemmas show that the ASCII pass finds exactly the maximal printable runs.
\<close>

type_synonym bytes = string

section \<open>strings_extract.py\<close>

function finditer_from :: "re \<Rightarrow> string \<Rightarrow> nat \<Rightarrow> (nat \<times> nat) list" where
  "finditer_from r s i =
     (if i > length s then []
      else (case ends r s i of
              [] \<Rightarrow> finditer_from r s (i + 1)
            | j # _ \<Rightarrow> if i < j then (i, j) # finditer_from r s j else finditer_from r s (i + 1)))"
  by pat_completeness auto
termination
  by (relation "measure (\<lambda>(r, s, i). Suc (length s) - i)") auto

declare finditer_from.simps [simp del]

definition finditer :: "re \<Rightarrow> string \<Rightarrow> (nat \<times> nat) list" where
  "finditer r s = finditer_from r s 0"

definition DEFAULT_MIN_LEN :: nat where "DEFAULT_MIN_LEN = 4"

definition is_printable :: "char \<Rightarrow> bool" where
  "is_printable c = (0x20 \<le> ord c \<and> ord c \<le> 0x7e)"

definition NUL :: char where "NUL = CHR 0x00"

definition ascii_re :: "nat \<Rightarrow> re" where
  "ascii_re min_len = RRep min_len None (RChar is_printable)"

definition utf16le_re :: "nat \<Rightarrow> re" where
  "utf16le_re min_len = RRep min_len None (RSeq (RChar is_printable) (RChar ((=) NUL)))"

definition utf16be_re :: "nat \<Rightarrow> re" where
  "utf16be_re min_len = RRep min_len None (RSeq (RChar ((=) NUL)) (RChar is_printable))"

text \<open>Decoding two bytes per character; the high byte of what the patterns match is 0.\<close>

fun decode_utf16le :: "bytes \<Rightarrow> string" where
  "decode_utf16le (lo # hi # rest) = lo # decode_utf16le rest"
| "decode_utf16le _ = []"

fun decode_utf16be :: "bytes \<Rightarrow> string" where
  "decode_utf16be (hi # lo # rest) = lo # decode_utf16be rest"
| "decode_utf16be _ = []"

definition add_string :: "string \<Rightarrow> string list \<Rightarrow> string list" where
  "add_string s ordered = (if s \<noteq> [] then push_new s ordered else ordered)"

definition match_texts :: "re \<Rightarrow> bytes \<Rightarrow> bytes list" where
  "match_texts r data = map (\<lambda>(i, j). slice data i j) (finditer r data)"

definition extract_strings :: "nat \<Rightarrow> bytes \<Rightarrow> string list" where
  "extract_strings min_len data =
     (let ordered = foldl (\<lambda>acc s. add_string s acc) [] (match_texts (ascii_re min_len) data);
          ordered = foldl (\<lambda>acc s. add_string s acc) ordered
            (map decode_utf16le (match_texts (utf16le_re min_len) data))
      in foldl (\<lambda>acc s. add_string s acc) ordered
            (map decode_utf16be (match_texts (utf16be_re min_len) data)))"

section \<open>versions.py\<close>

definition dotted3 :: re where
  "dotted3 = RSeqs [RDigits, RText ''.'', RDigits, RText ''.'', RDigits]"

definition dotted2 :: re where
  "dotted2 = RSeqs [RDigits, RText ''.'', RDigits]"

text \<open>Vendor, product, the pattern before its capture group, and the group.\<close>

definition VERSION_PATTERNS :: "(string \<times> string \<times> re \<times> re) list" where
  "VERSION_PATTERNS =
     [(''busybox'', ''busybox'', RSeqs [RTextI ''BusyBox'', RSpaces, ROpt (RTextI ''v'')], dotted3),
      (''openssl'', ''openssl'', RSeqs [RTextI ''OpenSSL'', RSpaces],
        RSeq dotted3 (ROpt (RChar (\<lambda>c. is_lower (lower_char c))))),
      (''curl'', ''libcurl'', RTextI ''libcurl/'', dotted3),
      (''curl'', ''curl'', RSeqs [RBound, RTextI ''curl'', RSpaces], dotted3),
      (''dropbear'', ''dropbear'',
        RSeqs [ROneOf ''Dd'', RText ''ropbear'', ROpt (RSeqs [RSpaces, RText ''SSH'']),
               ROneOf '' _'', ROpt (RText ''v'')],
        RAlt (RSeqs [RRep 4 (Some 4) RDigit, RText ''.'', RDigits]) dotted2),
      (''uclibc'', ''uclibc'',
        RSeqs [RTextI ''uClibc'', ROpt (RTextI ''-ng''), ROpt (ROneOf '' -'')], dotted3),
      (''linux'', ''linux_kernel'', RSeqs [RText ''Linux version'', RSpaces],
        RSeq dotted2 (ROpt (RSeqs [RText ''.'', RDigits])))]"

type_synonym version_candidate = "string \<times> string \<times> string"

definition offer_version ::
  "string \<Rightarrow> version_candidate list \<Rightarrow> string \<times> string \<times> re \<times> re \<Rightarrow> version_candidate list" where
  "offer_version s out pat =
     (case pat of (vendor, product, before, grp) \<Rightarrow>
        (case group1 before grp s of
           None \<Rightarrow> out
         | Some version \<Rightarrow> push_new (vendor, product, version) out))"

definition find_version_candidates :: "string list \<Rightarrow> version_candidate list" where
  "find_version_candidates strings =
     foldl (\<lambda>out s. foldl (offer_version s) out VERSION_PATTERNS) [] strings"

definition version_json :: "version_candidate \<Rightarrow> json" where
  "version_json vc = (case vc of (vendor, product, version) \<Rightarrow>
     JObj [(''vendor'', JStr vendor), (''product'', JStr product), (''version'', JStr version)])"

section \<open>secrets.py\<close>

definition CONTEXT_MAX :: nat where "CONTEXT_MAX = 200"

definition not_space :: "char \<Rightarrow> bool" where "not_space c = (\<not> is_space c)"

definition SECRET_PATTERNS :: "(string \<times> re) list" where
  "SECRET_PATTERNS =
     [(''private_key_header'',
        RSeqs [RText ''-----BEGIN '',
               ROpt (RAlts [RText ''RSA '', RText ''DSA '', RText ''EC '', RText ''OPENSSH '', RText ''PGP '']),
               RText ''PRIVATE KEY'', ROpt (RText '' BLOCK''), RText ''-----'']),
      (''aws_access_key_id'',
        RSeqs [RBound, RText ''AKIA'', RRep 16 (Some 16) (RChar (\<lambda>c. is_digit c \<or> is_upper c)), RBound]),
      (''aws_secret_access_key'',
        RSeqs [RTextI ''aws_secret_access_key'', RStar (RChar is_space), ROneOf ''=:'',
               RStar (RChar is_space), RPlus (RChar not_space)]),
      (''private_key_pem_body'',
        RSeqs [RBound, RText ''MII'',
               RRep 20 None (RChar (\<lambda>c. is_alnum c \<or> c = CHR ''+'' \<or> c = CHR ''/''))]),
      (''hardcoded_credential'',
        RSeqs [RBound,
               RAlts [RTextI ''password'', RTextI ''passwd'', RTextI ''pwd'',
                      RSeqs [RTextI ''api'', ROpt (ROneOf ''_-''), RTextI ''key''],
                      RTextI ''secret'', RTextI ''token'', RTextI ''auth''],
               RBound, RStar (RChar is_space), ROneOf ''=:'', RStar (RChar is_space),
               RPlus (RChar not_space)]),
      (''connection_string_password'',
        RSeqs [RText ''://'', RPlus (RChar (\<lambda>c. c \<notin> set '':@/'' \<and> \<not> is_space c)), RText '':'',
               RPlus (RChar (\<lambda>c. c \<notin> set ''@/'' \<and> \<not> is_space c)), RText ''@''])]"

definition truncate_context :: "string \<Rightarrow> string" where
  "truncate_context s = (if length s \<le> CONTEXT_MAX then s else take CONTEXT_MAX s)"

definition scan_strings :: "string list \<Rightarrow> (string \<times> string) list" where
  "scan_strings strings =
     concat (map (\<lambda>s. map (\<lambda>(type_code, _). (type_code, truncate_context s))
       (filter (\<lambda>(_, pattern). search pattern s \<noteq> None) SECRET_PATTERNS)) strings)"

definition secret_json :: "string \<times> string \<Rightarrow> json" where
  "secret_json f = JObj [(''type'', JStr (fst f)), (''context'', JStr (snd f))]"

section \<open>Maximal runs\<close>

definition run_len :: "(char \<Rightarrow> bool) \<Rightarrow> string \<Rightarrow> nat \<Rightarrow> nat" where
  "run_len P s i = length (takeWhile P (drop i s))"

lemma run_len_step:
  "run_len P s i = (if i < length s \<and> P (s ! i) then Suc (run_len P s (i + 1)) else 0)"
  by (cases "i < length s") (simp_all add: run_len_def Cons_nth_drop_Suc [symmetric])

lemma run_len_bound: "i \<le> length s \<Longrightarrow> i + run_len P s i \<le> length s"
  using length_takeWhile_le [of P "drop i s"] by (simp add: run_len_def)

text \<open>The greedy repetition of a class tries the run from its end down to the minimum.\<close>

lemma ends_class_rep:
  "ends (RRep m None (RChar P)) s i = rev [i + m..<Suc (i + run_len P s i)]"
proof (induction "run_len P s i" arbitrary: i m)
  case 0
  then have "\<not> (i < length s \<and> P (s ! i))" by (subst (asm) run_len_step) auto
  then show ?case using 0 by (subst ends.simps(5)) auto
next
  case (Suc n)
  from Suc.hyps(2) have h: "i < length s" "P (s ! i)" "run_len P s (i + 1) = n"
    by (subst (asm) run_len_step, auto split: if_splits)+
  then have IH: "ends (RRep (m - 1) None (RChar P)) s (i + 1) = rev [i + 1 + (m - 1)..<Suc (i + 1 + n)]"
    using Suc.hyps(1) [of "i + 1" "m - 1"] by simp
  show ?case
    using h IH Suc.hyps(2) [symmetric]
    by (subst ends.simps(5)) (cases m, simp_all add: upt_conv_Cons del: upt_Suc)
qed

definition maximal_run :: "(char \<Rightarrow> bool) \<Rightarrow> string \<Rightarrow> nat \<Rightarrow> nat \<Rightarrow> bool" where
  "maximal_run P s i j \<longleftrightarrow>
     i < j \<and> j \<le> length s \<and> (\<forall>k \<in> {i..<j}. P (s ! k)) \<and>
     (i = 0 \<or> \<not> P (s ! (i - 1))) \<and> (j = length s \<or> \<not> P (s ! j))"

lemma run_len_nth: "k < run_len P s i \<Longrightarrow> P (s ! (i + k))"
proof -
  assume k: "k < run_len P s i"
  then have "takeWhile P (drop i s) ! k \<in> set (takeWhile P (drop i s))" by (simp add: run_len_def)
  then have "P (takeWhile P (drop i s) ! k)" by (blast dest: set_takeWhileD)
  moreover have "takeWhile P (drop i s) ! k = s ! (i + k)"
    using k takeWhile_nth [of k P "drop i s"] length_takeWhile_le [of P "drop i s"]
    by (simp add: run_len_def)
  ultimately show ?thesis by simp
qed

lemma run_len_stop: "i + run_len P s i < length s \<Longrightarrow> \<not> P (s ! (i + run_len P s i))"
  using nth_length_takeWhile [of P "drop i s"] by (simp add: run_len_def)

lemma maximal_run_at:
  assumes "0 < run_len P s i" "i = 0 \<or> \<not> P (s ! (i - 1))"
  shows "maximal_run P s i j \<longleftrightarrow> j = i + run_len P s i"
proof
  have i: "i < length s" using assms(1) by (cases "i < length s") (auto simp: run_len_def)
  assume m: "maximal_run P s i j"
  have "\<not> j < i + run_len P s i"
  proof
    assume j: "j < i + run_len P s i"
    have ij: "i < j" "j = length s \<or> \<not> P (s ! j)" using m by (auto simp: maximal_run_def)
    with j have "j - i < run_len P s i" by linarith
    then have "P (s ! j)" using run_len_nth [of "j - i" P s i] ij by simp
    moreover have "j < length s" using j run_len_bound [of i s P] i by simp
    ultimately show False using ij by simp
  qed
  moreover have "\<not> i + run_len P s i < j"
    using m run_len_stop [of i P s] by (auto simp: maximal_run_def)
  ultimately show "j = i + run_len P s i" by simp
next
  have i: "i < length s" using assms(1) by (cases "i < length s") (auto simp: run_len_def)
  then have bound: "i + run_len P s i \<le> length s" by (intro run_len_bound) simp
  have nth: "P (s ! k)" if "i \<le> k" "k < i + run_len P s i" for k
    using run_len_nth [of "k - i" P s i] that by simp
  assume "j = i + run_len P s i"
  then show "maximal_run P s i j"
    using assms bound run_len_stop [of i P s] nth by (auto simp: maximal_run_def)
qed

lemma maximal_run_len: "maximal_run P s i j \<Longrightarrow> run_len P s i = j - i"
proof -
  assume m: "maximal_run P s i j"
  then have "0 < run_len P s i" by (subst run_len_step) (auto simp: maximal_run_def)
  then show ?thesis using m maximal_run_at [of P s i j] by (auto simp: maximal_run_def)
qed

lemma finditer_from_runs:
  assumes "0 < n"
  shows "i = 0 \<or> length s < i \<or> \<not> P (s ! (i - 1)) \<or> run_len P s i < n \<Longrightarrow>
    set (finditer_from (RRep n None (RChar P)) s i) =
      {(a, b). i \<le> a \<and> maximal_run P s a b \<and> n \<le> b - a}"
proof (induction "Suc (length s) - i" arbitrary: i rule: less_induct)
  case less
  let ?r = "RRep n None (RChar P)"
  consider "length s < i" | "i \<le> length s" "run_len P s i < n" | "i \<le> length s" "n \<le> run_len P s i"
    by linarith
  then show ?case
  proof cases
    case 1
    then show ?thesis by (subst finditer_from.simps) (auto simp: maximal_run_def)
  next
    case 2
    then have "ends ?r s i = []" by (simp add: ends_class_rep del: upt_Suc)
    with 2 have eq: "finditer_from ?r s i = finditer_from ?r s (i + 1)"
      by (subst finditer_from.simps) simp
    have "length s < i + 1 \<or> \<not> P (s ! i) \<or> run_len P s (i + 1) < n"
      using 2 run_len_step [of P s i] by (auto split: if_splits)
    then have "set (finditer_from ?r s (i + 1)) =
        {(a, b). i + 1 \<le> a \<and> maximal_run P s a b \<and> n \<le> b - a}"
      using less.hyps [of "i + 1"] 2 by fastforce
    moreover have "\<not> (maximal_run P s i b \<and> n \<le> b - i)" for b
      using 2 maximal_run_len [of P s i b] by auto
    then have "i + 1 \<le> a \<and> maximal_run P s a b \<and> n \<le> b - a \<longleftrightarrow>
        i \<le> a \<and> maximal_run P s a b \<and> n \<le> b - a" for a b
      by (metis Suc_eq_plus1 Suc_leD Suc_leI le_neq_implies_less)
    ultimately show ?thesis using eq by simp
  next
    case 3
    let ?j = "i + run_len P s i"
    have start: "i = 0 \<or> \<not> P (s ! (i - 1))" using less.prems 3 by auto
    have pos: "0 < run_len P s i" using 3 assms by simp
    have "ends ?r s i = ?j # rev [i + n..<?j]" using 3 by (simp add: ends_class_rep)
    with 3 pos have eq: "finditer_from ?r s i = (i, ?j) # finditer_from ?r s ?j"
      by (subst finditer_from.simps) simp
    have "run_len P s ?j < n"
      using run_len_stop [of i P s] assms by (subst run_len_step) auto
    then have fin: "set (finditer_from ?r s ?j) = {(a, b). ?j \<le> a \<and> maximal_run P s a b \<and> n \<le> b - a}"
      using less.hyps [of ?j] 3 pos by fastforce
    have "maximal_run P s i b \<longleftrightarrow> b = ?j" for b by (rule maximal_run_at [OF pos start])
    moreover have "\<not> maximal_run P s a b" if "i < a" "a < ?j" for a b
      using run_len_nth [of "a - 1 - i" P s i] that by (auto simp: maximal_run_def)
    ultimately have "i \<le> a \<and> maximal_run P s a b \<and> n \<le> b - a \<longleftrightarrow>
        (a, b) = (i, ?j) \<or> ?j \<le> a \<and> maximal_run P s a b \<and> n \<le> b - a" for a b
      using 3 pos by (cases "a = i"; cases "?j \<le> a") (auto simp: not_le, meson linorder_neqE_nat)
    with fin eq show ?thesis by auto
  qed
qed

lemma finditer_runs:
  "0 < n \<Longrightarrow> set (finditer (RRep n None (RChar P)) s) =
     {(a, b). maximal_run P s a b \<and> n \<le> b - a}"
  by (simp add: finditer_def finditer_from_runs)

section \<open>What is extracted\<close>

text \<open>A repetition of a body of fixed width \<open>w\<close>.\<close>

lemma ends_rep_fixed:
  assumes body: "\<And>i j. j \<in> set (ends r s i) \<Longrightarrow> j = i + w \<and> Q i"
  shows "j \<in> set (ends (RRep m M r) s i) \<Longrightarrow>
    \<exists>k. m \<le> k \<and> j = i + k * w \<and> (\<forall>l < k. Q (i + l * w))"
proof (induction "length s - i" arbitrary: i m M rule: less_induct)
  case less
  show ?case
  proof (cases "j = i \<and> m = 0")
    case True
    then show ?thesis by (intro exI [of _ 0]) simp
  next
    case False
    with less.prems obtain h where h: "h \<in> set (ends r s i)" "i < h" "h \<le> length s"
      "j \<in> set (ends (RRep (m - 1) (map_option (\<lambda>k. k - 1) M) r) s h)"
      by (subst (asm) ends.simps(5)) (auto split: if_splits)
    from body [OF h(1)] have hw: "h = i + w" "Q i" by simp_all
    have "length s - h < length s - i" using h(2,3) by simp
    from less.hyps [OF this h(4)] obtain k where
      k: "m - 1 \<le> k" "j = h + k * w" "\<forall>l < k. Q (h + l * w)" by blast
    have "Q (i + l * w)" if "l < Suc k" for l
      using that k(3) hw by (cases l) (simp_all add: algebra_simps)
    with k hw show ?thesis by (intro exI [of _ "Suc k"]) auto
  qed
qed

lemma finditer_from_ends:
  "(a, b) \<in> set (finditer_from r s i) \<Longrightarrow> b \<in> set (ends r s a) \<and> i \<le> a \<and> a < b \<and> a \<le> length s"
proof (induction r s i rule: finditer_from.induct)
  case (1 r s i)
  show ?case
  proof (cases "i > length s")
    case True
    with "1.prems" show ?thesis by (subst (asm) finditer_from.simps) simp
  next
    case False
    show ?thesis
    proof (cases "ends r s i")
      case Nil
      with "1.prems" False have "(a, b) \<in> set (finditer_from r s (i + 1))"
        by (subst (asm) finditer_from.simps) simp
      from "1.IH"(1) [OF False Nil this] show ?thesis by simp
    next
      case (Cons j js)
      show ?thesis
      proof (cases "i < j")
        case True
        with "1.prems" False Cons have "(a, b) = (i, j) \<or> (a, b) \<in> set (finditer_from r s j)"
          by (subst (asm) finditer_from.simps) simp
        then show ?thesis
          using "1.IH"(2) [OF False Cons True] True Cons False by auto
      next
        case nlt: False
        with "1.prems" False Cons have "(a, b) \<in> set (finditer_from r s (i + 1))"
          by (subst (asm) finditer_from.simps) simp
        from "1.IH"(3) [OF False Cons nlt this] show ?thesis by simp
      qed
    qed
  qed
qed

lemma match_text_ends:
  "t \<in> set (match_texts r data) \<Longrightarrow>
   \<exists>a b. t = slice data a b \<and> b \<in> set (ends r data a) \<and> a \<le> length data \<and> b \<le> length data"
proof -
  assume "t \<in> set (match_texts r data)"
  then obtain a b where ab: "(a, b) \<in> set (finditer_from r data 0)" "t = slice data a b"
    by (auto simp: match_texts_def finditer_def)
  from finditer_from_ends [OF ab(1)] ends_bounds [of a data b r] ab(2) show ?thesis by blast
qed

lemma decode_pairs:
  "b \<le> length d \<Longrightarrow> b = a + 2 * k \<Longrightarrow>
   decode_utf16le (slice d a b) = map (\<lambda>l. d ! (a + 2 * l)) [0..<k] \<and>
   decode_utf16be (slice d a b) = map (\<lambda>l. d ! (a + 2 * l + 1)) [0..<k]"
proof (induction k arbitrary: a)
  case (Suc k)
  then have "slice d a b = d ! a # d ! (a + 1) # slice d (a + 2) b"
    by (simp add: slice_def Cons_nth_drop_Suc [symmetric] take_Cons')
  then show ?case using Suc.IH [of "a + 2"] Suc.prems
    by (simp add: upt_conv_Cons map_Suc_upt [symmetric] del: upt_Suc)
qed (simp add: slice_def)

definition good_string :: "nat \<Rightarrow> string \<Rightarrow> bool" where
  "good_string n s \<longleftrightarrow> n \<le> length s \<and> (\<forall>c \<in> set s. is_printable c)"

lemma ascii_good: "t \<in> set (match_texts (ascii_re n) d) \<Longrightarrow> good_string n t"
proof -
  assume "t \<in> set (match_texts (ascii_re n) d)"
  then obtain a b where t: "t = slice d a b" "b \<in> set (ends (ascii_re n) d a)" "b \<le> length d"
    by (blast dest: match_text_ends)
  have "\<exists>k \<ge> n. b = a + k * 1 \<and> (\<forall>l < k. is_printable (d ! (a + l * 1)))"
    using t(2) unfolding ascii_re_def by (intro ends_rep_fixed) (auto split: if_splits)
  then show ?thesis using t(1,3) by (auto simp: good_string_def slice_def in_set_conv_nth)
qed

lemma utf16le_good: "t \<in> set (match_texts (utf16le_re n) d) \<Longrightarrow> good_string n (decode_utf16le t)"
proof -
  assume "t \<in> set (match_texts (utf16le_re n) d)"
  then obtain a b where t: "t = slice d a b" "b \<in> set (ends (utf16le_re n) d a)" "b \<le> length d"
    by (blast dest: match_text_ends)
  have "\<exists>k \<ge> n. b = a + k * 2 \<and> (\<forall>l < k. is_printable (d ! (a + l * 2)))"
    using t(2) unfolding utf16le_re_def by (intro ends_rep_fixed) (auto split: if_splits)
  then show ?thesis using t(1,3) decode_pairs [of b d a]
    by (auto simp: good_string_def mult.commute)
qed

lemma utf16be_good: "t \<in> set (match_texts (utf16be_re n) d) \<Longrightarrow> good_string n (decode_utf16be t)"
proof -
  assume "t \<in> set (match_texts (utf16be_re n) d)"
  then obtain a b where t: "t = slice d a b" "b \<in> set (ends (utf16be_re n) d a)" "b \<le> length d"
    by (blast dest: match_text_ends)
  have "\<exists>k \<ge> n. b = a + k * 2 \<and> (\<forall>l < k. is_printable (d ! (a + l * 2 + 1)))"
    using t(2) unfolding utf16be_re_def by (intro ends_rep_fixed) (auto split: if_splits)
  then show ?thesis using t(1,3) decode_pairs [of b d a]
    by (auto simp: good_string_def mult.commute)
qed

lemma foldl_add_string:
  "set (foldl (\<lambda>acc s. add_string s acc) acc xs) = set acc \<union> (set xs - {[]}) \<and>
   (distinct acc \<longrightarrow> distinct (foldl (\<lambda>acc s. add_string s acc) acc xs))"
  by (induction xs arbitrary: acc) (auto simp: add_string_def)

lemma set_extract_strings:
  "set (extract_strings n d) =
     (set (match_texts (ascii_re n) d) \<union> decode_utf16le ` set (match_texts (utf16le_re n) d) \<union>
      decode_utf16be ` set (match_texts (utf16be_re n) d)) - {[]}"
  by (simp add: extract_strings_def Let_def foldl_add_string Un_Diff)

lemma distinct_extract_strings: "distinct (extract_strings n d)"
  by (simp add: extract_strings_def Let_def foldl_add_string)

lemma extract_strings_good: "s \<in> set (extract_strings n d) \<Longrightarrow> good_string n s"
  using ascii_good utf16le_good utf16be_good unfolding set_extract_strings by blast



section \<open>What the scanners report\<close>

lemma set_offer_version:
  "set (foldl (offer_version s) out pats) =
     set out \<union> {(v, p, ver). \<exists>b g. (v, p, b, g) \<in> set pats \<and> group1 b g s = Some ver}"
proof (induction pats arbitrary: out)
  case (Cons pat pats)
  obtain v p b g where pat: "pat = (v, p, b, g)" by (cases pat)
  have step: "set (offer_version s out pat) = set out \<union> {x. \<exists>ver. x = (v, p, ver) \<and> group1 b g s = Some ver}"
    by (auto simp: offer_version_def pat split: option.splits)
  show ?case by (simp add: Cons.IH step) (auto simp: pat)
qed auto

lemma distinct_offer_version:
  "distinct out \<Longrightarrow> distinct (foldl (offer_version s) out pats)"
proof (induction pats arbitrary: out)
  case (Cons pat pats)
  have "distinct (offer_version s out pat)"
    using Cons.prems by (simp add: offer_version_def split: prod.splits option.splits)
  then show ?case by (simp add: Cons.IH)
qed simp

text \<open>
  The version candidates are without duplicates and are exactly the (vendor, product,
  version) triples some pattern of the table captures in some string.
\<close>

theorem find_version_candidates_spec:
  "distinct (find_version_candidates strings) \<and>
   set (find_version_candidates strings) =
     {(vendor, product, version). \<exists>s \<in> set strings. \<exists>before grp.
        (vendor, product, before, grp) \<in> set VERSION_PATTERNS \<and> group1 before grp s = Some version}"
proof -
  have "set (foldl (\<lambda>out s. foldl (offer_version s) out VERSION_PATTERNS) acc strings) = set acc \<union>
     {(v, p, ver). \<exists>s \<in> set strings. \<exists>b g. (v, p, b, g) \<in> set VERSION_PATTERNS \<and> group1 b g s = Some ver}"
    for acc
    by (induction strings arbitrary: acc) (auto simp: set_offer_version)
  moreover have "distinct acc \<Longrightarrow>
      distinct (foldl (\<lambda>out s. foldl (offer_version s) out VERSION_PATTERNS) acc strings)" for acc
    by (induction strings arbitrary: acc) (auto simp: distinct_offer_version)
  ultimately show ?thesis by (simp add: find_version_candidates_def)
qed

text \<open>
  The secret pass reports, for every string and every pattern that occurs in it, the
  pattern's type with at most the first 200 characters of the string, and nothing else.
\<close>

theorem scan_strings_spec:
  "(t, c) \<in> set (scan_strings strings) \<longleftrightarrow>
     (\<exists>s \<in> set strings. \<exists>r. (t, r) \<in> set SECRET_PATTERNS \<and> search r s \<noteq> None \<and> c = take 200 s)"
proof -
  have "truncate_context s = take 200 s" for s
    by (simp add: truncate_context_def CONTEXT_MAX_def)
  then have "scan_strings strings = concat (map (\<lambda>s. map (\<lambda>(t, _). (t, take 200 s))
      (filter (\<lambda>(_, r). search r s \<noteq> None) SECRET_PATTERNS)) strings)"
    by (simp only: scan_strings_def)
  then show ?thesis by (auto simp: image_iff)
qed

end
