(* ===== verification/Hardening.thy ===== *)
theory Hardening
  imports StringScan
begin

unbundle bit_operations_syntax

text \<open>
  Binary hardening flags (\<open>services/static_analysis/hardening.py\<close>): the ELF header, the
  program-header loop and the walk of the dynamic section, with \<open>struct.unpack_from\<close> as a
  read that fails beyond the end of the data. The lemmas show that the parser's failures
  are the two exceptions the caller catches, so that a verdict is returned for every input,
  and what the walk of the dynamic section decides.
\<close>

section \<open>struct.unpack_from\<close>

fun be_value :: "bytes \<Rightarrow> nat" where
  "be_value [] = 0"
| "be_value (b # bs) = ord b * 256 ^ length bs + be_value bs"

definition unpack_uint :: "bool \<Rightarrow> nat \<Rightarrow> bytes \<Rightarrow> nat \<Rightarrow> nat result" where
  "unpack_uint little n data off =
     (if off + n \<le> length data
      then Inr (be_value (if little then rev (take n (drop off data)) else take n (drop off data)))
      else Inl StructError)"

definition unpack_sint :: "bool \<Rightarrow> nat \<Rightarrow> bytes \<Rightarrow> nat \<Rightarrow> int result" where
  "unpack_sint little n data off =
     rbind (unpack_uint little n data off)
       (\<lambda>v. Inr (if v < 2 ^ (8 * n - 1) then int v else int v - 2 ^ (8 * n)))"

definition byte_at :: "bytes \<Rightarrow> nat \<Rightarrow> nat result" where
  "byte_at data i = (if i < length data then Inr (ord (data ! i)) else Inl IndexError)"

section \<open>Constants\<close>

definition PT_DYNAMIC :: nat where "PT_DYNAMIC = 0x2"
definition PT_GNU_STACK :: nat where "PT_GNU_STACK = 0x6474E551"
definition PT_GNU_RELRO :: nat where "PT_GNU_RELRO = 0x6474E552"
definition PF_X :: nat where "PF_X = 0x1"
definition ET_DYN :: nat where "ET_DYN = 3"
definition DT_BIND_NOW :: int where "DT_BIND_NOW = 24"
definition DT_FLAGS :: int where "DT_FLAGS = 30"
definition DT_FLAGS_1 :: int where "DT_FLAGS_1 = 0x6FFFFFFB"
definition DF_BIND_NOW :: nat where "DF_BIND_NOW = 0x8"
definition DF_1_NOW :: nat where "DF_1_NOW = 0x1"
definition CANARY_SYMBOL :: string where "CANARY_SYMBOL = ''__stack_chk_fail''"

record hardening =
  hf_nx :: bool
  hf_pie :: bool
  hf_relro :: string
  hf_canary :: bool

definition DEFAULT_FLAGS :: hardening where
  "DEFAULT_FLAGS = \<lparr>hf_nx = False, hf_pie = False, hf_relro = ''none'', hf_canary = False\<rparr>"

definition is_elf :: "bytes \<Rightarrow> bool" where
  "is_elf data = (4 \<le> length data \<and> take 4 data = [CHR 0x7F, CHR ''E'', CHR ''L'', CHR ''F''])"

section \<open>The dynamic section\<close>

definition entry_size :: "bool \<Rightarrow> nat" where
  "entry_size is64 = (if is64 then 16 else 8)"

definition dyn_entry :: "bytes \<Rightarrow> bool \<Rightarrow> bool \<Rightarrow> nat \<Rightarrow> (int \<times> nat) result" where
  "dyn_entry data little is64 pos =
     rbind (unpack_sint little (if is64 then 8 else 4) data pos) (\<lambda>d_tag.
     rbind (unpack_uint little (if is64 then 8 else 4) data (pos + (if is64 then 8 else 4))) (\<lambda>d_val.
     Inr (d_tag, d_val)))"

definition binds_now :: "int \<times> nat \<Rightarrow> bool" where
  "binds_now e =
     (fst e = DT_BIND_NOW \<or>
      fst e = DT_FLAGS \<and> (snd e AND DF_BIND_NOW) \<noteq> 0 \<or>
      fst e = DT_FLAGS_1 \<and> (snd e AND DF_1_NOW) \<noteq> 0)"

function bind_now_loop :: "bytes \<Rightarrow> bool \<Rightarrow> bool \<Rightarrow> nat \<Rightarrow> nat \<Rightarrow> bool result" where
  "bind_now_loop data little is64 stop pos =
     (if pos + entry_size is64 \<le> stop
      then rbind (dyn_entry data little is64 pos) (\<lambda>e.
             if fst e = 0 then Inr False
             else if binds_now e then Inr True
             else bind_now_loop data little is64 stop (pos + entry_size is64))
      else Inr False)"
  by pat_completeness auto
termination
  by (relation "measure (\<lambda>(data, little, is64, stop, pos). stop - pos)") (auto simp: entry_size_def)

declare bind_now_loop.simps [simp del]

definition has_bind_now :: "bytes \<Rightarrow> nat \<times> nat \<Rightarrow> bool \<Rightarrow> bool \<Rightarrow> bool result" where
  "has_bind_now data dyn_segment little is64 =
     (case dyn_segment of (offset, filesz) \<Rightarrow>
        bind_now_loop data little is64 (min (offset + filesz) (length data)) offset)"

section \<open>Program headers\<close>

record ph_state =
  ph_nx :: bool
  ph_relro :: string
  ph_dyn :: "(nat \<times> nat) option"

record phdr =
  p_type :: nat
  p_flags :: nat
  p_offset :: nat
  p_filesz :: nat

definition read_phdr :: "bytes \<Rightarrow> bool \<Rightarrow> bool \<Rightarrow> nat \<Rightarrow> phdr result" where
  "read_phdr data little is64 base =
     (if is64
      then rbind (unpack_uint little 4 data base) (\<lambda>t.
           rbind (unpack_uint little 4 data (base + 4)) (\<lambda>f.
           rbind (unpack_uint little 8 data (base + 8)) (\<lambda>off.
           rbind (unpack_uint little 8 data (base + 32)) (\<lambda>sz.
           Inr \<lparr>p_type = t, p_flags = f, p_offset = off, p_filesz = sz\<rparr>))))
      else rbind (unpack_uint little 4 data base) (\<lambda>t.
           rbind (unpack_uint little 4 data (base + 4)) (\<lambda>off.
           rbind (unpack_uint little 4 data (base + 16)) (\<lambda>sz.
           rbind (unpack_uint little 4 data (base + 24)) (\<lambda>f.
           Inr \<lparr>p_type = t, p_flags = f, p_offset = off, p_filesz = sz\<rparr>)))))"

definition see_phdr :: "phdr \<Rightarrow> ph_state \<Rightarrow> ph_state" where
  "see_phdr h st =
     (if p_type h = PT_GNU_STACK then st\<lparr>ph_nx := \<not> ((p_flags h AND PF_X) \<noteq> 0)\<rparr>
      else if p_type h = PT_GNU_RELRO then st\<lparr>ph_relro := ''partial''\<rparr>
      else if p_type h = PT_DYNAMIC then st\<lparr>ph_dyn := Some (p_offset h, p_filesz h)\<rparr>
      else st)"

text \<open>\<open>for i in range(e_phnum)\<close>, with \<open>k\<close> iterations left; a header that does not fit ends it.\<close>

fun phdr_loop :: "bytes \<Rightarrow> bool \<Rightarrow> bool \<Rightarrow> nat \<Rightarrow> nat \<Rightarrow> nat \<Rightarrow> ph_state \<Rightarrow> ph_state result" where
  "phdr_loop data little is64 phentsize base 0 st = Inr st"
| "phdr_loop data little is64 phentsize base (Suc k) st =
     (if base + phentsize > length data then Inr st
      else rbind (read_phdr data little is64 base) (\<lambda>h.
             phdr_loop data little is64 phentsize (base + phentsize) k (see_phdr h st)))"

definition upgrade_relro :: "bytes \<Rightarrow> bool \<Rightarrow> bool \<Rightarrow> ph_state \<Rightarrow> string result" where
  "upgrade_relro data little is64 st =
     (case ph_dyn st of
        None \<Rightarrow> Inr (ph_relro st)
      | Some seg \<Rightarrow>
          if ph_relro st = ''partial''
          then rbind (has_bind_now data seg little is64)
                 (\<lambda>b. Inr (if b then ''full'' else ph_relro st))
          else Inr (ph_relro st))"

definition parse_elf :: "bytes \<Rightarrow> bool \<Rightarrow> hardening result" where
  "parse_elf data canary =
     rbind (byte_at data 4) (\<lambda>ei_class.
     rbind (byte_at data 5) (\<lambda>ei_data.
     (let little = (ei_data = 1); is64 = (ei_class = 2)
      in rbind (unpack_uint little 2 data 16) (\<lambda>e_type.
         rbind (if is64 then unpack_uint little 8 data 32 else unpack_uint little 4 data 28) (\<lambda>e_phoff.
         rbind (unpack_uint little 2 data (if is64 then 54 else 42)) (\<lambda>e_phentsize.
         rbind (unpack_uint little 2 data (if is64 then 56 else 44)) (\<lambda>e_phnum.
         rbind (phdr_loop data little is64 e_phentsize e_phoff e_phnum
                  \<lparr>ph_nx = False, ph_relro = ''none'', ph_dyn = None\<rparr>) (\<lambda>st.
         rbind (upgrade_relro data little is64 st) (\<lambda>relro.
         Inr \<lparr>hf_nx = ph_nx st, hf_pie = (e_type = ET_DYN), hf_relro = relro, hf_canary = canary\<rparr>)))))))))"

definition analyze_hardening :: "bytes \<Rightarrow> string list \<Rightarrow> hardening result" where
  "analyze_hardening data strings =
     (let canary = list_ex (\<lambda>s. contains_str CANARY_SYMBOL s) strings
      in if \<not> is_elf data then Inr (DEFAULT_FLAGS\<lparr>hf_canary := canary\<rparr>)
         else case parse_elf data canary of
                Inr flags \<Rightarrow> Inr flags
              | Inl e \<Rightarrow>
                  (case e of
                     StructError \<Rightarrow> Inr (DEFAULT_FLAGS\<lparr>hf_canary := canary\<rparr>)
                   | IndexError \<Rightarrow> Inr (DEFAULT_FLAGS\<lparr>hf_canary := canary\<rparr>)
                   | ValueError _ \<Rightarrow> Inr (DEFAULT_FLAGS\<lparr>hf_canary := canary\<rparr>)
                   | e \<Rightarrow> Inl e))"

definition hardening_json :: "hardening \<Rightarrow> json" where
  "hardening_json h =
     JObj [(''nx'', JBool (hf_nx h)), (''pie'', JBool (hf_pie h)), (''relro'', JStr (hf_relro h)),
           (''canary'', JBool (hf_canary h))]"

section \<open>Failures\<close>

text \<open>The exceptions that reading fixed-width fields can raise.\<close>

definition read_error :: "exn \<Rightarrow> bool" where
  "read_error e \<longleftrightarrow> e = StructError \<or> e = IndexError"

definition only_reads :: "'a result \<Rightarrow> bool" where
  "only_reads r \<longleftrightarrow> (\<forall>e. r = Inl e \<longrightarrow> read_error e)"

lemma only_reads_Inr [simp]: "only_reads (Inr x)"
  by (simp add: only_reads_def)

lemma only_reads_rbind [intro]:
  "only_reads r \<Longrightarrow> (\<And>x. r = Inr x \<Longrightarrow> only_reads (f x)) \<Longrightarrow> only_reads (rbind r f)"
  by (auto simp: only_reads_def rbind_def split: sum.splits)

lemma only_reads_fields [simp]:
  "only_reads (unpack_uint little n data off)"
  "only_reads (unpack_sint little n data off)"
  "only_reads (byte_at data i)"
  "only_reads (dyn_entry data little is64 pos)"
  "only_reads (read_phdr data little is64 base)"
  by (auto simp: only_reads_def read_error_def unpack_uint_def unpack_sint_def byte_at_def
      dyn_entry_def read_phdr_def rbind_def split: sum.splits if_splits)

lemma only_reads_bind_now: "only_reads (bind_now_loop data little is64 stop pos)"
proof (induction data little is64 stop pos rule: bind_now_loop.induct)
  case (1 data little is64 stop pos)
  show ?case
  proof (subst bind_now_loop.simps, split if_split, intro conjI impI only_reads_rbind)
    fix e
    assume e: "pos + entry_size is64 \<le> stop" "dyn_entry data little is64 pos = Inr e"
    show "only_reads (if fst e = 0 then Inr False else if binds_now e then Inr True
        else bind_now_loop data little is64 stop (pos + entry_size is64))"
      using 1 [OF e(1), of e] by simp
  qed simp_all
qed

lemma only_reads_phdrs: "only_reads (phdr_loop data little is64 phentsize base k st)"
  by (induction data little is64 phentsize base k st rule: phdr_loop.induct) auto

lemma only_reads_upgrade: "only_reads (upgrade_relro data little is64 st)"
  by (auto simp: upgrade_relro_def has_bind_now_def only_reads_bind_now split: option.splits)

lemma only_reads_parse: "only_reads (parse_elf data canary)"
  unfolding parse_elf_def Let_def
  by (intro only_reads_rbind) (auto simp: only_reads_phdrs only_reads_upgrade)

lemma phdr_loop_relro:
  "phdr_loop data little is64 phentsize base k st = Inr st' \<Longrightarrow>
   ph_relro st \<in> {''none'', ''partial''} \<Longrightarrow> ph_relro st' \<in> {''none'', ''partial''}"
proof (induction data little is64 phentsize base k st rule: phdr_loop.induct)
  case (2 data little is64 phentsize base k st)
  have "ph_relro st \<in> {''none'', ''partial''} \<Longrightarrow> ph_relro (see_phdr h st) \<in> {''none'', ''partial''}" for h
    by (simp add: see_phdr_def)
  with 2 show ?case by (auto split: if_splits)
qed simp

lemma upgrade_relro_values:
  "upgrade_relro data little is64 st = Inr r \<Longrightarrow> r = ph_relro st \<or> r = ''full''"
  by (auto simp: upgrade_relro_def split: option.splits if_splits)

lemma parse_elf_relro:
  "parse_elf data canary = Inr h \<Longrightarrow> hf_relro h \<in> {''none'', ''partial'', ''full''} \<and> hf_canary h = canary"
  by (auto simp: parse_elf_def Let_def dest!: phdr_loop_relro upgrade_relro_values)

lemma analyze_hardening_exists: "\<exists>h. analyze_hardening data strings = Inr h"
proof -
  let ?canary = "list_ex (\<lambda>s. contains_str CANARY_SYMBOL s) strings"
  have "\<And>e. parse_elf data ?canary = Inl e \<Longrightarrow> read_error e"
    using only_reads_parse by (auto simp: only_reads_def)
  then show ?thesis
    by (cases "parse_elf data ?canary") (auto simp: analyze_hardening_def Let_def read_error_def)
qed

text \<open>
  Hardening analysis returns a verdict for every blob, truncated or hostile headers
  included: no exception escapes; the RELRO value is one of the three of the contract, and
  the canary flag is decided by the extracted strings alone.
\<close>

theorem analyze_hardening_total:
  "\<exists>h. analyze_hardening data strings = Inr h \<and> hf_relro h \<in> {''none'', ''partial'', ''full''} \<and>
     hf_canary h = (\<exists>s \<in> set strings. contains_str CANARY_SYMBOL s) \<and>
     (\<not> is_elf data \<longrightarrow> \<not> hf_nx h \<and> \<not> hf_pie h \<and> hf_relro h = ''none'')"
proof -
  let ?canary = "list_ex (\<lambda>s. contains_str CANARY_SYMBOL s) strings"
  have canary: "?canary = (\<exists>s \<in> set strings. contains_str CANARY_SYMBOL s)" by (simp add: list_ex_iff)
  show ?thesis
  proof (cases "parse_elf data ?canary")
    case (Inl e)
    then have "read_error e" using only_reads_parse by (auto simp: only_reads_def)
    then show ?thesis
      using Inl canary by (auto simp: analyze_hardening_def Let_def DEFAULT_FLAGS_def read_error_def)
  next
    case (Inr h)
    then show ?thesis
      using parse_elf_relro [OF Inr] canary
      by (auto simp: analyze_hardening_def Let_def DEFAULT_FLAGS_def)
  qed
qed

section \<open>What the dynamic section decides\<close>

lemma bind_now_loop_step:
  "bind_now_loop data little is64 stop pos = Inr True \<longleftrightarrow>
   pos + entry_size is64 \<le> stop \<and>
   (\<exists>e. dyn_entry data little is64 pos = Inr e \<and> fst e \<noteq> 0 \<and>
      (binds_now e \<or> bind_now_loop data little is64 stop (pos + entry_size is64) = Inr True))"
  by (subst bind_now_loop.simps) auto

lemma bind_now_loop_iff:
  "bind_now_loop data little is64 stop pos = Inr True \<longleftrightarrow>
   (\<exists>k e. pos + (k + 1) * entry_size is64 \<le> stop \<and>
      dyn_entry data little is64 (pos + k * entry_size is64) = Inr e \<and> fst e \<noteq> 0 \<and> binds_now e \<and>
      (\<forall>l < k. \<exists>e. dyn_entry data little is64 (pos + l * entry_size is64) = Inr e \<and> fst e \<noteq> 0))"
  (is "?L pos \<longleftrightarrow> ?R pos")
proof (induction "stop - pos" arbitrary: pos rule: less_induct)
  case less
  let ?n = "entry_size is64"
  have n: "0 < ?n" by (simp add: entry_size_def)
  show ?case
  proof
    assume L: "?L pos"
    then obtain e where e: "pos + ?n \<le> stop" "dyn_entry data little is64 pos = Inr e" "fst e \<noteq> 0"
      "binds_now e \<or> ?L (pos + ?n)" by (subst (asm) bind_now_loop_step) blast
    from e(4) show "?R pos"
    proof
      assume "binds_now e"
      with e show ?thesis by (intro exI [of _ 0] exI [of _ e]) simp
    next
      assume "?L (pos + ?n)"
      moreover have "stop - (pos + ?n) < stop - pos" using e(1) n by simp
      ultimately have "?R (pos + ?n)" using less by blast
      then obtain k f where k: "pos + ?n + (k + 1) * ?n \<le> stop"
        "dyn_entry data little is64 (pos + ?n + k * ?n) = Inr f" "fst f \<noteq> 0" "binds_now f"
        "\<forall>l < k. \<exists>e. dyn_entry data little is64 (pos + ?n + l * ?n) = Inr e \<and> fst e \<noteq> 0" by blast
      have "\<exists>e. dyn_entry data little is64 (pos + l * ?n) = Inr e \<and> fst e \<noteq> 0" if "l < Suc k" for l
        using that k(5) e by (cases l) (auto simp: add.assoc)
      with k show ?thesis by (intro exI [of _ "Suc k"] exI [of _ f]) (auto simp: add.assoc)
    qed
  next
    assume "?R pos"
    then obtain k e where k: "pos + (k + 1) * ?n \<le> stop"
      "dyn_entry data little is64 (pos + k * ?n) = Inr e" "fst e \<noteq> 0" "binds_now e"
      "\<forall>l < k. \<exists>e. dyn_entry data little is64 (pos + l * ?n) = Inr e \<and> fst e \<noteq> 0" by blast
    show "?L pos"
    proof (cases k)
      case 0
      with k show ?thesis by (subst bind_now_loop_step) auto
    next
      case (Suc m)
      have le: "pos + ?n \<le> stop" using k(1) Suc by simp
      then have dec: "stop - (pos + ?n) < stop - pos" using n by simp
      have "?R (pos + ?n)"
        using k Suc by (intro exI [of _ m] exI [of _ e]) (auto simp: add.assoc)
      then have "?L (pos + ?n)" using less.hyps [OF dec] by blast
      moreover have "\<exists>e. dyn_entry data little is64 pos = Inr e \<and> fst e \<noteq> 0" using k(5) Suc by force
      ultimately show ?thesis using le by (subst bind_now_loop_step) blast
    qed
  qed
qed

text \<open>
  The walk of the dynamic section answers yes exactly when some complete entry within
  the segment and the file requests immediate binding and no entry before it is the
  terminating null; bytes after the terminator or beyond either bound never count.
\<close>

theorem has_bind_now_spec:
  "has_bind_now data (off, filesz) little is64 = Inr True \<longleftrightarrow>
   (\<exists>k e. off + (k + 1) * entry_size is64 \<le> min (off + filesz) (length data) \<and>
      dyn_entry data little is64 (off + k * entry_size is64) = Inr e \<and> fst e \<noteq> 0 \<and> binds_now e \<and>
      (\<forall>l < k. \<exists>e. dyn_entry data little is64 (off + l * entry_size is64) = Inr e \<and> fst e \<noteq> 0))"
  unfolding has_bind_now_def by (simp only: case_prod_conv bind_now_loop_iff)

definition sample_dynamic :: bytes where
  "sample_dynamic =
     [CHR 0x18, CHR 0x00, CHR 0x00, CHR 0x00, CHR 0x00, CHR 0x00, CHR 0x00, CHR 0x00,
      CHR 0x01, CHR 0x00, CHR 0x00, CHR 0x00, CHR 0x00, CHR 0x00, CHR 0x00, CHR 0x00]"

lemma sample_dynamic_entry: "dyn_entry sample_dynamic True True 0 = Inr (24, 1)"
  by (simp add: sample_dynamic_def dyn_entry_def unpack_sint_def unpack_uint_def)

theorem has_bind_now_spec_witness: "has_bind_now sample_dynamic (0, 16) True True = Inr True"
proof -
  have "length sample_dynamic = 16" by (simp add: sample_dynamic_def)
  then show ?thesis
    by (subst has_bind_now_spec, intro exI [of _ 0])
      (simp add: sample_dynamic_entry entry_size_def binds_now_def DT_BIND_NOW_def)
qed

theorem analyze_hardening_total_witness:
  "\<exists>h. analyze_hardening ''MZ'' [''uses __stack_chk_fail here''] = Inr h \<and> hf_canary h \<and> \<not> hf_nx h \<and> \<not> hf_pie h"
proof -
  have "contains_str CANARY_SYMBOL ''uses __stack_chk_fail here''" by code_simp
  moreover have "\<not> is_elf ''MZ''" by (simp add: is_elf_def)
  ultimately show ?thesis
    using analyze_hardening_total [of "''MZ''" "[''uses __stack_chk_fail here'']"] by auto
qed

end
