(* ===== verification/StaticAnalysis.thy ===== *)
theory StaticAnalysis
  imports Hardening Events
begin

text \<open>
  Section entropy (\<open>services/static_analysis/entropy.py\<close>) and the orchestration of the stage
  (\<open>analyze.py\<close>). \<open>math.log2\<close> is a parameter; the one fact used of it is that the logarithm
  of a number of (0, 1] is not positive. The main result: whatever the blob, the assembled
  payload is accepted by the \<open>firmware.analyzed\<close> contract.
\<close>

section \<open>entropy.py\<close>

definition SECTION_SIZE :: nat where "SECTION_SIZE = 64 * 1024"
definition PACKED_THRESHOLD :: pyfloat where "PACKED_THRESHOLD = flit 72 10"
definition MAX_SECTIONS :: nat where "MAX_SECTIONS = 4096"

definition shannon_entropy :: "(pyfloat \<Rightarrow> pyfloat) \<Rightarrow> bytes \<Rightarrow> pyfloat" where
  "shannon_entropy log2 chunk =
     (if chunk = [] then 0
      else
        let n = of_nat (length chunk);
            summand = (\<lambda>c. fmul (fdiv (of_int c) n) (log2 (fdiv (of_int c) n)))
        in - foldl (\<lambda>acc c. fadd acc (summand c)) 0 (map snd (tally chunk)))"

record entropy_section =
  es_offset :: nat
  es_entropy :: pyfloat
  es_packed :: bool

definition entropy_of_section ::
  "(pyfloat \<Rightarrow> pyfloat) \<Rightarrow> pyfloat \<Rightarrow> nat \<Rightarrow> bytes \<Rightarrow> entropy_section" where
  "entropy_of_section log2 threshold i chunk =
     (let h = shannon_entropy log2 chunk
      in \<lparr>es_offset = i, es_entropy = py_round (min h 8) 4, es_packed = (threshold \<le> h)\<rparr>)"

text \<open>\<open>for i in range(0, len(data), section_size)\<close>, with \<open>n\<close> sections collected so far.\<close>

function section_loop ::
  "(pyfloat \<Rightarrow> pyfloat) \<Rightarrow> bytes \<Rightarrow> nat \<Rightarrow> pyfloat \<Rightarrow> nat \<Rightarrow> nat \<Rightarrow> nat \<Rightarrow> entropy_section list" where
  "section_loop log2 data section_size threshold max_sections i n =
     (if i < length data \<and> 0 < section_size
      then (if n \<ge> max_sections then []
            else entropy_of_section log2 threshold i (take section_size (drop i data)) #
                 section_loop log2 data section_size threshold max_sections (i + section_size) (n + 1))
      else [])"
  by pat_completeness auto
termination
  by (relation "measure (\<lambda>(log2, data, sz, threshold, m, i, n). length data - i)") auto

declare section_loop.simps [simp del]

definition section_entropies :: "(pyfloat \<Rightarrow> pyfloat) \<Rightarrow> bytes \<Rightarrow> entropy_section list" where
  "section_entropies log2 data =
     section_loop log2 data SECTION_SIZE PACKED_THRESHOLD MAX_SECTIONS 0 0"

definition section_json :: "entropy_section \<Rightarrow> json" where
  "section_json s =
     JObj [(''offset'', JInt (int (es_offset s))), (''entropy'', JFloat (es_entropy s)),
           (''flagged_packed'', JBool (es_packed s))]"

section \<open>analyze.py\<close>

definition MAX_EMITTED_STRINGS :: nat where "MAX_EMITTED_STRINGS = 5000"

definition analyze :: "(pyfloat \<Rightarrow> pyfloat) \<Rightarrow> string \<Rightarrow> string \<Rightarrow> bytes \<Rightarrow> payload result" where
  "analyze log2 job_id sub_blob_id data =
     (let strings = extract_strings DEFAULT_MIN_LEN data;
          version_candidates = find_version_candidates strings;
          secrets_flagged = scan_strings strings;
          entropy_sections = section_entropies log2 data
      in rbind (analyze_hardening data strings) (\<lambda>hardening_flags.
         Inr [(''job_id'', JStr job_id),
              (''sub_blob_id'', JStr sub_blob_id),
              (''strings_found'', JList (map JStr (take MAX_EMITTED_STRINGS strings))),
              (''entropy_sections'', JList (map section_json entropy_sections)),
              (''version_candidates'', JList (map version_json version_candidates)),
              (''secrets_flagged'', JList (map secret_json secrets_flagged)),
              (''hardening_flags'', hardening_json hardening_flags)]))"

section \<open>Sections cover the blob\<close>

lemma section_loop_nth:
  assumes "0 < sz"
  shows "section_loop log2 data sz thr m i n =
    map (\<lambda>k. entropy_of_section log2 thr (i + k * sz) (take sz (drop (i + k * sz) data)))
      [0..<min (m - n) ((length data - i + sz - 1) div sz)]"
proof (induction "length data - i" arbitrary: i n rule: less_induct)
  case less
  show ?case
  proof (cases "i < length data \<and> n < m")
    case False
    then have "min (m - n) ((length data - i + sz - 1) div sz) = 0"
      using assms by (auto simp: not_less min_def div_less)
    then show ?thesis using False assms by (subst section_loop.simps) auto
  next
    case True
    let ?c = "\<lambda>i. (length data - i + sz - 1) div sz"
    have "?c i = Suc (?c (i + sz))"
    proof (cases "sz \<le> length data - i")
      case True
      then have "length data - i + sz - 1 = sz + (length data - (i + sz) + sz - 1)"
        using assms by linarith
      then show ?thesis using assms by (simp only: div_add_self1)
    next
      case small: False
      then have "?c i = (sz + (length data - i - 1)) div sz" using True by (simp add: add.commute)
      also have "\<dots> = 1 + (length data - i - 1) div sz" using assms by simp
      also have "\<dots> = 1" using small True by simp
      finally show ?thesis using small assms by simp
    qed
    moreover have "m - n = Suc (m - (n + 1))" using True by linarith
    ultimately have count: "min (m - n) (?c i) = Suc (min (m - (n + 1)) (?c (i + sz)))"
      by (simp only: min_Suc_Suc)
    have "length data - (i + sz) < length data - i" using True assms by linarith
    note IH = less [OF this, of "n + 1"]
    have step: "section_loop log2 data sz thr m i n =
        entropy_of_section log2 thr i (take sz (drop i data)) #
        section_loop log2 data sz thr m (i + sz) (n + 1)"
      using True assms by (subst section_loop.simps) simp
    show ?thesis
      by (simp only: step IH count map_upt_Suc mult_Suc mult_0 add_0_right add.assoc)
  qed
qed

lemma SECTION_SIZE_pos: "0 < SECTION_SIZE"
  by (simp add: SECTION_SIZE_def)

text \<open>
  The entropy sections tile the blob from offset 0 in steps of 64 KiB without a gap, one
  per started section, up to the cap of 4096; each is computed from exactly its own bytes.
\<close>

theorem section_entropies_spec:
  "section_entropies log2 data =
     map (\<lambda>k. entropy_of_section log2 PACKED_THRESHOLD (k * SECTION_SIZE)
                (take SECTION_SIZE (drop (k * SECTION_SIZE) data)))
       [0..<min MAX_SECTIONS ((length data + SECTION_SIZE - 1) div SECTION_SIZE)]"
  by (simp add: section_entropies_def section_loop_nth [OF SECTION_SIZE_pos])

section \<open>The analysis payload keeps its contract\<close>

definition log2_ok :: "(pyfloat \<Rightarrow> pyfloat) \<Rightarrow> bool" where
  "log2_ok log2 \<longleftrightarrow> (\<forall>x. 0 < x \<and> x \<le> 1 \<longrightarrow> log2 x \<le> 0)"

lemma shannon_entropy_nonneg:
  assumes "log2_ok log2"
  shows "0 \<le> shannon_entropy log2 chunk"
proof (cases "chunk = []")
  case False
  let ?n = "of_nat (length chunk) :: pyfloat"
  let ?t = "\<lambda>c. fmul (fdiv (of_int c) ?n) (log2 (fdiv (of_int c) ?n))"
  have n: "0 < ?n" using False by simp
  have counts: "0 < c \<and> of_int c \<le> ?n" if "c \<in> set (map snd (tally chunk))" for c
  proof -
    from that obtain b where "(b, c) \<in> set (tally chunk)" by auto
    then have "dget (tally chunk) b = Some c" by (rule map_of_is_SomeI [OF tally_distinct])
    then have c: "b \<in> set chunk" "c = int (count_list chunk b)"
      by (auto simp: tally_count split: if_splits)
    have "0 < count_list chunk b" using c(1) count_list_0_iff [of chunk b] by simp
    moreover have "count_list chunk b \<le> length chunk" by (rule count_le_length)
    ultimately show ?thesis by (simp add: c(2))
  qed
  have summand: "?t c \<le> 0" if "0 < c \<and> of_int c \<le> ?n" for c
  proof -
    have p: "0 < (of_int c :: pyfloat) / ?n" "of_int c / ?n \<le> 1" using that n by simp_all
    then have "0 < fdiv (of_int c) ?n" using fl_pos_positive [OF p(1)] p(1) by (simp add: fdiv_def fl_def del: zero_less_divide_iff divide_eq_0_iff)
    moreover have "fdiv (of_int c) ?n \<le> 1" using p(2) by (simp add: fdiv_def)
    ultimately have "log2 (fdiv (of_int c) ?n) \<le> 0" using assms by (simp add: log2_ok_def)
    then have "fdiv (of_int c) ?n * log2 (fdiv (of_int c) ?n) \<le> 0"
      using \<open>0 < fdiv (of_int c) ?n\<close> by (simp add: mult_nonneg_nonpos)
    then show ?thesis using fl_mono [of _ 0] by (simp add: fmul_def)
  qed
  have "acc \<le> 0 \<Longrightarrow> \<forall>c \<in> set cs. 0 < c \<and> of_int c \<le> ?n \<Longrightarrow>
      foldl (\<lambda>acc c. fadd acc (?t c)) acc cs \<le> 0" for acc :: pyfloat and cs
  proof (induction cs arbitrary: acc)
    case (Cons c cs)
    have "acc + ?t c \<le> 0" using Cons.prems summand [of c] by simp
    then have "fadd acc (?t c) \<le> 0" using fl_mono [of "acc + ?t c" 0] by (simp add: fadd_def)
    then show ?case using Cons by simp
  qed simp
  from this [of 0 "map snd (tally chunk)"] counts show ?thesis
    using False by (simp add: shannon_entropy_def Let_def)
qed (simp add: shannon_entropy_def)

lemma py_round_0 [simp]: "py_round 0 k = 0"
  by (simp add: py_round_def) (metis fl_0 mult_zero_left of_int_0 rne_of_int div_0)

lemma py_round_8_4: "py_round 8 4 = 8"
  by code_simp

lemma section_entropy_range:
  assumes "log2_ok log2" "s \<in> set (section_entropies log2 data)"
  shows "0 \<le> es_entropy s \<and> es_entropy s \<le> 8"
proof -
  obtain c i where s: "s = entropy_of_section log2 PACKED_THRESHOLD i c"
    using assms(2) by (auto simp: section_entropies_def section_loop_nth [OF SECTION_SIZE_pos])
  have "0 \<le> min (shannon_entropy log2 c) 8" using shannon_entropy_nonneg [OF assms(1)] by simp
  then have "py_round 0 4 \<le> py_round (min (shannon_entropy log2 c) 8) 4" by (rule py_round_mono)
  moreover have "py_round (min (shannon_entropy log2 c) 8) 4 \<le> py_round 8 4" by (rule py_round_mono) simp
  ultimately show ?thesis by (simp add: s entropy_of_section_def Let_def py_round_8_4)
qed

lemma validate_list_same:
  "(\<And>j. j \<in> set js \<Longrightarrow> validate C t j = Some j) \<Longrightarrow> validate C (TList t) (JList js) = Some (JList js)"
proof -
  assume "\<And>j. j \<in> set js \<Longrightarrow> validate C t j = Some j"
  then have "map (validate C t) js = map Some js" by simp
  then have "those (map (validate C t) js) = Some js" by (simp only: those_map_Some)
  then show ?thesis by simp
qed

lemma analyze_accepted:
  assumes "coercers_ok C" and "log2_ok log2"
  shows "\<exists>p. analyze log2 job_id sub_blob_id data = Inr p \<and>
    validate_payload C FIRMWARE_ANALYZED (JObj p) = Inr p \<and>
    jget p ''job_id'' = JStr job_id \<and> jget p ''sub_blob_id'' = JStr sub_blob_id"
proof -
  let ?strings = "extract_strings DEFAULT_MIN_LEN data"
  obtain h where h: "analyze_hardening data ?strings = Inr h" using analyze_hardening_exists by blast
  let ?l1 = "map JStr (take MAX_EMITTED_STRINGS ?strings)"
  let ?l2 = "map section_json (section_entropies log2 data)"
  let ?l3 = "map version_json (find_version_candidates ?strings)"
  let ?l4 = "map secret_json (scan_strings ?strings)"
  have str: "validate C TStr (JStr s) = Some (JStr s)" for s
    using assms(1) by (simp add: coercers_ok_def)
  have v1: "validate C (TList TStr) (JList ?l1) = Some (JList ?l1)"
    by (rule validate_list_same) (auto simp: str simp del: validate.simps)
  have v2: "validate C (TList EntropySection) (JList ?l2) = Some (JList ?l2)"
  proof (rule validate_list_same)
    fix j
    assume "j \<in> set ?l2"
    then obtain s where "s \<in> set (section_entropies log2 data)" "j = section_json s" by auto
    then show "validate C EntropySection j = Some j"
      using section_entropy_range [OF assms(2)] assms(1)
      by (simp add: EntropySection_def section_json_def coercers_ok_def ge_ok_def le_ok_def)
  qed
  have v3: "validate C (TList VersionCandidate) (JList ?l3) = Some (JList ?l3)"
    using assms(1)
    by (intro validate_list_same) (auto simp: VersionCandidate_def version_json_def coercers_ok_def)
  have v4: "validate C (TList SecretFlag) (JList ?l4) = Some (JList ?l4)"
    using assms(1)
    by (intro validate_list_same) (auto simp: SecretFlag_def secret_json_def coercers_ok_def)
  have v5: "validate C HardeningFlags (hardening_json h) = Some (hardening_json h)"
    using assms(1) by (simp add: HardeningFlags_def hardening_json_def coercers_ok_def)
  let ?p = "[(''job_id'', JStr job_id), (''sub_blob_id'', JStr sub_blob_id),
     (''strings_found'', JList ?l1), (''entropy_sections'', JList ?l2),
     (''version_candidates'', JList ?l3), (''secrets_flagged'', JList ?l4),
     (''hardening_flags'', hardening_json h)]"
  have "analyze log2 job_id sub_blob_id data = Inr ?p" by (simp add: analyze_def Let_def h)
  moreover have "validate C FirmwareAnalyzed (JObj ?p) = Some (JObj ?p)"
    by (simp add: FirmwareAnalyzed_def str v1 v2 v3 v4 v5 del: validate.simps(1-10))
  ultimately show ?thesis by (simp add: validate_payload_Inr jget_def)
qed

text \<open>
  C16. Validate-out never rejects the stage's own work: for every blob the analysis returns a
  payload that the \<open>firmware.analyzed\<close> contract accepts unchanged.
\<close>

theorem analyze_validates:
  assumes "coercers_ok C" and "log2_ok log2"
  shows "\<exists>p. analyze log2 job_id sub_blob_id data = Inr p \<and>
    validate_payload C FIRMWARE_ANALYZED (JObj p) = Inr p \<and>
    jget p ''job_id'' = JStr job_id \<and> jget p ''sub_blob_id'' = JStr sub_blob_id"
  using assms by (rule analyze_accepted)

theorem analyze_validates_witness:
  "\<exists>p. analyze (\<lambda>_. 0) ''j'' ''b'' ''abcd'' = Inr p \<and>
    validate_payload strict_coercers FIRMWARE_ANALYZED (JObj p) = Inr p \<and>
    jget p ''job_id'' = JStr ''j'' \<and> jget p ''sub_blob_id'' = JStr ''b''"
  by (rule analyze_validates) (simp_all add: log2_ok_def)

end
