(* ===== verification/Ingestion.thy ===== *)
theory Ingestion
  imports Aggregator StaticAnalysis
begin

unbundle bit_operations_syntax

text \<open>
  The triage stage (\<open>services/ingestion/bloom.py, magic.py, blobstore.py, triage.py\<close> and
  \<open>services/router/handlers/triage.py\<close>) and the analysis handler
  (\<open>services/router/handlers/analysis.py\<close>), which share the blob store. The two digests of
  the Bloom filter are parameters, as numbers. The blob store and the Redis bitmap are
  interfaces (locales), interpreted on the repository's in-memory stores.
\<close>

section \<open>bloom.py\<close>

definition BLOOM_M_BITS :: nat where "BLOOM_M_BITS = 958506"
definition BLOOM_K :: nat where "BLOOM_K = 7"

record digests =
  dg_sha256 :: "string \<Rightarrow> nat"
  dg_sha3 :: "string \<Rightarrow> nat"

definition bit_positions :: "digests \<Rightarrow> nat \<Rightarrow> nat \<Rightarrow> string \<Rightarrow> nat list" where
  "bit_positions D m k item =
     (let h1 = dg_sha256 D item;
          h2 = dg_sha3 D item OR 1
      in map (\<lambda>i. (h1 + i * h2) mod m) [0..<k])"

definition bloom_add ::
  "(string \<Rightarrow> nat \<Rightarrow> bool \<Rightarrow> 's \<Rightarrow> nat \<times> 's) \<Rightarrow> string \<Rightarrow> nat list \<Rightarrow> 's \<Rightarrow> 's" where
  "bloom_add setbit key positions s = foldl (\<lambda>s pos. snd (setbit key pos True s)) s positions"

definition bloom_contains :: "(string \<Rightarrow> nat \<Rightarrow> 's \<Rightarrow> nat) \<Rightarrow> string \<Rightarrow> nat list \<Rightarrow> 's \<Rightarrow> bool" where
  "bloom_contains getbit key positions s = list_all (\<lambda>pos. getbit key pos s \<noteq> 0) positions"

definition bloom_add_if_absent ::
  "(string \<Rightarrow> nat \<Rightarrow> bool \<Rightarrow> 's \<Rightarrow> nat \<times> 's) \<Rightarrow> (string \<Rightarrow> nat \<Rightarrow> 's \<Rightarrow> nat) \<Rightarrow>
   string \<Rightarrow> nat list \<Rightarrow> 's \<Rightarrow> bool \<times> 's" where
  "bloom_add_if_absent setbit getbit key positions s =
     (if bloom_contains getbit key positions s then (False, s)
      else (True, bloom_add setbit key positions s))"

locale bitmap =
  fixes setbit :: "string \<Rightarrow> nat \<Rightarrow> bool \<Rightarrow> 's \<Rightarrow> nat \<times> 's"
    and getbit :: "string \<Rightarrow> nat \<Rightarrow> 's \<Rightarrow> nat"
  assumes getbit_set: "getbit k' p' (snd (setbit k p True s)) = (if k' = k \<and> p' = p then 1 else getbit k' p' s)"
begin

lemma getbit_add:
  "getbit k' p' (bloom_add setbit k ps s) = (if k' = k \<and> p' \<in> set ps then 1 else getbit k' p' s)"
  unfolding bloom_add_def by (induction ps arbitrary: s) (auto simp: getbit_set)

text \<open>No false negatives: what was added is found, and stays found as more is added.\<close>

lemma contains_add: "bloom_contains getbit k ps (bloom_add setbit k ps s)"
  by (simp add: bloom_contains_def list_all_iff getbit_add)

lemma contains_mono:
  "bloom_contains getbit k ps s \<Longrightarrow> bloom_contains getbit k ps (bloom_add setbit k' qs s)"
  by (simp add: bloom_contains_def list_all_iff getbit_add)

lemma add_if_absent_contains:
  "bloom_contains getbit k ps (snd (bloom_add_if_absent setbit getbit k ps s))"
  by (simp add: bloom_add_if_absent_def contains_add)

lemma add_if_absent_mono:
  "bloom_contains getbit k ps s \<Longrightarrow> bloom_contains getbit k ps (snd (bloom_add_if_absent setbit getbit k' qs s))"
  by (simp add: bloom_add_if_absent_def contains_mono)

lemma add_if_absent_fst:
  "fst (bloom_add_if_absent setbit getbit k ps s) = (\<not> bloom_contains getbit k ps s)"
  by (simp add: bloom_add_if_absent_def)

end

interpretation fake_bits: bitmap r_setbit r_getbit
  by unfold_locales (auto simp: r_setbit_def r_getbit_def r_bitmap_def Let_def)

lemma coprime_to_small:
  assumes "d dvd (60::nat)"
  shows "coprime (159751 :: nat) d"
proof (rule coprimeI)
  fix c :: nat
  assume c: "c dvd 159751" "c dvd d"
  then have 60: "c dvd 60" using assms dvd_trans by blast
  have "c dvd 159751 - 2662 * 60" using c(1) 60 by (intro dvd_diff_nat dvd_mult) simp_all
  then have 31: "c dvd 31" by simp
  have "c dvd 2 * 31 - 60" using 31 60 by (intro dvd_diff_nat dvd_mult) simp_all
  then have 2: "c dvd 2" by simp
  have "c dvd 31 - 15 * 2" using 31 2 by (intro dvd_diff_nat dvd_mult) simp_all
  then show "is_unit c" by simp
qed

text \<open>
  The seven bit positions of an item are distinct exactly when the large factor 159751 of
  the bitmap size does not divide the second hash.
\<close>

theorem bloom_positions_distinct_iff:
  "distinct (bit_positions D BLOOM_M_BITS BLOOM_K item) \<longleftrightarrow> \<not> 159751 dvd (dg_sha3 D item OR 1)"
proof -
  let ?h = "dg_sha3 D item OR 1"
  let ?f = "\<lambda>i. (dg_sha256 D item + i * ?h) mod BLOOM_M_BITS"
  have odd: "odd ?h" by (simp add: even_or_iff)
  have collide: "?f i = ?f j \<longleftrightarrow> BLOOM_M_BITS dvd (j - i) * ?h" if "i \<le> j" for i j
  proof -
    have "?f j = ?f i \<longleftrightarrow> BLOOM_M_BITS dvd (dg_sha256 D item + j * ?h) - (dg_sha256 D item + i * ?h)"
      by (rule mod_eq_dvd_iff_nat) (use that in simp)
    also have "(dg_sha256 D item + j * ?h) - (dg_sha256 D item + i * ?h) = (j - i) * ?h"
      by (simp add: diff_mult_distrib)
    finally show ?thesis by auto
  qed
  have "distinct (bit_positions D BLOOM_M_BITS BLOOM_K item) \<longleftrightarrow> inj_on ?f {0..<BLOOM_K}"
    by (simp add: bit_positions_def distinct_map)
  also have "\<dots> \<longleftrightarrow> \<not> 159751 dvd ?h"
  proof
    assume inj: "inj_on ?f {0..<BLOOM_K}"
    show "\<not> 159751 dvd ?h"
    proof
      assume "159751 dvd ?h"
      then obtain c where "?h = 159751 * c" ..
      then have "BLOOM_M_BITS dvd (6 - 0) * ?h" by (simp add: BLOOM_M_BITS_def)
      then have "?f 0 = ?f 6" using collide [of 0 6] by simp
      then have "(0::nat) = 6" by (rule inj_onD [OF inj]) (simp_all add: BLOOM_K_def)
      then show False by simp
    qed
  next
    assume ndvd: "\<not> 159751 dvd ?h"
    have sep: "?f i \<noteq> ?f j" if "i < j" "j < BLOOM_K" for i j
    proof
      assume "?f i = ?f j"
      then have "BLOOM_M_BITS dvd (j - i) * ?h" using collide that by simp
      moreover have "159751 dvd BLOOM_M_BITS" by (simp add: BLOOM_M_BITS_def)
      ultimately have "159751 dvd (j - i) * ?h" by (rule dvd_trans [rotated])
      moreover have "coprime 159751 (j - i)"
      proof -
        have "j - i \<in> {1, 2, 3, 4, 5, 6}" using that by (auto simp: BLOOM_K_def)
        then have "(j - i) dvd 60" by auto
        then show ?thesis by (rule coprime_to_small)
      qed
      ultimately have "159751 dvd ?h" by (simp add: coprime_dvd_mult_right_iff)
      with ndvd show False ..
    qed
    show "inj_on ?f {0..<BLOOM_K}"
      by (rule inj_onI) (metis sep atLeastLessThan_iff linorder_neqE_nat)
  qed
  finally show ?thesis .
qed

section \<open>magic.py\<close>

definition HEADER_BYTES :: nat where "HEADER_BYTES = 512"
definition MIN_BLOB_BYTES :: nat where "MIN_BLOB_BYTES = 64"
definition DECLARED_SIZE_RATIO_LIMIT :: nat where "DECLARED_SIZE_RATIO_LIMIT = 100"

definition bytes_of :: "nat list \<Rightarrow> bytes" where
  "bytes_of ns = map char_of ns"

text \<open>Magic bytes at offset 0 and the format name, in the order of the table.\<close>

definition MAGICS :: "(bytes \<times> string) list" where
  "MAGICS =
     [(bytes_of [0x7f] @ ''ELF'', ''elf''),
      (''hsqs'', ''squashfs''),
      (''sqsh'', ''squashfs''),
      (bytes_of [0x85, 0x19, 0x03, 0x20], ''jffs2''),
      (bytes_of [0x19, 0x85], ''jffs2''),
      (''UBI#'', ''ubi''),
      (''UBI!'', ''ubifs''),
      (bytes_of [0x45, 0x3d, 0xcd, 0x28], ''cramfs''),
      (bytes_of [0x27, 0x05, 0x19, 0x56], ''uimage''),
      (bytes_of [0xd0, 0x0d, 0xfe, 0xed], ''dtb''),
      (''PK'' @ bytes_of [0x03, 0x04], ''zip''),
      (bytes_of [0x1f, 0x8b], ''gzip''),
      (''BZh'', ''bzip2''),
      (bytes_of [0xfd] @ ''7zXZ'' @ bytes_of [0x00], ''xz''),
      (bytes_of [0x5d, 0x00, 0x00], ''lzma''),
      (bytes_of [0x28, 0xb5, 0x2f, 0xfd], ''zstd''),
      (bytes_of [0x30, 0x37, 0x30, 0x37, 0x30], ''cpio''),
      (bytes_of [0xc7, 0x71], ''cpio''),
      (''MZ'', ''pe'')]"

definition detect_format :: "bytes \<Rightarrow> string option" where
  "detect_format header =
     (case filter (\<lambda>(magic, _). take (length magic) header = magic) MAGICS of
        (_, name) # _ \<Rightarrow> Some name
      | [] \<Rightarrow>
          if 262 \<le> length header \<and> take 5 (drop 257 header) = ''ustar'' then Some ''tar'' else None)"

definition declared_size_from_header :: "bytes \<Rightarrow> string option \<Rightarrow> nat option" where
  "declared_size_from_header header fmt =
     (if fmt = Some ''uimage'' \<and> 16 \<le> length header
      then (case unpack_uint False 4 header 12 of Inl _ \<Rightarrow> None | Inr v \<Rightarrow> Some v)
      else if fmt = Some ''squashfs'' \<and> take 4 header = ''hsqs'' \<and> 48 \<le> length header
      then (case unpack_uint True 8 header 40 of Inl _ \<Rightarrow> None | Inr v \<Rightarrow> Some v)
      else None)"

text \<open>\<open>PrecheckResult\<close>: \<open>None\<close> when ok, otherwise the reason code.\<close>

definition precheck :: "bytes \<Rightarrow> nat \<Rightarrow> string option" where
  "precheck header actual_size =
     (if actual_size < MIN_BLOB_BYTES then Some ''too_small''
      else
        (case detect_format header of
           None \<Rightarrow> Some ''unknown_format''
         | Some fmt \<Rightarrow>
             (case declared_size_from_header header (Some fmt) of
                Some declared \<Rightarrow>
                  if declared > actual_size * DECLARED_SIZE_RATIO_LIMIT
                  then Some ''declared_size_mismatch'' else None
              | None \<Rightarrow> None)))"

section \<open>blobstore.py\<close>

type_synonym blobs = "(string, bytes) dict"

definition DEFAULT_CHUNK :: nat where "DEFAULT_CHUNK = 1024 * 1024"

function chunk_bytes :: "nat \<Rightarrow> bytes \<Rightarrow> bytes list" where
  "chunk_bytes n data = (if data = [] \<or> n = 0 then [] else take n data # chunk_bytes n (drop n data))"
  by pat_completeness auto
termination
  by (relation "measure (\<lambda>(n, data). length data)") auto

declare chunk_bytes.simps [simp del]

definition put_bytes :: "string \<Rightarrow> bytes \<Rightarrow> blobs \<Rightarrow> blobs" where
  "put_bytes key data objects = dset key data objects"

definition get_blob :: "string \<Rightarrow> blobs \<Rightarrow> bytes result" where
  "get_blob key objects = (case dget objects key of None \<Rightarrow> Inl (KeyError key) | Some d \<Rightarrow> Inr d)"

definition read_header :: "string \<Rightarrow> nat \<Rightarrow> blobs \<Rightarrow> bytes result" where
  "read_header key n objects = rbind (get_blob key objects) (\<lambda>d. Inr (take n d))"

definition iter_chunks :: "string \<Rightarrow> nat \<Rightarrow> blobs \<Rightarrow> bytes list result" where
  "iter_chunks key n objects = rbind (get_blob key objects) (\<lambda>d. Inr (chunk_bytes n d))"

definition get_size :: "string \<Rightarrow> blobs \<Rightarrow> nat result" where
  "get_size key objects = rbind (get_blob key objects) (\<lambda>d. Inr (length d))"

definition blob_exists :: "string \<Rightarrow> blobs \<Rightarrow> bool" where
  "blob_exists key objects = (key \<in> set (dkeys objects))"

text \<open>\<open>_hash_and_size\<close> and \<open>_read_blob\<close>, clients of any store that yields chunks.\<close>

definition hash_and_size :: "env \<Rightarrow> bytes list result \<Rightarrow> (string \<times> nat) result" where
  "hash_and_size E chunks =
     rbind chunks (\<lambda>cs.
       let (hashed, size) = foldl (\<lambda>(h, n) c. (h @ c, n + length c)) ([], 0) cs
       in Inr (e_sha256 E hashed, size))"

fun read_capped :: "nat \<Rightarrow> bytes \<Rightarrow> bytes list \<Rightarrow> bytes" where
  "read_capped cap buf [] = buf"
| "read_capped cap buf (c # cs) =
     (if length (buf @ c) \<ge> cap then take cap (buf @ c) else read_capped cap (buf @ c) cs)"

definition MAX_ANALYZE_BYTES :: nat where "MAX_ANALYZE_BYTES = 64 * 1024 * 1024"

definition read_blob :: "nat \<Rightarrow> bytes list result \<Rightarrow> bytes result" where
  "read_blob cap chunks = rbind chunks (\<lambda>cs. Inr (read_capped cap [] cs))"

locale blob_store =
  fixes put :: "string \<Rightarrow> bytes \<Rightarrow> 's \<Rightarrow> 's"
    and header :: "string \<Rightarrow> nat \<Rightarrow> 's \<Rightarrow> bytes result"
    and chunks :: "string \<Rightarrow> nat \<Rightarrow> 's \<Rightarrow> bytes list result"
    and content :: "string \<Rightarrow> 's \<Rightarrow> bytes option"
  assumes content_put: "content i (put k d s) = (if i = k then Some d else content i s)"
    and header_content: "content k s = Some d \<Longrightarrow> header k n s = Inr (take n d)"
    and chunks_content: "content k s = Some d \<Longrightarrow> 0 < n \<Longrightarrow> \<exists>cs. chunks k n s = Inr cs \<and> concat cs = d"
    and missing: "content k s = None \<Longrightarrow> (\<exists>e. header k n s = Inl e) \<and> (\<exists>e. chunks k n s = Inl e)"
begin

lemma hash_and_size_content:
  assumes "content k s = Some d" "0 < n"
  shows "hash_and_size E (chunks k n s) = Inr (e_sha256 E d, length d)"
proof -
  obtain cs where cs: "chunks k n s = Inr cs" "concat cs = d" using chunks_content [OF assms] by blast
  have "foldl (\<lambda>(h, n) c. (h @ c, n + length c)) (h, m) cs = (h @ concat cs, m + length (concat cs))" for h m
    by (induction cs arbitrary: h m) auto
  then show ?thesis by (simp add: hash_and_size_def cs)
qed

lemma read_blob_content:
  assumes "content k s = Some d" "0 < n"
  shows "read_blob cap (chunks k n s) = Inr (take cap d)"
proof -
  obtain cs where cs: "chunks k n s = Inr cs" "concat cs = d" using chunks_content [OF assms] by blast
  have "length buf < cap \<or> (buf = [] \<and> cap = 0) \<Longrightarrow> read_capped cap buf cs = take cap (buf @ concat cs)" for buf
  proof (induction cs arbitrary: buf)
    case (Cons c cs)
    show ?case
    proof (cases "length (buf @ c) \<ge> cap")
      case True
      then show ?thesis by simp
    next
      case False
      then have "read_capped cap (buf @ c) cs = take cap ((buf @ c) @ concat cs)" by (intro Cons.IH) simp
      with False show ?thesis by simp
    qed
  qed auto
  from this [of "[]"] show ?thesis by (cases cap) (simp_all add: read_blob_def cs)
qed

end

lemma concat_chunk_bytes: "0 < n \<Longrightarrow> concat (chunk_bytes n d) = d"
proof (induction n d rule: chunk_bytes.induct)
  case (1 n d)
  then show ?case by (subst chunk_bytes.simps) auto
qed

interpretation mem_blobs: blob_store put_bytes read_header iter_chunks "\<lambda>k s. dget s k"
  by unfold_locales
    (auto simp: put_bytes_def read_header_def iter_chunks_def get_blob_def concat_chunk_bytes
      simp del: not_None_eq split: option.splits)

section \<open>triage.py and its handler\<close>

record ingest_state = report_state +
  is_blobs :: blobs

record triage_result =
  tr_clean :: bool
  tr_sha256 :: string
  tr_size :: nat
  tr_duplicate :: bool
  tr_reason :: "string option"

definition triaged_payload :: "string \<Rightarrow> triage_result \<Rightarrow> payload" where
  "triaged_payload job_id r =
     [(''job_id'', JStr job_id), (''sha256'', JStr (tr_sha256 r)),
      (''is_duplicate'', JBool (tr_duplicate r)), (''size_bytes'', JInt (int (tr_size r)))]"

definition triage ::
  "env \<Rightarrow> digests \<Rightarrow> payload \<Rightarrow> ('z ingest_state_scheme, triage_result) eff" where
  "triage E D payload =
     ebind (lift_result (str_field payload ''s3_key'')) (\<lambda>key.
     ebind (gets is_blobs) (\<lambda>blobs.
     ebind (lift_result (read_header key HEADER_BYTES blobs)) (\<lambda>header.
     ebind (lift_result (hash_and_size E (iter_chunks key DEFAULT_CHUNK blobs))) (\<lambda>(sha256, size_bytes).
     (case precheck header size_bytes of
        Some reason \<Rightarrow>
          ret \<lparr>tr_clean = False, tr_sha256 = sha256, tr_size = size_bytes, tr_duplicate = False,
               tr_reason = Some reason\<rparr>
      | None \<Rightarrow>
          ebind (on_redis (bloom_add_if_absent r_setbit r_getbit bloom_key
                   (bit_positions D BLOOM_M_BITS BLOOM_K sha256))) (\<lambda>is_new.
          if \<not> is_new
          then ret \<lparr>tr_clean = False, tr_sha256 = sha256, tr_size = size_bytes, tr_duplicate = True,
                    tr_reason = Some ''duplicate''\<rparr>
          else ret \<lparr>tr_clean = True, tr_sha256 = sha256, tr_size = size_bytes, tr_duplicate = False,
                    tr_reason = None\<rparr>))))))"

definition emit_dlq :: "env \<Rightarrow> ctx \<Rightarrow> payload \<Rightarrow> string \<Rightarrow> ('z router_state_scheme, unit) eff" where
  "emit_dlq E c payload error =
     ebind (lift_result (build_dlq_record E (cx_source c) (e_dumps E (JObj payload)) error))
       (\<lambda>dlq_record. emit E FIRMWARE_DLQ dlq_record)"

definition handle_triage :: "env \<Rightarrow> digests \<Rightarrow> 'z ingest_state_scheme handler" where
  "handle_triage E D c payload =
     ebind (lift_result (str_field payload ''job_id'')) (\<lambda>job_id.
     ebind (triage E D payload) (\<lambda>result.
     if \<not> tr_clean result
     then emit_dlq E c payload
            (case tr_reason result of None \<Rightarrow> ''rejected'' | Some r \<Rightarrow> if r = [] then ''rejected'' else r)
     else emit E FIRMWARE_TRIAGED (triaged_payload job_id result)))"

section \<open>analysis.py (handler)\<close>

definition handle_analysis :: "env \<Rightarrow> (pyfloat \<Rightarrow> pyfloat) \<Rightarrow> 'z ingest_state_scheme handler" where
  "handle_analysis E log2 c payload =
     ebind (lift_result (str_field payload ''job_id'')) (\<lambda>job_id.
     ebind (lift_result (str_field payload ''sub_blob_id'')) (\<lambda>sub_blob_id.
     ebind (lift_result (str_field payload ''s3_key'')) (\<lambda>key.
     ebind (gets is_blobs) (\<lambda>blobs.
     ebind (lift_result (read_blob MAX_ANALYZE_BYTES (iter_chunks key DEFAULT_CHUNK blobs))) (\<lambda>data.
     ebind (lift_result (analyze log2 job_id sub_blob_id data)) (\<lambda>analyzed.
     ebind (on_redis_result (r_incrby (completed_children job_id) 1)) (\<lambda>_.
     emit E FIRMWARE_ANALYZED analyzed)))))))"

section \<open>What triage decides\<close>

text \<open>
  The pre-check accepts a blob exactly when it has at least 64 bytes, its leading bytes
  are of a known format, and a size its header declares is at most 100 times the actual
  one; otherwise the reason code names the first check that fails.
\<close>

theorem precheck_spec:
  "precheck header n =
     (if n < 64 then Some ''too_small''
      else if detect_format header = None then Some ''unknown_format''
      else if (\<exists>d. declared_size_from_header header (detect_format header) = Some d \<and> n * 100 < d)
      then Some ''declared_size_mismatch'' else None)"
  by (auto simp: precheck_def MIN_BLOB_BYTES_def DECLARED_SIZE_RATIO_LIMIT_def split: option.splits)

lemma DEFAULT_CHUNK_pos: "0 < DEFAULT_CHUNK"
  by (simp add: DEFAULT_CHUNK_def)

definition seen :: "env \<Rightarrow> digests \<Rightarrow> bytes \<Rightarrow> redis \<Rightarrow> bool" where
  "seen E D data r =
     bloom_contains r_getbit bloom_key (bit_positions D BLOOM_M_BITS BLOOM_K (e_sha256 E data)) r"

lemma triage_eq:
  assumes "str_field p ''s3_key'' = Inr key" "dget (is_blobs s) key = Some data"
  shows "triage E D p s =
    (case precheck (take HEADER_BYTES data) (length data) of
       Some reason \<Rightarrow>
         (Inr \<lparr>tr_clean = False, tr_sha256 = e_sha256 E data, tr_size = length data,
               tr_duplicate = False, tr_reason = Some reason\<rparr>, s)
     | None \<Rightarrow>
         if seen E D data (rs_redis s)
         then (Inr \<lparr>tr_clean = False, tr_sha256 = e_sha256 E data, tr_size = length data,
                     tr_duplicate = True, tr_reason = Some ''duplicate''\<rparr>, s)
         else (Inr \<lparr>tr_clean = True, tr_sha256 = e_sha256 E data, tr_size = length data,
                     tr_duplicate = False, tr_reason = None\<rparr>,
               s\<lparr>rs_redis := bloom_add r_setbit bloom_key
                  (bit_positions D BLOOM_M_BITS BLOOM_K (e_sha256 E data)) (rs_redis s)\<rparr>))"
proof -
  note h = mem_blobs.header_content [OF assms(2), of HEADER_BYTES]
  note c = mem_blobs.hash_and_size_content [OF assms(2) DEFAULT_CHUNK_pos, of E]
  show ?thesis
    by (simp add: triage_def ebind_def lift_result_def gets_def assms(1) h c ret_def on_redis_def
        bloom_add_if_absent_def seen_def split: option.splits)
qed


definition sample_blob :: bytes where
  "sample_blob = bytes_of [0x1f, 0x8b] @ replicate 62 CHR ''x''"

definition sample_ingest_state :: ingest_state where
  "sample_ingest_state =
     \<lparr>rs_redis = redis_empty, rs_log = [], rs_faults = [], as_docs = [], as_artifacts = [],
      as_jobs = [], as_pg_up = True, is_blobs = [(''k'', sample_blob)]\<rparr>"

definition sample_digests :: digests where
  "sample_digests = \<lparr>dg_sha256 = (\<lambda>_. 5), dg_sha3 = (\<lambda>_. 8)\<rparr>"

lemma sample_precheck: "precheck (take HEADER_BYTES sample_blob) (length sample_blob) = None"
  by code_simp

lemma sample_triage:
  "\<exists>r s'. triage sample_env sample_digests sample_payload sample_ingest_state = (Inr r, s') \<and> tr_clean r"
proof -
  have "str_field sample_payload ''s3_key'' = Inr ''k''"
    by (simp add: str_field_def jindex_def sample_payload_def)
  moreover have "dget (is_blobs sample_ingest_state) ''k'' = Some sample_blob"
    by (simp add: sample_ingest_state_def)
  moreover have "\<not> seen sample_env sample_digests sample_blob redis_empty"
    by (simp add: seen_def bloom_contains_def bit_positions_def BLOOM_K_def r_getbit_def
        r_bitmap_def redis_empty_def upt_rec Let_def)
  ultimately show ?thesis
    by (simp add: triage_eq sample_precheck) (simp add: sample_ingest_state_def)
qed


section \<open>The handlers' messages\<close>

lemma triaged_validates:
  assumes "env_ok E" "sha256_is_hex64 (e_sha256 E data) = Some (e_sha256 E data)"
  shows "validate_payload (e_coerce E) FIRMWARE_TRIAGED
     (JObj (triaged_payload j \<lparr>tr_clean = True, tr_sha256 = e_sha256 E data, tr_size = length data,
              tr_duplicate = False, tr_reason = None\<rparr>)) =
   Inr [(''job_id'', JStr j), (''sha256'', JStr (e_sha256 E data)),
        (''is_duplicate'', JBool False), (''size_bytes'', JInt (int (length data)))]"
  using assms
  by (simp add: validate_payload_Inr FirmwareTriaged_def triaged_payload_def env_ok_def
      coercers_ok_def ge_ok_def)

text \<open>
  The hash enters the filter before \<open>firmware.triaged\<close> is produced. When that produce call
  fails, the message is dead-lettered; processing the same upload again then finds its own
  hash and dead-letters the job as a duplicate.
\<close>

lemma triage_retry_after_failed_emit:
  assumes "env_ok E" "sha256_is_hex64 (e_sha256 E data) = Some (e_sha256 E data)"
    and p: "str_field p ''job_id'' = Inr j" "str_field p ''s3_key'' = Inr key"
    and blob: "dget (is_blobs s) key = Some data" "precheck (take HEADER_BYTES data) (length data) = None"
    and new: "\<not> seen E D data (rs_redis s)" and fails: "rs_faults s = [True]"
  shows "\<exists>s'. handle_triage E D c p s = (Inl ProduceError, s') \<and> rs_faults s' = [] \<and>
    rs_log s' = rs_log s \<and>
    handle_triage E D c p s' = emit_dlq E c p ''duplicate'' s'"
proof -
  let ?rd = "bloom_add r_setbit bloom_key (bit_positions D BLOOM_M_BITS BLOOM_K (e_sha256 E data)) (rs_redis s)"
  let ?s' = "s\<lparr>rs_redis := ?rd, rs_faults := []\<rparr>"
  have key: "encode_key (partition_key FIRMWARE_TRIAGED
      [(''job_id'', JStr j), (''sha256'', JStr (e_sha256 E data)), (''is_duplicate'', JBool False),
       (''size_bytes'', JInt (int (length data)))]) = Inr (if j = [] then None else Some j)"
    by (simp add: encode_key_def partition_key_def jget_def SUB_BLOB_KEYED_TOPICS_def topic_defs)
  have 1: "handle_triage E D c p s = (Inl ProduceError, ?s')"
    using new fails
    by (simp add: handle_triage_def ebind_def lift_result_def p triage_eq [OF p(2) blob(1)] blob(2)
        emit_def triaged_validates [OF assms(1,2)] key produce_def)
  have "seen E D data (rs_redis ?s')" by (simp add: seen_def fake_bits.contains_add)
  then have 2: "handle_triage E D c p ?s' = emit_dlq E c p ''duplicate'' ?s'"
    using blob by (simp add: handle_triage_def ebind_def lift_result_def p triage_eq [OF p(2)])
  show ?thesis using 1 2 by auto
qed

lemma handle_analysis_run:
  assumes "env_ok E" and "log2_ok log2"
    and "str_field p ''job_id'' = Inr j" and "str_field p ''sub_blob_id'' = Inr b"
    and "str_field p ''s3_key'' = Inr key" and "dget (is_blobs s) key = Some data"
    and "fake.counter (completed_children j) (rs_redis s) = Some n"
    and "rs_faults s = []" and "b \<noteq> []"
  shows "\<exists>out. analyze log2 j b (take MAX_ANALYZE_BYTES data) = Inr out \<and>
    validate_payload (e_coerce E) FIRMWARE_ANALYZED (JObj out) = Inr out \<and>
    handle_analysis E log2 c p s =
      (Inr (), s\<lparr>rs_redis := snd (r_incrby (completed_children j) 1 (rs_redis s)),
                 rs_log := rs_log s @ [\<lparr>km_topic = FIRMWARE_ANALYZED, km_key = Some b,
                              km_value = Some (e_dumps E (JObj out))\<rparr>]\<rparr>)"
proof -
  have C: "coercers_ok (e_coerce E)" using assms(1) by (simp add: env_ok_def)
  obtain out where out: "analyze log2 j b (take MAX_ANALYZE_BYTES data) = Inr out"
    "validate_payload (e_coerce E) FIRMWARE_ANALYZED (JObj out) = Inr out" "jget out ''sub_blob_id'' = JStr b"
    using analyze_accepted [OF C assms(2)] by blast
  have key: "encode_key (partition_key FIRMWARE_ANALYZED out) = Inr (Some b)"
    using out(3) assms(9) by (simp add: encode_key_def partition_key_def SUB_BLOB_KEYED_TOPICS_def)
  obtain rd where rd: "r_incrby (completed_children j) 1 (rs_redis s) = (Inr (n + 1), rd)"
    using assms(7) by (metis fake.kincr_value option.simps(5) prod.collapse)
  note read = mem_blobs.read_blob_content [OF assms(6) DEFAULT_CHUNK_pos, of MAX_ANALYZE_BYTES]
  show ?thesis
    using assms(8)
    by (simp add: handle_analysis_def ebind_def lift_result_def gets_def assms(3-5) read out
        on_redis_result_def rd emit_def key produce_def)
qed

text \<open>
  The analysis stage never drops a sub-blob whose bytes it can read: for every stored
  blob, of any content, the handler counts the child once and produces one
  \<open>firmware.analyzed\<close> event, keyed by the sub-blob and accepted by its contract, over the
  first 64 MiB of the blob.
\<close>

theorem handle_analysis_emits:
  assumes "env_ok E" and "log2_ok log2"
    and "str_field p ''job_id'' = Inr j" and "str_field p ''sub_blob_id'' = Inr b"
    and "str_field p ''s3_key'' = Inr key" and "dget (is_blobs s) key = Some data"
    and "py_int (case r_live (completed_children j) (rs_redis s) of None \<Rightarrow> ''0'' | Some v \<Rightarrow> v) = Some n"
    and "rs_faults s = []" and "b \<noteq> []"
  shows "\<exists>s' out. handle_analysis E log2 c p s = (Inr (), s') \<and>
    analyze log2 j b (take MAX_ANALYZE_BYTES data) = Inr out \<and>
    validate_payload (e_coerce E) FIRMWARE_ANALYZED (JObj out) = Inr out \<and>
    rs_log s' = rs_log s @ [\<lparr>km_topic = FIRMWARE_ANALYZED, km_key = Some b,
                              km_value = Some (e_dumps E (JObj out))\<rparr>] \<and>
    r_live (completed_children j) (rs_redis s') = Some (int_str (n + 1))"
proof -
  from handle_analysis_run [OF assms, of c] obtain out where out:
    "analyze log2 j b (take MAX_ANALYZE_BYTES data) = Inr out"
    "validate_payload (e_coerce E) FIRMWARE_ANALYZED (JObj out) = Inr out"
    "handle_analysis E log2 c p s =
      (Inr (), s\<lparr>rs_redis := snd (r_incrby (completed_children j) 1 (rs_redis s)),
                 rs_log := rs_log s @ [\<lparr>km_topic = FIRMWARE_ANALYZED, km_key = Some b,
                              km_value = Some (e_dumps E (JObj out))\<rparr>]\<rparr>)" by blast
  have "r_live (completed_children j) (snd (r_incrby (completed_children j) 1 (rs_redis s))) = Some (int_str (n + 1))"
    by (simp add: fake.kincr_live fake.kincr_value assms(7))
  with out show ?thesis by simp
qed

definition sample_extracted :: payload where
  "sample_extracted = [(''job_id'', JStr ''j''), (''sub_blob_id'', JStr ''b''), (''s3_key'', JStr ''k''),
     (''parent_blob_id'', JNull)]"

theorem handle_analysis_emits_witness:
  "\<exists>s' out. handle_analysis sample_env (\<lambda>_. 0) \<lparr>cx_source = FIRMWARE_EXTRACTED, cx_key = ''b''\<rparr>
      sample_extracted sample_ingest_state = (Inr (), s') \<and>
    analyze (\<lambda>_. 0) ''j'' ''b'' (take MAX_ANALYZE_BYTES sample_blob) = Inr out \<and>
    validate_payload (e_coerce sample_env) FIRMWARE_ANALYZED (JObj out) = Inr out \<and>
    rs_log s' = rs_log sample_ingest_state @
      [\<lparr>km_topic = FIRMWARE_ANALYZED, km_key = Some ''b'', km_value = Some (e_dumps sample_env (JObj out))\<rparr>] \<and>
    r_live (completed_children ''j'') (rs_redis s') = Some (int_str (0 + 1))"
proof (rule handle_analysis_emits)
  show "log2_ok (\<lambda>_. 0)" by (simp add: log2_ok_def)
  have "py_int ''0'' = Some 0" by code_simp
  then show "py_int (case r_live (completed_children ''j'') (rs_redis sample_ingest_state) of
      None \<Rightarrow> ''0'' | Some v \<Rightarrow> v) = Some 0"
    by (simp add: sample_ingest_state_def r_live_def r_overdue_def redis_empty_def)
qed (simp_all add: str_field_def jindex_def sample_extracted_def sample_ingest_state_def)

end
