(* ===== verification/Unpack.thy ===== *)
theory Unpack
  imports Ingestion
begin

text \<open>
  The unpack stage (\<open>services/ingestion/defenses.py, unpack.py\<close>, the in-process containers
  of \<open>extract.py\<close> and \<open>services/router/handlers/unpack.py\<close>): POSIX path arithmetic, the four
  defence layers, the depth-first walk and the fan-out handler. Files are their byte
  contents; what an archive library reads from a container is a list of entries, the
  argument of the extraction functions. The walk is a total function whatever the extractor
  returns: its depth is bounded by the cap.
\<close>

section \<open>posixpath\<close>

definition isabs :: "string \<Rightarrow> bool" where
  "isabs p = starts_with ''/'' p"

definition path_join :: "string \<Rightarrow> string \<Rightarrow> string" where
  "path_join a b =
     (if isabs b then b
      else if a = [] \<or> last a = CHR ''/'' then a @ b
      else a @ ''/'' @ b)"

definition norm_step :: "bool \<Rightarrow> string list \<Rightarrow> string \<Rightarrow> string list" where
  "norm_step rooted comps c =
     (if c = [] \<or> c = ''.'' then comps
      else if c \<noteq> ''..'' \<or> (\<not> rooted \<and> comps = []) \<or> (comps \<noteq> [] \<and> last comps = ''..'')
      then comps @ [c]
      else if comps \<noteq> [] then butlast comps
      else comps)"

definition norm_comps :: "bool \<Rightarrow> string list \<Rightarrow> string list" where
  "norm_comps rooted cs = foldl (norm_step rooted) [] cs"

definition normpath :: "string \<Rightarrow> string" where
  "normpath path =
     (if path = [] then ''.''
      else
        let slashes = (if starts_with ''/'' path
                       then (if starts_with ''//'' path \<and> \<not> starts_with ''///'' path then ''//'' else ''/'')
                       else []);
            p = slashes @ join ''/'' (norm_comps (slashes \<noteq> []) (split_on CHR ''/'' path))
        in if p = [] then ''.'' else p)"

definition abspath :: "string \<Rightarrow> string \<Rightarrow> string" where
  "abspath cwd path = normpath (if isabs path then path else path_join cwd path)"

definition dirname :: "string \<Rightarrow> string" where
  "dirname p =
     (let prefix_dir = rev (dropWhile (\<lambda>c. c \<noteq> CHR ''/'') (rev p))
      in if prefix_dir \<noteq> [] \<and> (\<exists>c \<in> set prefix_dir. c \<noteq> CHR ''/'')
         then rev (dropWhile (\<lambda>c. c = CHR ''/'') (rev prefix_dir)) else prefix_dir)"

section \<open>defenses.py\<close>

definition RECURSION_DEPTH_CAP :: nat where "RECURSION_DEPTH_CAP = 8"
definition DECOMPRESSION_RATIO_LIMIT :: nat where "DECOMPRESSION_RATIO_LIMIT = 100"

definition LAYER_ZIP_SLIP :: string where "LAYER_ZIP_SLIP = ''zip_slip''"
definition LAYER_SYMLINK :: string where "LAYER_SYMLINK = ''symlink''"
definition LAYER_RECURSION_DEPTH :: string where "LAYER_RECURSION_DEPTH = ''recursion_depth''"
definition LAYER_DECOMPRESSION_RATIO :: string where
  "LAYER_DECOMPRESSION_RATIO = ''decompression_ratio''"

definition norm_path :: "string \<Rightarrow> string \<Rightarrow> string" where
  "norm_path cwd path = normpath (abspath cwd path)"

definition is_within :: "string \<Rightarrow> string \<Rightarrow> string \<Rightarrow> bool" where
  "is_within cwd sandbox candidate =
     (let root_n = norm_path cwd sandbox; cand_n = norm_path cwd candidate
      in cand_n = root_n \<or> starts_with (root_n @ ''/'') cand_n)"

definition safe_join :: "string \<Rightarrow> string \<Rightarrow> string \<Rightarrow> string result" where
  "safe_join cwd sandbox member_name =
     (if isabs member_name \<or> starts_with ''/'' member_name \<or> starts_with [CHR 0x5C] member_name
      then Inl (ZipBombError LAYER_ZIP_SLIP ''absolute path entry'')
      else
        let target = path_join sandbox member_name
        in if \<not> is_within cwd sandbox target
           then Inl (ZipBombError LAYER_ZIP_SLIP ''path traversal entry'')
           else Inr target)"

definition check_symlink_target :: "string \<Rightarrow> string \<Rightarrow> string \<Rightarrow> string \<Rightarrow> unit result" where
  "check_symlink_target cwd sandbox link_name link_target =
     (if isabs link_target then Inl (ZipBombError LAYER_SYMLINK ''symlink -> absolute'')
      else
        let link_dir = dirname (path_join sandbox link_name);
            resolved = normpath (path_join link_dir link_target)
        in if \<not> is_within cwd sandbox resolved
           then Inl (ZipBombError LAYER_SYMLINK ''symlink escapes sandbox'')
           else Inr ())"

definition check_depth :: "nat \<Rightarrow> unit result" where
  "check_depth depth =
     (if RECURSION_DEPTH_CAP < depth
      then Inl (ZipBombError LAYER_RECURSION_DEPTH ''recursion depth exceeds cap'') else Inr ())"

definition check_ratio :: "nat \<Rightarrow> nat \<Rightarrow> unit result" where
  "check_ratio output_bytes input_bytes =
     (if input_bytes = 0 then Inr ()
      else if input_bytes * DECOMPRESSION_RATIO_LIMIT < output_bytes
      then Inl (ZipBombError LAYER_DECOMPRESSION_RATIO ''decompression ratio exceeds limit'')
      else Inr ())"

section \<open>Containment of paths\<close>

text \<open>A path below a single root slash, as the components it resolves to.\<close>

definition rooted_path :: "string \<Rightarrow> bool" where
  "rooted_path p \<longleftrightarrow> starts_with ''/'' p \<and> \<not> (starts_with ''//'' p \<and> \<not> starts_with ''///'' p)"

definition resolve :: "string \<Rightarrow> string list" where
  "resolve p = norm_comps True (split_on CHR ''/'' p)"

definition plain_comp :: "string \<Rightarrow> bool" where
  "plain_comp c \<longleftrightarrow> c \<noteq> [] \<and> c \<noteq> ''.'' \<and> c \<noteq> ''..'' \<and> CHR ''/'' \<notin> set c"

lemma norm_step_plain:
  "list_all plain_comp st \<Longrightarrow> CHR ''/'' \<notin> set c \<Longrightarrow> list_all plain_comp (norm_step True st c)"
proof -
  assume st: "list_all plain_comp st" and c: "CHR ''/'' \<notin> set c"
  have "st \<noteq> [] \<Longrightarrow> last st \<noteq> ''..''" using st by (auto simp: list_all_iff plain_comp_def)
  moreover have "list_all plain_comp (butlast st)" using st by (auto simp: list_all_iff dest: in_set_butlastD)
  ultimately show ?thesis using st c by (auto simp: norm_step_def plain_comp_def)
qed

lemma norm_comps_plain:
  "\<forall>c \<in> set cs. CHR ''/'' \<notin> set c \<Longrightarrow> list_all plain_comp (norm_comps True cs)"
proof -
  have "list_all plain_comp st \<Longrightarrow> \<forall>c \<in> set cs. CHR ''/'' \<notin> set c \<Longrightarrow>
      list_all plain_comp (foldl (norm_step True) st cs)" for st
    by (induction cs arbitrary: st) (auto intro: norm_step_plain)
  from this [of "[]"] show "\<forall>c \<in> set cs. CHR ''/'' \<notin> set c \<Longrightarrow> ?thesis"
    by (simp add: norm_comps_def)
qed

lemma resolve_plain: "list_all plain_comp (resolve p)"
  unfolding resolve_def by (rule norm_comps_plain) (auto dest: split_on_no_sep_fields)

lemma normpath_rooted: "rooted_path p \<Longrightarrow> normpath p = ''/'' @ join ''/'' (resolve p)"
  by (auto simp: rooted_path_def normpath_def Let_def resolve_def starts_with_def)

lemma norm_comps_plain_id: "list_all plain_comp cs \<Longrightarrow> norm_comps True cs = cs"
proof -
  have "list_all plain_comp (st @ cs) \<Longrightarrow> foldl (norm_step True) st cs = st @ cs" for st
    by (induction cs arbitrary: st) (auto simp: norm_step_def plain_comp_def)
  from this [of "[]"] show "list_all plain_comp cs \<Longrightarrow> ?thesis" by (simp add: norm_comps_def)
qed

lemma split_on_join_append:
  "ps \<noteq> [] \<Longrightarrow> \<forall>p \<in> set ps. c \<notin> set p \<Longrightarrow>
   split_on c (join [c] ps @ c # t) = ps @ split_on c t"
proof (induction ps)
  case (Cons x xs)
  then show ?case by (cases xs) (simp_all add: split_on_append_sep)
qed simp

lemma join_append: "ps \<noteq> [] \<Longrightarrow> qs \<noteq> [] \<Longrightarrow> join [c] (ps @ qs) = join [c] ps @ c # join [c] qs"
proof (induction ps)
  case (Cons x xs)
  then show ?case by (cases xs; cases qs) simp_all
qed simp

lemma plain_no_slash: "list_all plain_comp cs \<Longrightarrow> \<forall>c \<in> set cs. CHR ''/'' \<notin> set c"
  by (auto simp: list_all_iff plain_comp_def)

lemma join_no_slash:
  assumes "list_all plain_comp cs"
  shows "\<not> starts_with ''/'' (join ''/'' cs)"
proof (cases cs)
  case (Cons c rest)
  then obtain x xs where "c = x # xs" "x \<noteq> CHR ''/''"
    using assms by (cases c) (auto simp: plain_comp_def)
  then show ?thesis using Cons by (cases rest) (auto simp: starts_with_def)
qed (simp add: starts_with_def)

lemma rooted_slash_join:
  assumes "list_all plain_comp cs"
  shows "rooted_path (''/'' @ join ''/'' cs)" "resolve (''/'' @ join ''/'' cs) = cs"
proof -
  have "\<not> starts_with ''/'' (join ''/'' cs)" by (rule join_no_slash [OF assms])
  then show "rooted_path (''/'' @ join ''/'' cs)" by (auto simp: rooted_path_def starts_with_def)
  have "norm_comps True (split_on CHR ''/'' (''/'' @ join ''/'' cs)) = norm_comps True (split_on CHR ''/'' (join ''/'' cs))"
    by (simp add: norm_comps_def norm_step_def)
  also have "\<dots> = cs"
  proof (cases "cs = []")
    case True
    then show ?thesis by (simp add: norm_comps_def norm_step_def)
  next
    case False
    then have "split_on CHR ''/'' (join ''/'' cs) = cs"
      by (rule split_on_join) (rule plain_no_slash [OF assms])
    then show ?thesis using assms by (simp add: norm_comps_plain_id)
  qed
  finally show "resolve (''/'' @ join ''/'' cs) = cs" by (simp add: resolve_def)
qed

lemma norm_path_rooted: "rooted_path p \<Longrightarrow> norm_path cwd p = ''/'' @ join ''/'' (resolve p)"
  using rooted_slash_join [OF resolve_plain, of p]
  by (simp add: norm_path_def abspath_def isabs_def rooted_path_def [of p] normpath_rooted)

lemma slash_join_prefix:
  assumes "list_all plain_comp r" "list_all plain_comp c" "r \<noteq> []"
  shows "prefix (join ''/'' r @ ''/'') (join ''/'' c) \<longleftrightarrow> strict_prefix r c"
proof
  assume "prefix (join ''/'' r @ ''/'') (join ''/'' c)"
  then obtain t where t: "join ''/'' c = join ''/'' r @ CHR ''/'' # t" by (auto simp: prefix_def)
  then have "c \<noteq> []" by auto
  then have "c = split_on CHR ''/'' (join ''/'' c)"
    using split_on_join plain_no_slash [OF assms(2)] by metis
  also have "\<dots> = r @ split_on CHR ''/'' t"
    unfolding t using split_on_join_append assms(3) plain_no_slash [OF assms(1)] by metis
  finally show "strict_prefix r c" by (metis strict_prefix_def prefixI same_append_eq append_Nil2 split_on_nonempty)
next
  assume "strict_prefix r c"
  then obtain d where "c = r @ d" "d \<noteq> []" by (auto simp: strict_prefix_def prefix_def)
  then show "prefix (join ''/'' r @ ''/'') (join ''/'' c)"
    using assms(3) by (simp add: join_append)
qed

lemma join_inj_plain:
  "list_all plain_comp r \<Longrightarrow> list_all plain_comp c \<Longrightarrow> join ''/'' r = join ''/'' c \<Longrightarrow> r = c"
  using rooted_slash_join(2) [of r] rooted_slash_join(2) [of c] by simp

lemma is_within_iff:
  assumes "rooted_path base" "rooted_path cand"
  shows "is_within cwd base cand \<longleftrightarrow>
    resolve cand = resolve base \<or> (resolve base \<noteq> [] \<and> prefix (resolve base) (resolve cand))"
proof (cases "resolve base = []")
  case True
  have "\<not> starts_with ''//'' (''/'' @ join ''/'' (resolve cand))"
    using join_no_slash [OF resolve_plain, of cand] by (auto simp: starts_with_def)
  then show ?thesis
    using join_inj_plain [OF resolve_plain resolve_plain, of cand base]
    by (auto simp: is_within_def Let_def norm_path_rooted assms True)
next
  case False
  have "starts_with (''/'' @ join ''/'' (resolve base) @ ''/'') (''/'' @ join ''/'' (resolve cand)) \<longleftrightarrow>
      strict_prefix (resolve base) (resolve cand)"
    using slash_join_prefix [OF resolve_plain resolve_plain False, of cand]
    by (simp add: starts_with_iff_prefix)
  moreover have "join ''/'' (resolve cand) = join ''/'' (resolve base) \<longleftrightarrow> resolve cand = resolve base"
    using join_inj_plain [OF resolve_plain resolve_plain] by metis
  ultimately show ?thesis
    using False by (auto simp: is_within_def Let_def norm_path_rooted assms strict_prefix_def)
qed

text \<open>
  The containment test decides, for absolute paths, exactly that the candidate's
  components, after resolving \<open>.\<close> and \<open>..\<close>, extend the sandbox's; the one exception is the
  sandbox \<open>/\<close> itself, which contains only itself.
\<close>

theorem is_within_spec:
  assumes "rooted_path base" and "rooted_path cand"
  shows "is_within cwd base cand \<longleftrightarrow>
    resolve cand = resolve base \<or> (resolve base \<noteq> [] \<and> prefix (resolve base) (resolve cand))"
  by (rule is_within_iff [OF assms])

theorem is_within_spec_witness:
  "is_within '''' ''/w'' ''/w/a'' \<longleftrightarrow>
    resolve ''/w/a'' = resolve ''/w'' \<or> (resolve ''/w'' \<noteq> [] \<and> prefix (resolve ''/w'') (resolve ''/w/a''))"
  by (rule is_within_spec) (simp_all add: rooted_path_def starts_with_def)

lemma is_within_slash: "\<not> is_within '''' ''/'' ''/etc''"
  by code_simp

lemma split_on_append: "split_on c (a @ c # b) = split_on c a @ split_on c b"
  by (induction a) (auto split: list.splits)

lemma resolve_path_join:
  assumes "rooted_path base" "\<not> isabs m"
  shows "resolve (path_join base m) = foldl (norm_step True) (resolve base) (split_on CHR ''/'' m)"
    and "rooted_path (path_join base m)"
proof -
  have base: "base \<noteq> []" using assms(1) by (auto simp: rooted_path_def starts_with_def)
  show "resolve (path_join base m) = foldl (norm_step True) (resolve base) (split_on CHR ''/'' m)"
  proof (cases "last base = CHR ''/''")
    case True
    then obtain b where b: "base = b @ ''/''" using base by (metis append_butlast_last_id)
    then have "path_join base m = b @ CHR ''/'' # m" using assms(2) by (simp add: path_join_def)
    then show ?thesis
      by (simp add: resolve_def norm_comps_def split_on_append b norm_step_def)
  next
    case False
    then have "path_join base m = base @ CHR ''/'' # m" using base assms(2) by (simp add: path_join_def)
    then show ?thesis by (simp add: resolve_def norm_comps_def split_on_append)
  qed
  show "rooted_path (path_join base m)"
    using assms by (cases base; cases "tl base"; cases "tl (tl base)"; cases m)
      (auto simp: rooted_path_def path_join_def starts_with_def isabs_def)
qed

lemma foldl_norm_step_down:
  "list_all plain_comp st \<Longrightarrow> ''..'' \<notin> set cs \<Longrightarrow> prefix st (foldl (norm_step True) st cs)"
proof (induction cs rule: rev_induct)
  case (snoc c cs)
  then show ?case by (auto simp: norm_step_def intro: prefix_order.trans)
qed simp

text \<open>
  Zip-slip: for a sandbox below the file-system root, a member name that is accepted
  resolves to a path inside the sandbox whatever \<open>.\<close>, \<open>..\<close> and empty components it has; and
  no relative name without \<open>..\<close> is rejected.
\<close>

theorem safe_join_spec:
  assumes "rooted_path base" and "resolve base \<noteq> []"
  shows "(\<forall>t. safe_join cwd base m = Inr t \<longrightarrow> t = path_join base m \<and> prefix (resolve base) (resolve t)) \<and>
    (\<not> starts_with ''/'' m \<and> \<not> starts_with [CHR 0x5C] m \<and> ''..'' \<notin> set (split_on CHR ''/'' m) \<longrightarrow>
       safe_join cwd base m = Inr (path_join base m))"
proof (cases "starts_with ''/'' m")
  case True
  then show ?thesis by (simp add: safe_join_def isabs_def)
next
  case False
  then have na: "\<not> isabs m" by (simp add: isabs_def)
  note r = resolve_path_join [OF assms(1) na]
  have "''..'' \<notin> set (split_on CHR ''/'' m) \<Longrightarrow> prefix (resolve base) (resolve (path_join base m))"
    by (simp add: r foldl_norm_step_down resolve_plain)
  then show ?thesis
    using na assms(2) is_within_iff [OF assms(1) r(2), of cwd]
    by (auto simp: safe_join_def Let_def)
qed

theorem safe_join_spec_witness:
  "safe_join '''' ''/w'' ''a'' = Inr ''/w/a'' \<and> prefix (resolve ''/w'') (resolve ''/w/a'')"
proof -
  have base: "rooted_path ''/w''" "resolve ''/w'' \<noteq> []"
    by (simp_all add: rooted_path_def starts_with_def resolve_def norm_comps_def norm_step_def)
  have m: "\<not> starts_with ''/'' ''a'' \<and> \<not> starts_with [CHR 0x5C] ''a'' \<and> ''..'' \<notin> set (split_on CHR ''/'' ''a'')"
    by (simp add: starts_with_def)
  have p: "path_join ''/w'' ''a'' = ''/w/a''"
    by (simp add: path_join_def isabs_def starts_with_def)
  note spec = safe_join_spec [OF base, of "''''" "''a''", unfolded p]
  show ?thesis
    using mp [OF conjunct2 [OF spec] m] spec by blast
qed

section \<open>extract.py, in-process containers\<close>

datatype entry_kind = EFile | EDir | ELink string | EOther

record entry =
  en_name :: string
  en_kind :: entry_kind
  en_size :: nat
  en_data :: bytes

text \<open>The regular files written below a destination directory, by normalised path.\<close>

type_synonym files = "(string, bytes) dict"

definition write_file :: "string \<Rightarrow> bytes \<Rightarrow> files \<Rightarrow> files" where
  "write_file target data fs = dset (normpath target) data fs"

definition collect_regular_files :: "string \<Rightarrow> string \<Rightarrow> files \<Rightarrow> (string \<times> bytes) list" where
  "collect_regular_files cwd dest fs =
     sort_key fst (filter (\<lambda>(p, _). starts_with (normpath dest @ ''/'') p \<and> is_within cwd dest p) fs)"

definition zip_entry :: "string \<Rightarrow> string \<Rightarrow> entry \<Rightarrow> files \<Rightarrow> files result" where
  "zip_entry cwd dest zi fs =
     (if en_kind zi = EDir then Inr fs
      else rbind (safe_join cwd dest (en_name zi)) (\<lambda>target.
        case en_kind zi of
          ELink link_target \<Rightarrow>
            rbind (check_symlink_target cwd dest (en_name zi) link_target) (\<lambda>_. Inr fs)
        | _ \<Rightarrow> Inr (write_file target (en_data zi) fs)))"

definition tar_member :: "string \<Rightarrow> string \<Rightarrow> entry \<Rightarrow> files \<Rightarrow> files result" where
  "tar_member cwd dest m fs =
     rbind (safe_join cwd dest (en_name m)) (\<lambda>target.
       case en_kind m of
         ELink link_target \<Rightarrow>
           rbind (check_symlink_target cwd dest (en_name m) link_target) (\<lambda>_. Inr fs)
       | EDir \<Rightarrow> Inr fs
       | EOther \<Rightarrow> Inr fs
       | EFile \<Rightarrow> Inr (write_file target (en_data m) fs))"

fun each_entry :: "(entry \<Rightarrow> files \<Rightarrow> files result) \<Rightarrow> entry list \<Rightarrow> files \<Rightarrow> files result" where
  "each_entry f [] fs = Inr fs"
| "each_entry f (e # es) fs = rbind (f e fs) (each_entry f es)"

definition extract_zip :: "string \<Rightarrow> string \<Rightarrow> nat \<Rightarrow> entry list \<Rightarrow> files result" where
  "extract_zip cwd dest input_size infos =
     rbind (check_ratio (sum_list (map en_size (filter (\<lambda>zi. en_kind zi \<noteq> EDir) infos))) input_size) (\<lambda>_.
     each_entry (zip_entry cwd dest) infos [])"

definition extract_tar :: "string \<Rightarrow> string \<Rightarrow> nat \<Rightarrow> entry list \<Rightarrow> files result" where
  "extract_tar cwd dest input_size members =
     rbind (check_ratio (sum_list (map en_size (filter (\<lambda>m. en_kind m = EFile) members))) input_size) (\<lambda>_.
     each_entry (tar_member cwd dest) members [])"

fun gzip_loop :: "nat \<Rightarrow> bytes \<Rightarrow> bytes list \<Rightarrow> bytes result" where
  "gzip_loop cap written [] = Inr written"
| "gzip_loop cap written (chunk # chunks) =
     (if cap < length (written @ chunk)
      then Inl (ZipBombError LAYER_DECOMPRESSION_RATIO ''gzip stream exceeds cap'')
      else gzip_loop cap (written @ chunk) chunks)"

definition extract_gzip :: "string \<Rightarrow> nat \<Rightarrow> bytes list \<Rightarrow> files result" where
  "extract_gzip dest input_size chunks =
     rbind (gzip_loop (max input_size 1 * DECOMPRESSION_RATIO_LIMIT) [] chunks) (\<lambda>out.
     Inr (write_file (path_join dest ''decompressed.bin'') out []))"

section \<open>Nothing is written outside the sandbox\<close>

definition confined :: "string \<Rightarrow> files \<Rightarrow> bool" where
  "confined base fs \<longleftrightarrow> (\<forall>p \<in> set (dkeys fs). rooted_path p \<and> prefix (resolve base) (resolve p))"

lemma confined_write:
  assumes "rooted_path base" "resolve base \<noteq> []" "safe_join cwd base m = Inr t" "confined base fs"
  shows "confined base (write_file t data fs)"
proof -
  from assms(3) have na: "\<not> isabs m" and t: "t = path_join base m" and w: "is_within cwd base t"
    by (auto simp: safe_join_def Let_def split: if_splits)
  note r = resolve_path_join [OF assms(1) na]
  have "prefix (resolve base) (resolve t)"
    using w is_within_iff [OF assms(1) r(2), of cwd] by (auto simp: t)
  moreover have "rooted_path (normpath t)" "resolve (normpath t) = resolve t"
    using rooted_slash_join [OF resolve_plain, of t] r(2) by (simp_all add: t normpath_rooted)
  ultimately show ?thesis using assms(4) by (simp add: confined_def write_file_def)
qed

lemma each_entry_confined:
  assumes "\<And>e fs fs'. f e fs = Inr fs' \<Longrightarrow> confined base fs \<Longrightarrow> confined base fs'"
  shows "each_entry f es fs = Inr fs' \<Longrightarrow> confined base fs \<Longrightarrow> confined base fs'"
  using assms by (induction es arbitrary: fs) auto



section \<open>Extractors\<close>

text \<open>
  What the archive libraries and the sandboxed \<open>binwalk\<close> process return for given bytes; the
  process is a parameter together with its own exceptions.
\<close>

record archive_lib =
  al_is_zip :: "bytes \<Rightarrow> bool"
  al_zip :: "bytes \<Rightarrow> entry list result"
  al_is_tar :: "bytes \<Rightarrow> bool"
  al_tar :: "bytes \<Rightarrow> entry list result"
  al_gunzip :: "bytes \<Rightarrow> bytes list result"
  al_binwalk :: "string \<Rightarrow> bytes \<Rightarrow> files result"

type_synonym extractor = "string \<Rightarrow> bytes \<Rightarrow> (string \<times> bytes) list option result"

definition native_extract :: "archive_lib \<Rightarrow> string \<Rightarrow> extractor" where
  "native_extract L cwd dest data =
     (let fmt = detect_format (take 512 data);
          input_size = length data;
          collected = (\<lambda>fs. Inr (Some (collect_regular_files cwd dest fs)))
      in if fmt = Some ''zip'' \<and> al_is_zip L data
         then rbind (al_zip L data) (\<lambda>infos. rbind (extract_zip cwd dest input_size infos) collected)
         else if fmt = Some ''tar'' \<or> al_is_tar L data
         then rbind (al_tar L data) (\<lambda>members. rbind (extract_tar cwd dest input_size members) collected)
         else if fmt = Some ''gzip''
         then rbind (al_gunzip L data) (\<lambda>chunks. rbind (extract_gzip dest input_size chunks) collected)
         else Inr None)"

definition binwalk_extract :: "archive_lib \<Rightarrow> string \<Rightarrow> extractor" where
  "binwalk_extract L cwd dest data =
     (if detect_format (take 512 data) = None then Inr None
      else rbind (al_binwalk L dest data) (\<lambda>fs.
        let files = collect_regular_files cwd dest fs
        in if files = [] then Inr None else Inr (Some files)))"

fun composite_extract :: "extractor list \<Rightarrow> extractor" where
  "composite_extract [] dest data = Inr None"
| "composite_extract (ex # exs) dest data =
     rbind (ex dest data) (\<lambda>out. case out of Some fs \<Rightarrow> Inr (Some fs) | None \<Rightarrow> composite_extract exs dest data)"

definition runtime_extractor :: "archive_lib \<Rightarrow> string \<Rightarrow> extractor" where
  "runtime_extractor L cwd = composite_extract [native_extract L cwd, binwalk_extract L cwd]"

section \<open>unpack.py\<close>

record sub_blob =
  sb_id :: string
  sb_data :: bytes
  sb_parent :: "string option"

definition sub_blob_s3_key :: "string \<Rightarrow> sub_blob \<Rightarrow> string" where
  "sub_blob_s3_key job_id sb = ''extracted/'' @ job_id @ ''/'' @ sb_id sb @ ''.bin''"

definition extracted_payload :: "string \<Rightarrow> sub_blob \<Rightarrow> payload" where
  "extracted_payload job_id sb =
     [(''job_id'', JStr job_id),
      (''sub_blob_id'', JStr (sb_id sb)),
      (''s3_key'', JStr (sub_blob_s3_key job_id sb)),
      (''parent_blob_id'', (case sb_parent sb of None \<Rightarrow> JNull | Some p \<Rightarrow> JStr p))]"

text \<open>
  The walk's running output total, its count of extraction directories, and the number of
  identifiers drawn from \<open>uuid4\<close>, on top of the state of the stores.
\<close>

record unpack_state = ingest_state +
  us_total :: nat
  us_dirs :: nat
  us_uuids :: nat

definition next_extract_dir :: "string \<Rightarrow> ('z unpack_state_scheme, string) eff" where
  "next_extract_dir workdir s =
     (let n = us_dirs s + 1
      in (Inr (path_join workdir (''_extract_'' @ nat_str n)), s\<lparr>us_dirs := n\<rparr>))"

definition new_uuid :: "(nat \<Rightarrow> string) \<Rightarrow> ('z unpack_state_scheme, string) eff" where
  "new_uuid uuid s = (Inr (uuid (us_uuids s)), s\<lparr>us_uuids := us_uuids s + 1\<rparr>)"

definition add_produced :: "nat \<Rightarrow> nat \<Rightarrow> ('z unpack_state_scheme, unit) eff" where
  "add_produced input_size n s =
     (check_ratio (us_total s + n) input_size, s\<lparr>us_total := us_total s + n\<rparr>)"

fun for_each :: "('a \<Rightarrow> ('s, unit) eff) \<Rightarrow> 'a list \<Rightarrow> ('s, unit) eff" where
  "for_each f [] = ret ()"
| "for_each f (x # xs) = ebind (f x) (\<lambda>_. for_each f xs)"

text \<open>
  \<open>_recurse\<close> at a depth, where \<open>k\<close> counts the levels from there to just beyond the cap: at
  depth \<open>RECURSION_DEPTH_CAP + 1\<close> the depth check fails, so no deeper call exists. \<open>visit\<close> is
  what the consumer of the generator does with the sub-blob it receives.
\<close>

primrec recurse ::
  "nat \<Rightarrow> extractor \<Rightarrow> (nat \<Rightarrow> string) \<Rightarrow> string \<Rightarrow> nat \<Rightarrow> (sub_blob \<Rightarrow> ('z unpack_state_scheme, unit) eff) \<Rightarrow>
   string option \<Rightarrow> bytes \<Rightarrow> ('z unpack_state_scheme, unit) eff" where
  "recurse 0 ex uuid workdir input_size visit parent cur =
     lift_result (check_depth (RECURSION_DEPTH_CAP + 1))"
| "recurse (Suc k) ex uuid workdir input_size visit parent cur =
     ebind (lift_result (check_depth (RECURSION_DEPTH_CAP - k))) (\<lambda>_.
     ebind (next_extract_dir workdir) (\<lambda>dest.
     ebind (lift_result (ex dest cur)) (\<lambda>children.
     (case children of
        None \<Rightarrow> ebind (new_uuid uuid) (\<lambda>i. visit \<lparr>sb_id = i, sb_data = cur, sb_parent = parent\<rparr>)
      | Some files \<Rightarrow>
          if files = []
          then ebind (new_uuid uuid) (\<lambda>i. visit \<lparr>sb_id = i, sb_data = cur, sb_parent = parent\<rparr>)
          else
            ebind (new_uuid uuid) (\<lambda>container_id.
            for_each (\<lambda>(path, child).
              ebind (add_produced input_size (length child)) (\<lambda>_.
              recurse k ex uuid workdir input_size visit (Some container_id) child)) files)))))"

definition walk ::
  "extractor \<Rightarrow> (nat \<Rightarrow> string) \<Rightarrow> string \<Rightarrow> nat \<Rightarrow> (sub_blob \<Rightarrow> ('z unpack_state_scheme, unit) eff) \<Rightarrow>
   bytes \<Rightarrow> ('z unpack_state_scheme, unit) eff" where
  "walk ex uuid workdir input_size visit data =
     ebind (modify (\<lambda>s. s\<lparr>us_total := 0, us_dirs := 0\<rparr>)) (\<lambda>_.
     recurse (RECURSION_DEPTH_CAP + 1) ex uuid workdir input_size visit None data)"

definition default_src_key :: "string \<Rightarrow> string" where
  "default_src_key job_id = ''raw-uploads/'' @ job_id @ ''/original.bin''"

definition extract_job ::
  "extractor \<Rightarrow> (nat \<Rightarrow> string) \<Rightarrow> string \<Rightarrow> payload \<Rightarrow> (sub_blob \<Rightarrow> ('z unpack_state_scheme, unit) eff) \<Rightarrow>
   ('z unpack_state_scheme, unit) eff" where
  "extract_job ex uuid workdir payload visit =
     ebind (lift_result (str_field payload ''job_id'')) (\<lambda>job_id.
     (let src_key = (case jget payload ''s3_key'' of
                       JStr k \<Rightarrow> if k = [] then default_src_key job_id else k
                     | _ \<Rightarrow> default_src_key job_id)
      in ebind (gets is_blobs) (\<lambda>blobs.
         ebind (lift_result (get_blob src_key blobs)) (\<lambda>data.
         walk ex uuid workdir (length data) visit data))))"

section \<open>unpack.py (handler)\<close>

definition fan_out :: "env \<Rightarrow> string \<Rightarrow> sub_blob \<Rightarrow> ('z unpack_state_scheme, unit) eff" where
  "fan_out E job_id sb =
     ebind (modify (\<lambda>s. s\<lparr>is_blobs := put_bytes (sub_blob_s3_key job_id sb) (sb_data sb) (is_blobs s)\<rparr>)) (\<lambda>_.
     ebind (on_redis_result (r_incrby (total_children job_id) 1)) (\<lambda>_.
     emit E FIRMWARE_EXTRACTED (extracted_payload job_id sb)))"

definition handle_unpack ::
  "env \<Rightarrow> extractor \<Rightarrow> (nat \<Rightarrow> string) \<Rightarrow> string \<Rightarrow> 'z unpack_state_scheme handler" where
  "handle_unpack E ex uuid workdir c payload =
     ebind (lift_result (str_field payload ''job_id'')) (\<lambda>job_id.
     (\<lambda>s. case extract_job ex uuid workdir payload (fan_out E job_id) s of
        (Inr (), s) \<Rightarrow> ebind (on_redis (r_set (extraction_complete job_id) ''1'' False None)) (\<lambda>_. ret ()) s
      | (Inl exc, s) \<Rightarrow>
          (case exc of
             ExtractionError layer msg \<Rightarrow> emit_dlq E c payload (layer @ '': '' @ msg) s
           | ZipBombError layer msg \<Rightarrow> emit_dlq E c payload (layer @ '': '' @ msg) s
           | _ \<Rightarrow> (Inl exc, s))))"

section \<open>The walk is bounded\<close>

text \<open>A consumer that remembers every sub-blob it is handed.\<close>

record traced_state = unpack_state +
  ts_seen :: "sub_blob list"

definition trace_visit :: "sub_blob \<Rightarrow> ('z traced_state_scheme, unit) eff" where
  "trace_visit sb s = (Inr (), s\<lparr>ts_seen := ts_seen s @ [sb]\<rparr>)"

definition seen_bytes :: "'z traced_state_scheme \<Rightarrow> nat" where
  "seen_bytes s = sum_list (map (\<lambda>sb. length (sb_data sb)) (ts_seen s))"

lemma seen_bytes_simps [simp]:
  "seen_bytes (s\<lparr>us_total := t\<rparr>) = seen_bytes s"
  "seen_bytes (s\<lparr>us_dirs := d\<rparr>) = seen_bytes s"
  "seen_bytes (s\<lparr>us_uuids := u\<rparr>) = seen_bytes s"
  "seen_bytes (s\<lparr>ts_seen := ts_seen s @ [sb]\<rparr>) = seen_bytes s + length (sb_data sb)"
  by (simp_all add: seen_bytes_def)

text \<open>What a step may add, given that the running total was within the limit before.\<close>

definition step_bound :: "nat \<Rightarrow> nat \<Rightarrow> 'z traced_state_scheme \<Rightarrow> unit result \<times> 'z traced_state_scheme \<Rightarrow> bool" where
  "step_bound bnd own s out \<longleftrightarrow>
     (us_total s \<le> bnd \<longrightarrow>
        seen_bytes (snd out) + us_total s \<le> seen_bytes s + max (us_total s + own) bnd \<and>
        (fst out = Inr () \<longrightarrow> us_total (snd out) \<le> bnd \<and>
           seen_bytes (snd out) + us_total s \<le> seen_bytes s + us_total (snd out) + own))"

lemma add_produced_cases:
  assumes "0 < n"
  shows "add_produced n l s =
    (if us_total s + l \<le> n * 100 then (Inr (), s\<lparr>us_total := us_total s + l\<rparr>)
     else (Inl (ZipBombError LAYER_DECOMPRESSION_RATIO ''decompression ratio exceeds limit''),
           s\<lparr>us_total := us_total s + l\<rparr>))"
  using assms by (simp add: add_produced_def check_ratio_def DECOMPRESSION_RATIO_LIMIT_def not_le)

lemma children_bound:
  assumes n: "0 < n" and IH: "\<And>p c s. step_bound (n * 100) (length c) s (rec p c s)"
  shows "step_bound (n * 100) 0 s
    (for_each (\<lambda>(path, child). ebind (add_produced n (length child)) (\<lambda>_. rec par child)) files s)"
proof (induction files arbitrary: s)
  case Nil
  then show ?case by (simp add: step_bound_def ret_def)
next
  case (Cons f files)
  obtain path child where f: "f = (path, child)" by (cases f)
  let ?loop = "for_each (\<lambda>(path, child). ebind (add_produced n (length child)) (\<lambda>_. rec par child)) files"
  let ?whole = "for_each (\<lambda>(path, child). ebind (add_produced n (length child)) (\<lambda>_. rec par child)) (f # files) s"
  show ?case
  proof (cases "us_total s + length child \<le> n * 100")
    case False
    then have "?whole = (Inl (ZipBombError LAYER_DECOMPRESSION_RATIO ''decompression ratio exceeds limit''),
        s\<lparr>us_total := us_total s + length child\<rparr>)"
      by (simp add: f add_produced_cases [OF n])
    then show ?thesis by (simp add: step_bound_def max_def)
  next
    case True
    let ?s1 = "s\<lparr>us_total := us_total s + length child\<rparr>"
    obtain r s2 where rec: "rec par child ?s1 = (r, s2)" by (cases "rec par child ?s1")
    have b: "step_bound (n * 100) (length child) ?s1 (r, s2)" using IH [of child ?s1 par] rec by simp
    show ?thesis
    proof (cases r)
      case (Inl e)
      then have "?whole = (Inl e, s2)" using True rec by (simp add: f add_produced_cases [OF n])
      then show ?thesis using b True by (auto simp: step_bound_def max_def split: if_splits)
    next
      case (Inr u)
      then have whole: "?whole = ?loop s2" using True rec by (simp add: f add_produced_cases [OF n])
      have "step_bound (n * 100) 0 s2 (?loop s2)" using Cons.IH by simp
      then show ?thesis unfolding whole using b True Inr
        by (auto simp: step_bound_def max_def split: if_splits)
    qed
  qed
qed

lemma leaf_bound:
  "step_bound bnd (length cur) s
     (ebind (new_uuid uuid) (\<lambda>i. trace_visit \<lparr>sb_id = i, sb_data = cur, sb_parent = parent\<rparr>) s)"
  by (simp add: step_bound_def ebind_def new_uuid_def trace_visit_def seen_bytes_def max_def)

lemma step_bound_mono: "step_bound bnd 0 s out \<Longrightarrow> step_bound bnd own s out"
  by (auto simp: step_bound_def max_def split: if_splits)

lemma recurse_bound:
  assumes "0 < n"
  shows "step_bound (n * 100) (length cur) s (recurse k ex uuid wd n trace_visit parent cur s)"
proof (induction k arbitrary: cur s parent)
  case 0
  then show ?case by (simp add: step_bound_def lift_result_def check_depth_def max_def)
next
  case (Suc k)
  let ?rec = "\<lambda>p c. recurse k ex uuid wd n trace_visit (Some p) c"
  let ?s1 = "s\<lparr>us_dirs := us_dirs s + 1\<rparr>"
  have same: "step_bound bnd own ?s1 out \<Longrightarrow> step_bound bnd own s out" for bnd own and out :: "unit result \<times> 'a traced_state_scheme"
    by (simp add: step_bound_def)
  have kids: "step_bound (n * 100) 0 ?s1 (ebind (new_uuid uuid) (\<lambda>cid.
      for_each (\<lambda>(path, child). ebind (add_produced n (length child)) (\<lambda>_. ?rec cid child)) files) ?s1)" for files
    using children_bound [OF assms, of ?rec "?s1\<lparr>us_uuids := us_uuids s + 1\<rparr>" "uuid (us_uuids s)" files] Suc.IH
    by (simp add: step_bound_def ebind_def new_uuid_def)
  show ?case
    using same [OF leaf_bound [of "n * 100" cur ?s1 uuid parent]] same [OF step_bound_mono [OF kids]]
    by (auto simp: ebind_def [of "lift_result _"] ebind_def [of "next_extract_dir _"] lift_result_def
        next_extract_dir_def Let_def check_depth_def step_bound_def
        split: sum.splits option.splits)
qed

text \<open>
  C10. Decompression bombs: for any extractor, however hostile its output, the sub-blobs that
  one job hands on never amount to more than 100 times the bytes of the uploaded blob,
  whether the walk completes or is stopped by a defence.
\<close>

theorem walk_output_bounded:
  assumes "data \<noteq> []" and "ts_seen s = []"
  shows "seen_bytes (snd (walk ex uuid wd (length data) trace_visit data s)) \<le> 100 * length data"
proof -
  let ?s0 = "s\<lparr>us_total := 0, us_dirs := 0\<rparr>"
  have "step_bound (length data * 100) (length data) ?s0
      (recurse (RECURSION_DEPTH_CAP + 1) ex uuid wd (length data) trace_visit None data ?s0)"
    by (rule recurse_bound) (use assms in simp)
  moreover have "seen_bytes ?s0 = 0" using assms by (simp add: seen_bytes_def)
  ultimately show ?thesis by (simp add: walk_def ebind_def modify_def step_bound_def del: recurse.simps)
qed

definition sample_unpack_state :: unpack_state where
  "sample_unpack_state =
     \<lparr>rs_redis = redis_empty, rs_log = [], rs_faults = [], as_docs = [], as_artifacts = [],
      as_jobs = [], as_pg_up = True, is_blobs = [(default_src_key ''j'', ''abcd'')],
      us_total = 0, us_dirs = 0, us_uuids = 0\<rparr>"

definition sample_traced_state :: traced_state where
  "sample_traced_state = unpack_state.extend sample_unpack_state (traced_state.fields [])"

theorem walk_output_bounded_witness:
  "seen_bytes (snd (walk (\<lambda>_ _. Inr None) nat_str ''/w'' (length ''abcd'') trace_visit ''abcd'' sample_traced_state))
     \<le> 100 * length ''abcd''"
  by (rule walk_output_bounded)
    (simp_all add: sample_traced_state_def unpack_state.extend_def traced_state.fields_def)

section \<open>Fan-out accounting\<close>

text \<open>A relation that every visit keeps, and that ignores the walk's own counters, is kept by the walk.\<close>

lemma recurse_rel:
  assumes refl: "\<And>s. R s s" and trans: "\<And>s t u. R s t \<Longrightarrow> R t u \<Longrightarrow> R s u"
    and visit: "\<And>sb s. R s (snd (visit sb s))"
    and counters: "\<And>s t. R s (s\<lparr>us_total := t\<rparr>)" "\<And>s t. R s (s\<lparr>us_dirs := t\<rparr>)" "\<And>s t. R s (s\<lparr>us_uuids := t\<rparr>)"
  shows "R s (snd (recurse k ex uuid wd n visit parent cur s))"
proof (induction k arbitrary: parent cur s)
  case 0
  then show ?case by (simp add: lift_result_def refl)
next
  case (Suc k)
  have seq: "R s (snd (ebind m f s))" if "R s (snd (m s))" "\<And>x s. R s (snd (f x s))"
    for m :: "('a unpack_state_scheme, 'x) eff" and f :: "'x \<Rightarrow> ('a unpack_state_scheme, unit) eff" and s
    using that trans by (auto simp: ebind_def split: sum.splits prod.splits)
  have uuid: "R s (snd (new_uuid uuid s))" for s by (simp add: new_uuid_def counters)
  have prod: "R s (snd (add_produced n l s))" for l s by (simp add: add_produced_def counters)
  have dir: "R s (snd (next_extract_dir wd s))" for s by (simp add: next_extract_dir_def Let_def counters)
  have lift: "R s (snd (lift_result r s))" for r :: "'x result" and s by (simp add: lift_result_def refl)
  have each: "R s (snd (for_each (\<lambda>(path, child). ebind (add_produced n (length child))
      (\<lambda>_. recurse k ex uuid wd n visit (Some cid) child)) files s))" for cid files s
  proof (induction files arbitrary: s)
    case (Cons f files)
    obtain path child where f: "f = (path, child)" by (cases f)
    show ?case unfolding f for_each.simps prod.case by (intro seq prod Suc.IH Cons.IH)
  qed (simp add: ret_def refl)
  show ?case unfolding recurse.simps
    by (intro seq lift dir) (auto split: option.splits intro!: seq uuid visit each)
qed

text \<open>
  The accounting of one job: the events produced are \<open>firmware.extracted\<close> only, and the
  total-children counter has grown by their number; no other Redis key has changed.
\<close>

definition fanned_out :: "string \<Rightarrow> 'z unpack_state_scheme \<Rightarrow> 'z unpack_state_scheme \<Rightarrow> bool" where
  "fanned_out j s s' \<longleftrightarrow>
     (\<forall>n. rs_faults s = [] \<and> fake.counter (total_children j) (rs_redis s) = Some n \<longrightarrow>
        rs_faults s' = [] \<and>
        (\<exists>ms. rs_log s' = rs_log s @ ms \<and> (\<forall>m \<in> set ms. km_topic m = FIRMWARE_EXTRACTED) \<and>
              fake.counter (total_children j) (rs_redis s') = Some (n + int (length ms))) \<and>
        (\<forall>k. k \<noteq> total_children j \<longrightarrow> r_live k (rs_redis s') = r_live k (rs_redis s)))"

lemma fanned_out_refl: "fanned_out j s s"
  by (auto simp: fanned_out_def)

lemma fanned_out_trans: "fanned_out j s t \<Longrightarrow> fanned_out j t u \<Longrightarrow> fanned_out j s u"
  unfolding fanned_out_def
proof (intro allI impI)
  fix n
  assume st: "\<forall>n. rs_faults s = [] \<and> fake.counter (total_children j) (rs_redis s) = Some n \<longrightarrow>
        rs_faults t = [] \<and>
        (\<exists>ms. rs_log t = rs_log s @ ms \<and> (\<forall>m \<in> set ms. km_topic m = FIRMWARE_EXTRACTED) \<and>
              fake.counter (total_children j) (rs_redis t) = Some (n + int (length ms))) \<and>
        (\<forall>k. k \<noteq> total_children j \<longrightarrow> r_live k (rs_redis t) = r_live k (rs_redis s))"
    and tu: "\<forall>n. rs_faults t = [] \<and> fake.counter (total_children j) (rs_redis t) = Some n \<longrightarrow>
        rs_faults u = [] \<and>
        (\<exists>ms. rs_log u = rs_log t @ ms \<and> (\<forall>m \<in> set ms. km_topic m = FIRMWARE_EXTRACTED) \<and>
              fake.counter (total_children j) (rs_redis u) = Some (n + int (length ms))) \<and>
        (\<forall>k. k \<noteq> total_children j \<longrightarrow> r_live k (rs_redis u) = r_live k (rs_redis t))"
    and s: "rs_faults s = [] \<and> fake.counter (total_children j) (rs_redis s) = Some n"
  from st s obtain ms where ms: "rs_faults t = []" "rs_log t = rs_log s @ ms"
    "\<forall>m \<in> set ms. km_topic m = FIRMWARE_EXTRACTED"
    "fake.counter (total_children j) (rs_redis t) = Some (n + int (length ms))"
    "\<forall>k. k \<noteq> total_children j \<longrightarrow> r_live k (rs_redis t) = r_live k (rs_redis s)" by blast
  from tu ms(1,4) obtain ms' where ms': "rs_faults u = []" "rs_log u = rs_log t @ ms'"
    "\<forall>m \<in> set ms'. km_topic m = FIRMWARE_EXTRACTED"
    "fake.counter (total_children j) (rs_redis u) = Some (n + int (length ms) + int (length ms'))"
    "\<forall>k. k \<noteq> total_children j \<longrightarrow> r_live k (rs_redis u) = r_live k (rs_redis t)" by blast
  show "rs_faults u = [] \<and>
        (\<exists>ms. rs_log u = rs_log s @ ms \<and> (\<forall>m \<in> set ms. km_topic m = FIRMWARE_EXTRACTED) \<and>
              fake.counter (total_children j) (rs_redis u) = Some (n + int (length ms))) \<and>
        (\<forall>k. k \<noteq> total_children j \<longrightarrow> r_live k (rs_redis u) = r_live k (rs_redis s))"
    using ms ms' by (intro conjI exI [of _ "ms @ ms'"]) auto
qed

lemma extracted_validates:
  "env_ok E \<Longrightarrow> validate_payload (e_coerce E) FIRMWARE_EXTRACTED (JObj (extracted_payload j sb)) =
     Inr (extracted_payload j sb)"
  by (cases "sb_parent sb")
    (simp_all add: validate_payload_Inr FirmwareExtracted_def extracted_payload_def env_ok_def coercers_ok_def)

lemma emit_extracted:
  "env_ok E \<Longrightarrow> emit E FIRMWARE_EXTRACTED (extracted_payload j sb) =
     produce \<lparr>km_topic = FIRMWARE_EXTRACTED, km_key = (if sb_id sb = [] then None else Some (sb_id sb)),
              km_value = Some (e_dumps E (JObj (extracted_payload j sb)))\<rparr>"
proof -
  assume "env_ok E"
  moreover have "encode_key (partition_key FIRMWARE_EXTRACTED (extracted_payload j sb)) =
      Inr (if sb_id sb = [] then None else Some (sb_id sb))"
    by (simp add: encode_key_def partition_key_def jget_def extracted_payload_def SUB_BLOB_KEYED_TOPICS_def)
  ultimately show ?thesis by (simp add: fun_eq_iff emit_def ebind_def lift_result_def extracted_validates)
qed

lemma fan_out_fanned_out:
  assumes "env_ok E"
  shows "fanned_out j s (snd (fan_out E j sb s))"
  unfolding fanned_out_def
proof (intro allI impI)
  fix n
  assume s: "rs_faults s = [] \<and> fake.counter (total_children j) (rs_redis s) = Some n"
  then have incr: "fst (r_incrby (total_children j) 1 (rs_redis s)) = Inr (n + 1)"
    by (simp add: fake.kincr_value)
  then obtain rd where rd: "r_incrby (total_children j) 1 (rs_redis s) = (Inr (n + 1), rd)"
    by (metis prod.collapse)
  have live: "r_live k rd = (if k = total_children j then Some (int_str (n + 1)) else r_live k (rs_redis s))" for k
    using fake.kincr_live [of k "total_children j" 1 "rs_redis s"] rd by simp
  show "rs_faults (snd (fan_out E j sb s)) = [] \<and>
        (\<exists>ms. rs_log (snd (fan_out E j sb s)) = rs_log s @ ms \<and> (\<forall>m \<in> set ms. km_topic m = FIRMWARE_EXTRACTED) \<and>
              fake.counter (total_children j) (rs_redis (snd (fan_out E j sb s))) = Some (n + int (length ms))) \<and>
        (\<forall>k. k \<noteq> total_children j \<longrightarrow> r_live k (rs_redis (snd (fan_out E j sb s))) = r_live k (rs_redis s))"
    using s by (auto simp: fan_out_def ebind_def modify_def on_redis_result_def rd emit_extracted [OF assms]
        produce_def live)
qed

lemma extract_job_fanned_out:
  assumes "env_ok E"
  shows "fanned_out j s (snd (extract_job ex uuid wd p (fan_out E j) s))"
proof -
  have counters: "fanned_out j s (s\<lparr>us_total := t\<rparr>)" "fanned_out j s (s\<lparr>us_dirs := t\<rparr>)"
    "fanned_out j s (s\<lparr>us_uuids := t\<rparr>)" "fanned_out j s (s\<lparr>us_total := t, us_dirs := t'\<rparr>)"
    for s :: "'a unpack_state_scheme" and t t'
    by (simp_all add: fanned_out_def)
  have rec: "fanned_out j s (snd (recurse k ex uuid wd n (fan_out E j) parent cur s))"
    for k n parent cur and s :: "'a unpack_state_scheme"
    by (rule recurse_rel)
      (rule fanned_out_refl, erule (1) fanned_out_trans, rule fan_out_fanned_out [OF assms], (rule counters)+)
  have walk: "fanned_out j s (snd (walk ex uuid wd n (fan_out E j) data s))" for n data and s :: "'a unpack_state_scheme"
    using fanned_out_trans [OF counters(4) rec] by (simp add: walk_def ebind_def modify_def del: recurse.simps)
  show ?thesis
    by (simp add: extract_job_def ebind_def lift_result_def gets_def Let_def walk fanned_out_refl
        split: sum.splits)
qed

text \<open>
  Fan-out accounting: with a working broker, whatever the container, the counter of total
  children grows by exactly the number of \<open>firmware.extracted\<close> events of the job; the
  extraction marker is set exactly when the walk finished, and when a defence stopped it
  the only further event is one dead letter.
\<close>

theorem handle_unpack_accounting:
  assumes "env_ok E" and "str_field p ''job_id'' = Inr j" and "rs_faults s = []"
    and "py_int (case r_live (total_children j) (rs_redis s) of None \<Rightarrow> ''0'' | Some v \<Rightarrow> v) = Some n"
    and "handle_unpack E ex uuid wd c p s = (r, s')"
  shows "\<exists>ms rest. rs_log s' = rs_log s @ ms @ rest \<and>
    (\<forall>m \<in> set ms. km_topic m = FIRMWARE_EXTRACTED) \<and>
    py_int (case r_live (total_children j) (rs_redis s') of None \<Rightarrow> ''0'' | Some v \<Rightarrow> v) =
      Some (n + int (length ms)) \<and>
    (if fst (extract_job ex uuid wd p (fan_out E j) s) = Inr ()
     then rest = [] \<and> r_live (extraction_complete j) (rs_redis s') = Some ''1''
     else r_live (extraction_complete j) (rs_redis s') = r_live (extraction_complete j) (rs_redis s) \<and>
          length rest \<le> 1 \<and> (\<forall>m \<in> set rest. km_topic m = FIRMWARE_DLQ))"
proof -
  obtain q t where job: "extract_job ex uuid wd p (fan_out E j) s = (q, t)"
    by (cases "extract_job ex uuid wd p (fan_out E j) s")
  have "fanned_out j s t" using extract_job_fanned_out [OF assms(1), of j s ex uuid wd p] job by simp
  then obtain ms where ms: "rs_faults t = []" "rs_log t = rs_log s @ ms"
    "\<forall>m \<in> set ms. km_topic m = FIRMWARE_EXTRACTED"
    "fake.counter (total_children j) (rs_redis t) = Some (n + int (length ms))"
    "\<forall>k. k \<noteq> total_children j \<longrightarrow> r_live k (rs_redis t) = r_live k (rs_redis s)"
    using assms(3,4) unfolding fanned_out_def by blast
  have dlq: "\<exists>d. emit_dlq E c p err t = (Inr (), t\<lparr>rs_log := rs_log t @ [d], rs_faults := []\<rparr>) \<and> km_topic d = FIRMWARE_DLQ" for err
    using assms(1) ms(1)
    by (auto simp: emit_dlq_def ebind_def lift_result_def build_dlq_record_eq emit_dlq_record produce_def
        dlq_payload_def [symmetric])
  show ?thesis
  proof (cases q)
    case (Inr u)
    let ?set = "r_set (extraction_complete j) ''1'' False None (rs_redis t)"
    have live: "r_live k (snd ?set) = (if k = extraction_complete j then Some ''1'' else r_live k (rs_redis t))" for k
      by (simp add: fake.kset_live)
    have "s' = t\<lparr>rs_redis := snd ?set\<rparr>"
      using assms(2,5) job Inr
      by (auto simp: handle_unpack_def ebind_def lift_result_def on_redis_def ret_def case_unit_Unity
          split: prod.splits)
    then show ?thesis using ms live job Inr by (intro exI [of _ ms] exI [of _ "[]"]) simp
  next
    case (Inl e)
    have "s' = t \<or> (\<exists>d. s' = t\<lparr>rs_log := rs_log t @ [d], rs_faults := []\<rparr> \<and> km_topic d = FIRMWARE_DLQ)"
      using assms(2,5) job Inl dlq
      by (cases e) (auto simp: handle_unpack_def ebind_def lift_result_def, metis prod.inject, metis prod.inject)
    then show ?thesis
    proof (elim disjE exE conjE)
      assume "s' = t"
      then show ?thesis using ms job Inl by (intro exI [of _ ms] exI [of _ "[]"]) simp
    next
      fix d
      assume "s' = t\<lparr>rs_log := rs_log t @ [d], rs_faults := []\<rparr>" "km_topic d = FIRMWARE_DLQ"
      then show ?thesis using ms job Inl by (intro exI [of _ ms] exI [of _ "[d]"]) simp
    qed
  qed
qed

lemma sample_job_field: "str_field sample_payload ''job_id'' = Inr ''j''"
  by (simp add: str_field_def jindex_def sample_payload_def)

theorem handle_unpack_accounting_witness:
  "\<exists>ms rest. rs_log (snd (handle_unpack sample_env (\<lambda>_ _. Inr None) nat_str ''/w''
        \<lparr>cx_source = FIRMWARE_TRIAGED, cx_key = ''j''\<rparr> sample_payload sample_unpack_state)) =
      rs_log sample_unpack_state @ ms @ rest \<and>
    (\<forall>m \<in> set ms. km_topic m = FIRMWARE_EXTRACTED) \<and>
    py_int (case r_live (total_children ''j'') (rs_redis (snd (handle_unpack sample_env (\<lambda>_ _. Inr None) nat_str ''/w''
        \<lparr>cx_source = FIRMWARE_TRIAGED, cx_key = ''j''\<rparr> sample_payload sample_unpack_state))) of
          None \<Rightarrow> ''0'' | Some v \<Rightarrow> v) = Some (0 + int (length ms)) \<and>
    (if fst (extract_job (\<lambda>_ _. Inr None) nat_str ''/w'' sample_payload (fan_out sample_env ''j'') sample_unpack_state) = Inr ()
     then rest = [] \<and> r_live (extraction_complete ''j'') (rs_redis (snd (handle_unpack sample_env (\<lambda>_ _. Inr None)
        nat_str ''/w'' \<lparr>cx_source = FIRMWARE_TRIAGED, cx_key = ''j''\<rparr> sample_payload sample_unpack_state))) = Some ''1''
     else r_live (extraction_complete ''j'') (rs_redis (snd (handle_unpack sample_env (\<lambda>_ _. Inr None)
        nat_str ''/w'' \<lparr>cx_source = FIRMWARE_TRIAGED, cx_key = ''j''\<rparr> sample_payload sample_unpack_state))) =
          r_live (extraction_complete ''j'') (rs_redis sample_unpack_state) \<and>
          length rest \<le> 1 \<and> (\<forall>m \<in> set rest. km_topic m = FIRMWARE_DLQ))"
proof (rule handle_unpack_accounting [OF sample_env_ok sample_job_field _ _ surjective_pairing])
  have "py_int ''0'' = Some 0" by code_simp
  then show "py_int (case r_live (total_children ''j'') (rs_redis sample_unpack_state) of
      None \<Rightarrow> ''0'' | Some v \<Rightarrow> v) = Some 0"
    by (simp add: sample_unpack_state_def r_live_def r_overdue_def redis_empty_def)
qed (simp add: sample_unpack_state_def)

end
