(* ===== verification/CveConfig.thy ===== *)
theory CveConfig
  imports Events
begin

text \<open>
  Families, thresholds and tiers of the CVE matcher (\<open>services/cve_matching/config.py\<close>,
  \<open>tiering.py\<close>). The per-family overrides, a module-level dictionary of the code, are an
  explicit argument. The lemmas show that the validated constructor keeps the thresholds
  ordered, that a family is resolved by its product token alone, and that tiers grow with
  the score.
\<close>

section \<open>Thresholds\<close>

record threshold_config =
  th_high :: pyfloat
  th_possible :: pyfloat
  th_low :: pyfloat

definition thresholds_valid :: "threshold_config \<Rightarrow> bool" where
  "thresholds_valid t =
     (0 \<le> th_low t \<and> th_low t \<le> th_possible t \<and> th_possible t \<le> th_high t \<and> th_high t \<le> 1)"

text \<open>The constructor with its \<open>__post_init__\<close> check.\<close>

definition ThresholdConfig :: "pyfloat \<Rightarrow> pyfloat \<Rightarrow> pyfloat \<Rightarrow> threshold_config result" where
  "ThresholdConfig high possible low =
     (let t = \<lparr>th_high = high, th_possible = possible, th_low = low\<rparr>
      in if thresholds_valid t then Inr t
         else Inl (ValueError ''thresholds must satisfy 0 <= low <= possible <= high <= 1''))"

definition DEFAULT_THRESHOLDS :: threshold_config where
  "DEFAULT_THRESHOLDS = \<lparr>th_high = flit 9 10, th_possible = flit 7 10, th_low = flit 1 2\<rparr>"

type_synonym family_thresholds = "(string, threshold_config) dict"

definition thresholds_for :: "family_thresholds \<Rightarrow> string option \<Rightarrow> threshold_config" where
  "thresholds_for T family =
     (case family of
        None \<Rightarrow> DEFAULT_THRESHOLDS
      | Some f \<Rightarrow> (case dget T f of Some override \<Rightarrow> override | None \<Rightarrow> DEFAULT_THRESHOLDS))"

definition set_family_thresholds ::
  "string \<Rightarrow> threshold_config \<Rightarrow> family_thresholds \<Rightarrow> family_thresholds" where
  "set_family_thresholds family t T = dset family t T"

text \<open>Every installed override was built by the constructor.\<close>

definition overrides_ok :: "family_thresholds \<Rightarrow> bool" where
  "overrides_ok T \<longleftrightarrow> (\<forall>f t. dget T f = Some t \<longrightarrow> thresholds_valid t)"

lemma ThresholdConfig_Inr [simp]:
  "ThresholdConfig h p l = Inr t \<longleftrightarrow>
     t = \<lparr>th_high = h, th_possible = p, th_low = l\<rparr> \<and> thresholds_valid t"
  by (auto simp: ThresholdConfig_def Let_def)

lemma flit_half [simp]: "flit 1 2 = 1 / 2"
proof -
  have "flit 1 2 = fl (of_int 1 * 2 powi (- 1))" by (simp add: flit_def)
  also have "\<dots> = of_int 1 * 2 powi (- 1)" by (rule fl_exact) (rule refl, simp)
  finally show ?thesis by simp
qed

lemma default_thresholds_valid [simp]: "thresholds_valid DEFAULT_THRESHOLDS"
proof -
  have "flit 1 2 \<le> flit 7 10" "flit 7 10 \<le> flit 9 10" "flit 9 10 \<le> 1"
    unfolding flit_def by (rule fl_mono fl_le_1, simp)+
  then show ?thesis by (simp add: thresholds_valid_def DEFAULT_THRESHOLDS_def)
qed

lemma thresholds_for_valid: "overrides_ok T \<Longrightarrow> thresholds_valid (thresholds_for T f)"
  by (auto simp: overrides_ok_def thresholds_for_def split: option.splits)

lemma overrides_ok_empty [simp]: "overrides_ok []"
  by (simp add: overrides_ok_def)

lemma overrides_ok_set:
  "overrides_ok T \<Longrightarrow> thresholds_valid t \<Longrightarrow> overrides_ok (set_family_thresholds f t T)"
  by (simp add: overrides_ok_def set_family_thresholds_def)

lemma thresholds_for_set:
  "thresholds_for (set_family_thresholds f t T) (Some g) = (if g = f then t else thresholds_for T (Some g))"
  by (simp add: thresholds_for_def set_family_thresholds_def)

section \<open>Component families\<close>

record component_family =
  cf_name :: string
  cf_vendors :: "string list"
  cf_products :: "string list"

definition ComponentFamily :: "string \<Rightarrow> string list \<Rightarrow> string list \<Rightarrow> component_family" where
  "ComponentFamily n vs ps = \<lparr>cf_name = n, cf_vendors = vs, cf_products = ps\<rparr>"

definition COMPONENT_FAMILIES :: "component_family list" where
  "COMPONENT_FAMILIES =
     [ComponentFamily ''busybox'' [''busybox''] [''busybox''],
      ComponentFamily ''openssl'' [''openssl''] [''openssl''],
      ComponentFamily ''libcurl'' [''haxx'', ''curl''] [''curl'', ''libcurl''],
      ComponentFamily ''dropbear'' [''dropbear'', ''dropbear_ssh_project'', ''matt_johnston'']
        [''dropbear'', ''dropbear_ssh''],
      ComponentFamily ''uclibc'' [''uclibc'', ''uclibc-ng_project'', ''erik_andersen'']
        [''uclibc'', ''uclibc-ng''],
      ComponentFamily ''linux_kernel'' [''linux''] [''linux_kernel''],
      ComponentFamily ''zlib'' [''zlib'', ''gnu''] [''zlib''],
      ComponentFamily ''openssh'' [''openbsd''] [''openssh''],
      ComponentFamily ''glibc'' [''gnu''] [''glibc''],
      ComponentFamily ''wpa_supplicant'' [''w1.fi''] [''wpa_supplicant'', ''hostapd''],
      ComponentFamily ''u-boot'' [''denx''] [''u-boot''],
      ComponentFamily ''lighttpd'' [''lighttpd''] [''lighttpd'']]"

definition PRODUCT_INDEX :: "(string, component_family) dict" where
  "PRODUCT_INDEX =
     foldl (\<lambda>d fam. foldl (\<lambda>d product. dset (lower product) fam d) d (cf_products fam))
       [] COMPONENT_FAMILIES"

definition FAMILY_BY_NAME :: "(string, component_family) dict" where
  "FAMILY_BY_NAME = foldl (\<lambda>d fam. dset (cf_name fam) fam d) [] COMPONENT_FAMILIES"

definition family_by_name :: "string option \<Rightarrow> component_family option" where
  "family_by_name name =
     (case name of None \<Rightarrow> None | Some n \<Rightarrow> if n = [] then None else dget FAMILY_BY_NAME n)"

definition family_for :: "string option \<Rightarrow> string option \<Rightarrow> string option" where
  "family_for vendor product =
     (case product of
        None \<Rightarrow> None
      | Some p \<Rightarrow>
          if p = [] then None
          else case dget PRODUCT_INDEX (lower (strip p)) of
                 None \<Rightarrow> None
               | Some fam \<Rightarrow> Some (cf_name fam))"

definition is_in_scope :: "string option \<Rightarrow> string option \<Rightarrow> bool" where
  "is_in_scope vendor product = (family_for vendor product \<noteq> None)"

lemma lower_product_tokens:
  "list_all (\<lambda>fam. list_all (\<lambda>p. lower p = p) (cf_products fam)) COMPONENT_FAMILIES"
  by code_simp

lemma PRODUCT_INDEX_eq:
  "PRODUCT_INDEX = concat (map (\<lambda>fam. map (\<lambda>p. (p, fam)) (cf_products fam)) COMPONENT_FAMILIES)"
  by code_simp

lemma product_tokens_distinct: "distinct (dkeys PRODUCT_INDEX)"
  by code_simp

lemma FAMILY_BY_NAME_eq: "FAMILY_BY_NAME = map (\<lambda>fam. (cf_name fam, fam)) COMPONENT_FAMILIES"
  by code_simp

lemma family_names_distinct: "distinct (map cf_name COMPONENT_FAMILIES)"
  by code_simp

lemma family_names_nonempty: "list_all (\<lambda>fam. cf_name fam \<noteq> []) COMPONENT_FAMILIES"
  by code_simp

lemma PRODUCT_INDEX_lookup:
  "dget PRODUCT_INDEX p = Some fam \<longleftrightarrow> fam \<in> set COMPONENT_FAMILIES \<and> p \<in> set (cf_products fam)"
proof -
  have "dget PRODUCT_INDEX p = Some fam \<longleftrightarrow> (p, fam) \<in> set PRODUCT_INDEX"
    using product_tokens_distinct by (rule map_of_eq_Some_iff)
  then show ?thesis by (auto simp: PRODUCT_INDEX_eq)
qed

lemma family_by_name_lookup:
  "family_by_name (Some n) = Some fam \<longleftrightarrow> fam \<in> set COMPONENT_FAMILIES \<and> n = cf_name fam"
proof -
  have d: "distinct (dkeys FAMILY_BY_NAME)"
    using family_names_distinct by (simp add: FAMILY_BY_NAME_eq o_def)
  have "dget FAMILY_BY_NAME n = Some fam \<longleftrightarrow> (n, fam) \<in> set FAMILY_BY_NAME"
    using d by (rule map_of_eq_Some_iff)
  then show ?thesis
    using family_names_nonempty
    by (auto simp: family_by_name_def FAMILY_BY_NAME_eq list_all_iff)
qed

lemma family_for_Some:
  "family_for v (Some p) = Some f \<longleftrightarrow>
     (\<exists>fam \<in> set COMPONENT_FAMILIES. cf_name fam = f \<and> lower (strip p) \<in> set (cf_products fam))"
proof -
  have "[] \<notin> set (dkeys PRODUCT_INDEX)" by code_simp
  then have "dget PRODUCT_INDEX [] = None" by (simp add: dget_None_iff)
  then have "\<not> (\<exists>fam \<in> set COMPONENT_FAMILIES. [] \<in> set (cf_products fam))"
    by (metis PRODUCT_INDEX_lookup option.distinct(1))
  then have ne: "lower (strip p) \<in> set (cf_products fam) \<Longrightarrow> fam \<in> set COMPONENT_FAMILIES \<Longrightarrow> p \<noteq> []" for fam
    by auto
  have iff: "dget PRODUCT_INDEX (lower (strip p)) = Some fam \<longleftrightarrow>
      fam \<in> set COMPONENT_FAMILIES \<and> lower (strip p) \<in> set (cf_products fam)" for fam
    by (rule PRODUCT_INDEX_lookup)
  show ?thesis
  proof (cases "dget PRODUCT_INDEX (lower (strip p))")
    case None
    then have "\<not> (fam \<in> set COMPONENT_FAMILIES \<and> lower (strip p) \<in> set (cf_products fam))" for fam
      using iff [of fam] by simp
    with None show ?thesis by (auto simp: family_for_def)
  next
    case (Some g)
    have uniq: "g = fam" if "fam \<in> set COMPONENT_FAMILIES" "lower (strip p) \<in> set (cf_products fam)" for fam
      using iff [of fam] that Some by (simp only: option.inject)
    have g: "g \<in> set COMPONENT_FAMILIES" "lower (strip p) \<in> set (cf_products g)"
      using iffD1 [OF iff [of g] Some] by blast+
    with ne have "p \<noteq> []" by blast
    then have "family_for v (Some p) = Some (cf_name g)" using Some by (simp add: family_for_def)
    with uniq g show ?thesis by (metis option.inject)
  qed
qed

lemma family_for_vendor: "family_for v p = family_for v' p"
  by (simp add: family_for_def)

section \<open>Tiers\<close>

fun tier_rank :: "ConfidenceTier \<Rightarrow> nat" where
  "tier_rank CONFIRMED = 4"
| "tier_rank HIGH_CONFIDENCE = 3"
| "tier_rank POSSIBLE = 2"
| "tier_rank LOW_CONFIDENCE = 1"
| "tier_rank NO_MATCH = 0"

lemma tier_rank_inj: "tier_rank s = tier_rank t \<longleftrightarrow> s = t"
  by (cases s; cases t) simp_all

instantiation ConfidenceTier :: linorder
begin

definition less_eq_ConfidenceTier :: "ConfidenceTier \<Rightarrow> ConfidenceTier \<Rightarrow> bool" where
  "less_eq_ConfidenceTier s t = (tier_rank s \<le> tier_rank t)"

definition less_ConfidenceTier :: "ConfidenceTier \<Rightarrow> ConfidenceTier \<Rightarrow> bool" where
  "less_ConfidenceTier s t = (tier_rank s < tier_rank t)"

instance
  by standard (auto simp: less_eq_ConfidenceTier_def less_ConfidenceTier_def tier_rank_inj)

end

definition tier_for_score :: "family_thresholds \<Rightarrow> pyfloat \<Rightarrow> string option \<Rightarrow> ConfidenceTier" where
  "tier_for_score T score family =
     (let t = thresholds_for T family
      in if th_high t \<le> score then HIGH_CONFIDENCE
         else if th_possible t \<le> score then POSSIBLE
         else if th_low t \<le> score then LOW_CONFIDENCE
         else NO_MATCH)"

definition needs_llm_rationale :: "ConfidenceTier \<Rightarrow> bool" where
  "needs_llm_rationale tier = (tier \<in> {POSSIBLE, LOW_CONFIDENCE})"

lemma tier_for_score_neq_CONFIRMED [simp]: "tier_for_score T s f \<noteq> CONFIRMED"
  by (simp add: tier_for_score_def Let_def)

lemma tier_for_score_mono: "s \<le> s' \<Longrightarrow> tier_for_score T s f \<le> tier_for_score T s' f"
  by (auto simp: tier_for_score_def Let_def less_eq_ConfidenceTier_def)

lemma tier_for_score_drop:
  "overrides_ok T \<Longrightarrow> tier_for_score T s f = NO_MATCH \<longleftrightarrow> s < th_low (thresholds_for T f)"
  using thresholds_for_valid [of T f]
  by (auto simp: tier_for_score_def Let_def thresholds_valid_def)

end
