(* ===== verification/Cpe.thy ===== *)
theory Cpe
  imports CveConfig Narrator PyRegex
begin

text \<open>
  CPE strings and version normalization (\<open>services/cve_matching/cpe.py\<close>, \<open>normalize.py\<close>):
  parsing and building the formatted string, family resolution, version extraction with
  the per-family patterns, and the candidate keys of the exact lookup. The lemmas give the
  round trip of building and parsing, and the family of every candidate key.
\<close>

section \<open>cpe.py\<close>

record cpe_parts =
  cp_part :: string
  cp_vendor :: string
  cp_product :: string
  cp_version :: string

definition unescape :: "string \<Rightarrow> string" where
  "unescape s = replace_str [CHR 0x5C, CHR ''/''] ''/'' (replace_str [CHR 0x5C, CHR '':''] '':'' s)"

definition field_or :: "string \<Rightarrow> string list \<Rightarrow> nat \<Rightarrow> string" where
  "field_or d fs i = (if i < length fs then fs ! i else d)"

definition parse_cpe :: "string \<Rightarrow> cpe_parts option" where
  "parse_cpe cpe =
     (if cpe = [] then None
      else
        let s = strip cpe
        in if starts_with ''cpe:2.3:'' (lower s)
           then let fs = split_on CHR '':'' s
                in if length fs < 6 then None
                   else Some \<lparr>cp_part = lower (fs ! 2), cp_vendor = lower (unescape (fs ! 3)),
                              cp_product = lower (unescape (fs ! 4)), cp_version = unescape (fs ! 5)\<rparr>
           else if starts_with ''cpe:/'' (lower s)
           then let fs = split_on CHR '':'' (drop 5 s);
                    part = lower (field_or [] fs 0);
                    vendor = lower (field_or [] fs 1);
                    product = lower (field_or [] fs 2);
                    version = field_or ''*'' fs 3
                in if product = [] then None
                   else Some \<lparr>cp_part = (if part = [] then ''a'' else part), cp_vendor = vendor,
                              cp_product = product,
                              cp_version = (if version = [] then ''*'' else version)\<rparr>
           else None)"

definition cpe_field :: "string \<Rightarrow> string" where
  "cpe_field v = (let v = lower (strip v) in if v \<noteq> [] then v else ''*'')"

definition build_cpe :: "string \<Rightarrow> string \<Rightarrow> string \<Rightarrow> string \<Rightarrow> string" where
  "build_cpe vendor product version part =
     ''cpe:2.3:'' @ (if part = [] then ''a'' else part) @ '':'' @ cpe_field vendor @ '':'' @
     cpe_field product @ '':'' @ cpe_field version @ '':*:*:*:*:*:*:*''"

definition family_for_cpe :: "string \<Rightarrow> string option" where
  "family_for_cpe cpe =
     (case parse_cpe cpe of
        None \<Rightarrow> None
      | Some parts \<Rightarrow> family_for (Some (cp_vendor parts)) (Some (cp_product parts)))"

definition in_scope_cpes :: "string list \<Rightarrow> string list" where
  "in_scope_cpes cpes =
     foldl (\<lambda>seen cpe. if family_for_cpe cpe \<noteq> None then push_new (strip cpe) seen else seen) [] cpes"

section \<open>normalize.py\<close>

definition RDot :: re where "RDot = RChar ((=) CHR ''.'')"

definition PATCH_LETTER :: re where "PATCH_LETTER = ROpt (RChar is_lower)"

definition FAMILY_VERSION_PATTERNS :: "(string, re) dict" where
  "FAMILY_VERSION_PATTERNS =
     [(''openssl'', RSeqs [RDigits, RDot, RDigits, RDot, RDigits, PATCH_LETTER]),
      (''busybox'', RSeqs [RDigits, RDot, RDigits, RDot, RDigits]),
      (''linux_kernel'', RSeqs [RDigits, RDot, RDigits, RRep 0 (Some 2) (RSeq RDot RDigits)]),
      (''dropbear'', RAlt (RSeqs [RRep 4 (Some 4) RDigit, RDot, RDigits]) (RSeqs [RDigits, RDot, RDigits]))]"

definition DEFAULT_VERSION_PATTERN :: re where
  "DEFAULT_VERSION_PATTERN = RSeqs [RDigits, RRep 1 (Some 3) (RSeq RDot RDigits), PATCH_LETTER]"

record normalized_component =
  nc_vendor :: string
  nc_product :: string
  nc_version :: "string option"
  nc_family :: "string option"
  nc_raw_text :: string

definition extract_version :: "string \<Rightarrow> string option \<Rightarrow> string option" where
  "extract_version text family =
     (if text = [] then None
      else
        let pattern = (case dget FAMILY_VERSION_PATTERNS (case family of None \<Rightarrow> [] | Some f \<Rightarrow> f) of
                         None \<Rightarrow> DEFAULT_VERSION_PATTERN | Some r \<Rightarrow> r)
        in case group0 pattern text of
             Some v \<Rightarrow> Some v
           | None \<Rightarrow> group0 DEFAULT_VERSION_PATTERN text)"

text \<open>\<open>(vc.get(k) or "").strip()\<close>: a value that is neither false nor a string has no \<open>strip\<close>.\<close>

definition or_strip :: "payload \<Rightarrow> string \<Rightarrow> string result" where
  "or_strip vc k =
     (if \<not> truthy (jget vc k) then Inr []
      else case jget vc k of JStr s \<Rightarrow> Inr (strip s) | _ \<Rightarrow> Inl (AttributeError ''strip''))"

text \<open>\<open>str(vc.get(k) or "").strip()\<close>; \<open>rep\<close> renders floats, lists and dictionaries.\<close>

definition str_strip :: "(json \<Rightarrow> string) \<Rightarrow> payload \<Rightarrow> string \<Rightarrow> string" where
  "str_strip rep vc k = (if truthy (jget vc k) then strip (py_text rep (jget vc k)) else [])"

definition normalize_candidate :: "(json \<Rightarrow> string) \<Rightarrow> payload \<Rightarrow> normalized_component result" where
  "normalize_candidate rep vc =
     rbind (or_strip vc ''vendor'') (\<lambda>vendor.
     rbind (or_strip vc ''product'') (\<lambda>product.
     (let vendor = lower vendor; product = lower product;
          version_raw = str_strip rep vc ''version'';
          family = family_for (Some vendor) (Some product);
          version = (case extract_version version_raw family of
                       Some v \<Rightarrow> Some v
                     | None \<Rightarrow> extract_version (product @ '' '' @ version_raw) family);
          raw_text = strip (join '' '' (filter (\<lambda>t. t \<noteq> []) [vendor, product, version_raw]))
      in Inr \<lparr>nc_vendor = vendor, nc_product = product, nc_version = version, nc_family = family,
              nc_raw_text = (if raw_text \<noteq> [] then raw_text else strip (vendor @ '' '' @ product))\<rparr>)))"

definition cpe_combos :: "normalized_component \<Rightarrow> (string \<times> string) list" where
  "cpe_combos nc =
     (case family_by_name (nc_family nc) of
        None \<Rightarrow> []
      | Some fam \<Rightarrow>
          concat (map (\<lambda>vendor. map (\<lambda>product. (vendor, product)) (cf_products fam)) (cf_vendors fam))) @
     (if nc_vendor nc \<noteq> [] \<or> nc_product nc \<noteq> [] then [(nc_vendor nc, nc_product nc)] else [])"

definition candidate_cpes :: "normalized_component \<Rightarrow> string list" where
  "candidate_cpes nc =
     (case nc_version nc of
        None \<Rightarrow> []
      | Some version \<Rightarrow>
          if version = [] then []
          else foldl (\<lambda>seen (vendor, product).
                  if product = [] then seen else push_new (build_cpe vendor product version ''a'') seen)
                 [] (cpe_combos nc))"

section \<open>Round trip\<close>

lemma lower_avoids:
  assumes "\<not> is_lower d" "\<not> is_upper d" "d \<notin> set s"
  shows "d \<notin> set (lower s)"
proof
  assume "d \<in> set (lower s)"
  then obtain c where c: "c \<in> set s" "lower_char c = d" by (auto simp: lower_def)
  then show False using lower_char_eq_iff [OF assms(1,2), of c] assms(3) by simp
qed

lemma lower_no_colon: "CHR '':'' \<notin> set s \<Longrightarrow> CHR '':'' \<notin> set (lower s)"
  by (rule lower_avoids) (simp_all add: is_lower_def is_upper_def)

lemma lower_no_backslash: "CHR 0x5C \<notin> set s \<Longrightarrow> CHR 0x5C \<notin> set (lower s)"
  by (rule lower_avoids) (simp_all add: is_lower_def is_upper_def)

lemma cpe_field_no_colon: "CHR '':'' \<notin> set v \<Longrightarrow> CHR '':'' \<notin> set (cpe_field v)"
  using set_strip_subset [of v] lower_no_colon [of "strip v"] by (auto simp: cpe_field_def Let_def)

lemma cpe_field_no_backslash: "CHR 0x5C \<notin> set v \<Longrightarrow> CHR 0x5C \<notin> set (cpe_field v)"
  using set_strip_subset [of v] lower_no_backslash [of "strip v"] by (auto simp: cpe_field_def Let_def)

lemma lower_cpe_field [simp]: "lower (cpe_field v) = cpe_field v"
proof -
  have "lower ''*'' = ''*''" by code_simp
  then show ?thesis by (auto simp: cpe_field_def Let_def)
qed

lemma unescape_id: "CHR 0x5C \<notin> set s \<Longrightarrow> unescape s = s"
  by (simp add: unescape_def replace_str_absent)

definition CPE_TAIL :: string where "CPE_TAIL = ''*:*:*:*:*:*:*''"

lemma build_cpe_shape:
  "build_cpe v p ver part =
     ''cpe'' @ CHR '':'' # ''2.3'' @ CHR '':'' # (if part = [] then ''a'' else part) @
     CHR '':'' # cpe_field v @ CHR '':'' # cpe_field p @ CHR '':'' # cpe_field ver @ CHR '':'' # CPE_TAIL"
  by (simp add: build_cpe_def CPE_TAIL_def)

lemma build_cpe_stripped: "stripped (build_cpe v p ver part)"
  by (simp add: build_cpe_shape CPE_TAIL_def stripped_def is_space_def)

lemma split_build_cpe:
  assumes "CHR '':'' \<notin> set v" "CHR '':'' \<notin> set p" "CHR '':'' \<notin> set ver" "CHR '':'' \<notin> set part"
  shows "split_on CHR '':'' (build_cpe v p ver part) =
    [''cpe'', ''2.3'', if part = [] then ''a'' else part, cpe_field v, cpe_field p, cpe_field ver] @
    split_on CHR '':'' CPE_TAIL"
proof -
  define part' where "part' = (if part = [] then ''a'' else part)"
  have c: "CHR '':'' \<notin> set ''cpe''" "CHR '':'' \<notin> set ''2.3''" by simp_all
  have "CHR '':'' \<notin> set part'" using assms(4) by (simp add: part'_def)
  note f = c this cpe_field_no_colon [OF assms(1)] cpe_field_no_colon [OF assms(2)]
    cpe_field_no_colon [OF assms(3)]
  show ?thesis
    unfolding build_cpe_shape part'_def [symmetric] f [THEN split_on_append_sep] by (simp only: append.simps)
qed

lemma build_cpe_prefix: "starts_with ''cpe:2.3:'' (lower (build_cpe v p ver part))"
proof -
  have "lower ''cpe:2.3:'' = ''cpe:2.3:''" by code_simp
  then show ?thesis by (simp only: build_cpe_def lower_append starts_with_append)
qed

lemma parse_build_colon_free:
  assumes "CHR '':'' \<notin> set v" "CHR '':'' \<notin> set p" "CHR '':'' \<notin> set ver" "CHR '':'' \<notin> set part"
  shows "parse_cpe (build_cpe v p ver part) =
    Some \<lparr>cp_part = lower (if part = [] then ''a'' else part), cp_vendor = lower (unescape (cpe_field v)),
          cp_product = lower (unescape (cpe_field p)), cp_version = unescape (cpe_field ver)\<rparr>"
proof -
  have ne: "build_cpe v p ver part \<noteq> []" by (simp add: build_cpe_def)
  have st: "strip (build_cpe v p ver part) = build_cpe v p ver part"
    by (rule strip_stripped) (rule build_cpe_stripped)
  show ?thesis
    unfolding parse_cpe_def st Let_def split_build_cpe [OF assms]
    using ne build_cpe_prefix [of v p ver part] by simp
qed

text \<open>
  Building a CPE from colon- and backslash-free fields and parsing it back gives the
  normalized fields (stripped, lower case, the wildcard for an empty one), so building is
  injective up to that normalization.
\<close>

theorem parse_build_cpe:
  assumes "\<forall>s \<in> {v, p, ver, part}. CHR '':'' \<notin> set s \<and> CHR 0x5C \<notin> set s"
  shows "parse_cpe (build_cpe v p ver part) =
    Some \<lparr>cp_part = lower (if part = [] then ''a'' else part), cp_vendor = cpe_field v,
          cp_product = cpe_field p, cp_version = cpe_field ver\<rparr>"
proof -
  have u: "unescape (cpe_field s) = cpe_field s" if "s \<in> {v, p, ver, part}" for s
    using assms that by (intro unescape_id cpe_field_no_backslash) blast
  show ?thesis using assms parse_build_colon_free [of v p ver part] u by simp
qed

theorem parse_build_cpe_witness:
  "parse_cpe (build_cpe ''BusyBox '' ''busybox'' ''1.31.1'' []) =
    Some \<lparr>cp_part = ''a'', cp_vendor = ''busybox'', cp_product = ''busybox'', cp_version = ''1.31.1''\<rparr>"
proof -
  have f: "cpe_field ''BusyBox '' = ''busybox''" "cpe_field ''busybox'' = ''busybox''"
    "cpe_field ''1.31.1'' = ''1.31.1''" "lower ''a'' = ''a''" by code_simp+
  have "\<forall>s \<in> {''BusyBox '', ''busybox'', ''1.31.1'', []}. CHR '':'' \<notin> set s \<and> CHR 0x5C \<notin> set s" by simp
  from parse_build_cpe [OF this] show ?thesis by (simp add: f)
qed

text \<open>A colon escaped as the CPE binding asks for is taken for a field separator all the same.\<close>

lemma parse_cpe_escaped_colon:
  "parse_cpe (''cpe:2.3:a:perl:dbi'' @ [CHR 0x5C] @ '':mysql:4.0:*:*:*:*:*:*:*'') =
    Some \<lparr>cp_part = ''a'', cp_vendor = ''perl'', cp_product = ''dbi'' @ [CHR 0x5C], cp_version = ''mysql''\<rparr>"
  by code_simp

section \<open>Candidate keys\<close>

lemma extract_version_chars:
  assumes "extract_version t f = Some v"
  shows "\<forall>c \<in> set v. is_digit c \<or> c = CHR ''.'' \<or> is_lower c"
proof -
  let ?P = "\<lambda>c. is_digit c \<or> c = CHR ''.'' \<or> is_lower c"
  have default_ok: "re_all ?P DEFAULT_VERSION_PATTERN"
    by (simp add: DEFAULT_VERSION_PATTERN_def RDot_def PATCH_LETTER_def)
  have table: "r \<in> snd ` set FAMILY_VERSION_PATTERNS \<Longrightarrow> re_all ?P r" for r
    by (auto simp: FAMILY_VERSION_PATTERNS_def RDot_def PATCH_LETTER_def)
  have "re_all ?P r" if "dget FAMILY_VERSION_PATTERNS k = Some r" for k r
    using table [of r] map_of_SomeD [OF that] by force
  then have any: "re_all ?P (case dget FAMILY_VERSION_PATTERNS k of None \<Rightarrow> DEFAULT_VERSION_PATTERN | Some r \<Rightarrow> r)" for k
    using default_ok by (simp split: option.splits)
  from assms obtain r where "group0 r t = Some v" "re_all ?P r"
    using default_ok any unfolding extract_version_def Let_def
    by (metis (no_types, lifting) option.case_eq_if option.collapse option.distinct(1) option.sel)
  then show ?thesis by (rule group0_all)
qed

lemma extract_version_no_colon: "extract_version t f = Some v \<Longrightarrow> CHR '':'' \<notin> set v"
  using extract_version_chars [of t f v] by (auto simp: is_digit_def is_lower_def)

lemma normalize_candidate_Inr:
  assumes "normalize_candidate rep vc = Inr nc"
  obtains x y where "nc_vendor nc = lower (strip x)" "nc_product nc = lower (strip y)"
    "nc_family nc = family_for (Some (nc_vendor nc)) (Some (nc_product nc))"
    "\<And>v. nc_version nc = Some v \<Longrightarrow> CHR '':'' \<notin> set v"
proof -
  from assms obtain v p where vp: "or_strip vc ''vendor'' = Inr v" "or_strip vc ''product'' = Inr p"
    and nc: "nc_vendor nc = lower v" "nc_product nc = lower p"
      "nc_family nc = family_for (Some (lower v)) (Some (lower p))"
    by (auto simp: normalize_candidate_def Let_def)
  have st: "or_strip vc k = Inr s \<Longrightarrow> strip s = s" for k s
    by (auto simp: or_strip_def split: if_splits json.splits)
  have "CHR '':'' \<notin> set w" if "nc_version nc = Some w" for w
    using assms that extract_version_no_colon
    by (auto simp: normalize_candidate_def Let_def split: option.splits)
  with that [of v p] nc st [OF vp(1)] st [OF vp(2)] show ?thesis by simp
qed

lemma set_candidate_cpes:
  "nc_version nc = Some ver \<Longrightarrow> ver \<noteq> [] \<Longrightarrow>
   set (candidate_cpes nc) = (\<lambda>(v, p). build_cpe v p ver ''a'') ` {(v, p) \<in> set (cpe_combos nc). p \<noteq> []}"
proof -
  define b where "b = (\<lambda>v p. build_cpe v p ver ''a'')"
  have "set (foldl (\<lambda>seen (v, p). if p = [] then seen else push_new (b v p) seen) acc xs) =
      set acc \<union> (\<lambda>(v, p). b v p) ` {(v, p) \<in> set xs. p \<noteq> []}" for acc xs
  proof (induction xs arbitrary: acc)
    case (Cons x xs)
    obtain v p where x: "x = (v, p)" by (cases x)
    have "{(v, p) \<in> set (x # xs). p \<noteq> []} = (if p = [] then {} else {(v, p)}) \<union> {(v, p) \<in> set xs. p \<noteq> []}"
      by (auto simp: x)
    then show ?case by (simp add: x Cons.IH)
  qed simp
  from this [of "[]" "cpe_combos nc"] show "nc_version nc = Some ver \<Longrightarrow> ver \<noteq> [] \<Longrightarrow> ?thesis"
    unfolding b_def by (simp add: candidate_cpes_def)
qed

lemma candidate_cpes_no_version: "nc_version nc = None \<Longrightarrow> candidate_cpes nc = []"
  by (simp add: candidate_cpes_def)

lemma distinct_candidate_cpes: "distinct (candidate_cpes nc)"
proof -
  have "distinct acc \<Longrightarrow>
      distinct (foldl (\<lambda>seen (v, p). if p = [] then seen else push_new (b v p) seen) acc xs)"
    for acc xs and b :: "string \<Rightarrow> string \<Rightarrow> string"
    by (induction xs arbitrary: acc) (simp_all add: case_prod_beta)
  from this [of "[]"] show ?thesis by (simp add: candidate_cpes_def split: option.splits)
qed

text \<open>The spellings of the family table survive building and parsing.\<close>

lemma family_spellings:
  "list_all (\<lambda>fam. list_all (\<lambda>p. CHR '':'' \<notin> set p \<and> p \<noteq> [] \<and>
      lower (strip (lower (unescape (cpe_field p)))) = p) (cf_products fam) \<and>
    list_all (\<lambda>v. CHR '':'' \<notin> set v) (cf_vendors fam)) COMPONENT_FAMILIES"
  by code_simp

lemma family_of_built_cpe:
  assumes fam: "fam \<in> set COMPONENT_FAMILIES" "p \<in> set (cf_products fam)"
    and "CHR '':'' \<notin> set v" "CHR '':'' \<notin> set ver"
  shows "family_for_cpe (build_cpe v p ver ''a'') = Some (cf_name fam)"
    and "\<exists>parts. parse_cpe (build_cpe v p ver ''a'') = Some parts \<and> cp_part parts = ''a''"
proof -
  have p: "CHR '':'' \<notin> set p" "lower (strip (lower (unescape (cpe_field p)))) = p"
    using family_spellings fam by (auto simp: list_all_iff)
  have a: "CHR '':'' \<notin> set ''a''" "lower ''a'' = ''a''" by code_simp+
  note parse = parse_build_colon_free [OF assms(3) p(1) assms(4) a(1)]
  show "family_for_cpe (build_cpe v p ver ''a'') = Some (cf_name fam)"
    unfolding family_for_cpe_def parse using fam by (auto simp: family_for_Some p(2))
  show "\<exists>parts. parse_cpe (build_cpe v p ver ''a'') = Some parts \<and> cp_part parts = ''a''"
    unfolding parse using a(2) by simp
qed

lemma family_for_normalized:
  assumes "family_for v (Some (lower (strip y))) = Some f"
  obtains fam where "fam \<in> set COMPONENT_FAMILIES" "cf_name fam = f" "lower (strip y) \<in> set (cf_products fam)"
proof -
  have "strip (lower (strip y)) = lower (strip y)" by (rule strip_stripped) simp
  with assms that show ?thesis by (auto simp: family_for_Some)
qed

text \<open>
  For a normalized component of a known family, the exact lookup tries every vendor and
  product spelling of that family, without repetition, and every key it tries parses back
  into the same family. All of them are application CPEs: a corpus row of an operating
  system CPE, such as the ones of the Linux kernel, is never tried.
\<close>

theorem candidate_cpes_family:
  assumes "normalize_candidate rep vc = Inr nc" "nc_family nc = Some f" "nc_version nc = Some ver"
    and "ver \<noteq> []" "CHR '':'' \<notin> set (nc_vendor nc)"
  shows "distinct (candidate_cpes nc) \<and>
    (\<forall>c \<in> set (candidate_cpes nc). family_for_cpe c = Some f \<and>
       (\<exists>parts. parse_cpe c = Some parts \<and> cp_part parts = ''a'')) \<and>
    (\<exists>fam \<in> set COMPONENT_FAMILIES. cf_name fam = f \<and>
       (\<forall>v \<in> set (cf_vendors fam). \<forall>p \<in> set (cf_products fam). build_cpe v p ver ''a'' \<in> set (candidate_cpes nc)))"
proof -
  from normalize_candidate_Inr [OF assms(1)] obtain y where
    y: "nc_product nc = lower (strip y)" "nc_family nc = family_for (Some (nc_vendor nc)) (Some (nc_product nc))"
    and ver: "CHR '':'' \<notin> set ver" using assms(3) by metis
  from assms(2) y obtain fam where fam: "fam \<in> set COMPONENT_FAMILIES" "cf_name fam = f"
    "nc_product nc \<in> set (cf_products fam)"
    by (metis family_for_normalized)
  have look: "family_by_name (nc_family nc) = Some fam"
    using fam assms(2) by (simp add: family_by_name_lookup)
  have tab: "p \<in> set (cf_products fam) \<Longrightarrow> p \<noteq> []" "v \<in> set (cf_vendors fam) \<Longrightarrow> CHR '':'' \<notin> set v" for v p
    using family_spellings fam(1) by (auto simp: list_all_iff)
  have combos: "(v, p) \<in> set (cpe_combos nc) \<longleftrightarrow>
      (v \<in> set (cf_vendors fam) \<and> p \<in> set (cf_products fam)) \<or> (v, p) = (nc_vendor nc, nc_product nc)" for v p
    using tab(1) [OF fam(3)] by (auto simp: cpe_combos_def look)
  note cs = set_candidate_cpes [OF assms(3,4)]
  have fams: "family_for_cpe c = Some f \<and> (\<exists>parts. parse_cpe c = Some parts \<and> cp_part parts = ''a'')"
    if c: "c \<in> set (candidate_cpes nc)" for c
  proof -
    from c cs obtain v p where vp: "(v, p) \<in> set (cpe_combos nc)" "c = build_cpe v p ver ''a''" by auto
    with combos tab(2) fam(3) assms(5) have "p \<in> set (cf_products fam)" "CHR '':'' \<notin> set v" by auto
    from family_of_built_cpe [OF fam(1) this ver] show ?thesis by (simp add: vp(2) fam(2))
  qed
  have spellings: "build_cpe v p ver ''a'' \<in> set (candidate_cpes nc)"
    if "v \<in> set (cf_vendors fam)" "p \<in> set (cf_products fam)" for v p
    using that combos [of v p] tab(1) [of p] unfolding cs by force
  show ?thesis using distinct_candidate_cpes fams spellings fam(1,2) by blast
qed

definition sample_candidate :: payload where
  "sample_candidate =
     [(''vendor'', JStr []), (''product'', JStr ''busybox''), (''version'', JStr ''1.2.3'')]"

definition sample_component :: normalized_component where
  "sample_component =
     \<lparr>nc_vendor = [], nc_product = ''busybox'', nc_version = Some ''1.2.3'',
      nc_family = Some ''busybox'', nc_raw_text = ''busybox 1.2.3''\<rparr>"

lemma normalize_sample: "normalize_candidate (\<lambda>_. []) sample_candidate = Inr sample_component"
  by code_simp

theorem candidate_cpes_family_witness:
  "\<exists>fam \<in> set COMPONENT_FAMILIES. cf_name fam = ''busybox'' \<and>
     distinct (candidate_cpes sample_component) \<and>
     list_all (\<lambda>c. family_for_cpe c = Some ''busybox'') (candidate_cpes sample_component)"
proof -
  have c: "nc_family sample_component = Some ''busybox''" "nc_version sample_component = Some ''1.2.3''"
    "''1.2.3'' \<noteq> []" "CHR '':'' \<notin> set (nc_vendor sample_component)"
    by (simp_all add: sample_component_def)
  from candidate_cpes_family [OF normalize_sample c] show ?thesis
    unfolding list_all_iff by blast
qed

end
