(* ===== verification/Corpus.thy ===== *)
theory Corpus
  imports Cpe "HOL-Library.Multiset"
begin

text \<open>
  Embeddings and the CVE corpus (\<open>services/cve_matching/embeddings.py\<close>, \<open>corpus.py\<close>): the
  hashing embedder, cosine similarity, and the in-memory corpus. The interface
  \<open>CorpusRepository\<close> of the code is the locale \<open>cve_corpus\<close>; the in-memory store
  implements it as a finite map from (CVE, CPE) keys to rows, with the similarity search
  returning the best scored rows. The square root, in the code \<open>math.sqrt\<close> and \<open>** 0.5\<close>, is
  the correctly rounded one.
\<close>

section \<open>Square roots\<close>

function isqrt :: "nat \<Rightarrow> nat" where
  "isqrt n = (if n = 0 then 0 else let r = 2 * isqrt (n div 4) in if (r + 1)\<^sup>2 \<le> n then r + 1 else r)"
  by pat_completeness auto
termination
  by (relation "measure id") auto

declare isqrt.simps [simp del]

text \<open>
  The root is rounded from its integer part at 53 bits and the comparison with the half
  way point; a binary64 number never has its root exactly half way.
\<close>

definition fsqrt :: "pyfloat \<Rightarrow> pyfloat" where
  "fsqrt x =
     (if x \<le> 0 then 0
      else
        let u = 2 powi (ilog2 x div 2 - 52);
            q = x / (u * u);
            m = isqrt (nat \<lfloor>q\<rfloor>)
        in if (of_nat m + 1/2) * (of_nat m + 1/2) < q then (of_nat m + 1) * u else of_nat m * u)"

lemma isqrt_bounds: "(isqrt n)\<^sup>2 \<le> n \<and> n < (isqrt n + 1)\<^sup>2"
proof (induction n rule: isqrt.induct)
  case (1 n)
  show ?case
  proof (cases "n = 0")
    case True
    then show ?thesis by (simp add: isqrt.simps [of 0])
  next
    case False
    define q where "q = isqrt (n div 4)"
    have q: "q\<^sup>2 \<le> n div 4" "n div 4 < (q + 1)\<^sup>2" using 1 [OF False] by (simp_all add: q_def)
    have "(2 * q)\<^sup>2 = 4 * q\<^sup>2" by (simp add: power2_eq_square)
    also have "\<dots> \<le> n" using q(1) by linarith
    finally have lo: "(2 * q)\<^sup>2 \<le> n" .
    have "n < 4 * (q + 1)\<^sup>2" using q(2) by linarith
    also have "\<dots> = (2 * q + 1 + 1)\<^sup>2" by (simp add: power2_eq_square algebra_simps)
    finally have hi: "n < (2 * q + 1 + 1)\<^sup>2" .
    show ?thesis
      using lo hi False by (subst (1 2) isqrt.simps) (simp add: Let_def flip: q_def)
  qed
qed

lemma isqrt_pos: "0 < n \<Longrightarrow> 0 < isqrt n"
  using isqrt_bounds [of n] by (cases "isqrt n") auto

lemma fsqrt_nonneg [simp]: "0 \<le> fsqrt x"
  by (simp add: fsqrt_def Let_def)

lemma fsqrt_pos:
  assumes "0 < x"
  shows "0 < fsqrt x"
proof -
  define u where "u = (2::rat) powi (ilog2 x div 2 - 52)"
  have u: "0 < u" by (simp add: u_def)
  have "u * u = 2 powi (2 * (ilog2 x div 2 - 52))"
    by (simp add: u_def flip: power_int_add)
  also have "\<dots> \<le> 2 powi (ilog2 x)"
    by (intro power_int_increasing) simp_all
  also have "\<dots> \<le> x" by (rule ilog2_bounds) fact
  finally have "1 \<le> x / (u * u)" using u by simp
  then have "1 \<le> \<lfloor>x / (u * u)\<rfloor>" by simp
  then have "0 < isqrt (nat \<lfloor>x / (u * u)\<rfloor>)" by (intro isqrt_pos) simp
  then show ?thesis
    using assms u by (simp add: fsqrt_def Let_def flip: u_def)
qed

section \<open>Embeddings\<close>

type_synonym vec = "pyfloat list"

definition EMBEDDING_DIM :: nat where "EMBEDDING_DIM = 384"

record embedder =
  em_encode :: "string \<Rightarrow> vec result"

definition l2_normalize :: "vec \<Rightarrow> vec" where
  "l2_normalize v =
     (let nrm = fsqrt (foldl fadd 0 (map (\<lambda>x. fmul x x) v))
      in if nrm = 0 then v else map (\<lambda>x. fdiv x nrm) v)"

definition token_char :: "char \<Rightarrow> bool" where
  "token_char c = (is_alnum c \<or> c \<in> set ''.-_'')"

text \<open>The loop over the characters, with the tokens found and the current one.\<close>

fun tokenize_loop :: "string list \<Rightarrow> string \<Rightarrow> string \<Rightarrow> string list" where
  "tokenize_loop out cur [] = (if cur \<noteq> [] then out @ [cur] else out)"
| "tokenize_loop out cur (ch # chs) =
     (if token_char ch then tokenize_loop out (cur @ [ch]) chs
      else if cur \<noteq> [] then tokenize_loop (out @ [cur]) [] chs
      else tokenize_loop out cur chs)"

definition tokenize :: "string \<Rightarrow> string list" where
  "tokenize t = tokenize_loop [] [] (lower t)"

text \<open>\<open>hash4\<close> reads the first four bytes of the SHA-256 digest as a big-endian integer.\<close>

definition bucket :: "(string \<Rightarrow> nat) \<Rightarrow> nat \<Rightarrow> string \<Rightarrow> nat" where
  "bucket hash4 dims token = hash4 token mod dims"

definition hashing_encode :: "(string \<Rightarrow> nat) \<Rightarrow> nat \<Rightarrow> string \<Rightarrow> vec" where
  "hashing_encode hash4 dims t =
     (let v = replicate dims 0; tokens = tokenize t
      in if tokens = []
         then l2_normalize (v[bucket hash4 dims (if t \<noteq> [] then t else ''empty'') := 1])
         else l2_normalize
           (foldl (\<lambda>v tok. let b = bucket hash4 dims tok in v[b := fadd (v ! b) 1]) v tokens))"

definition hashing_embedder :: "(string \<Rightarrow> nat) \<Rightarrow> embedder" where
  "hashing_embedder hash4 = \<lparr>em_encode = (\<lambda>t. Inr (hashing_encode hash4 EMBEDDING_DIM t))\<rparr>"

definition hashing_encode_batch :: "(string \<Rightarrow> nat) \<Rightarrow> nat \<Rightarrow> string list \<Rightarrow> vec list" where
  "hashing_encode_batch hash4 dims ts = map (hashing_encode hash4 dims) ts"

text \<open>
  The production embedder: \<open>loaded_dim\<close> and \<open>model_encode\<close> are the sentence-transformers
  model it loads.
\<close>

definition minilm_encode_batch ::
  "nat \<Rightarrow> (string list \<Rightarrow> vec list result) \<Rightarrow> nat \<Rightarrow> string list \<Rightarrow> vec list result" where
  "minilm_encode_batch loaded_dim model_encode dims ts =
     (if loaded_dim \<noteq> dims then Inl (RuntimeError ''embedding dim mismatch'') else model_encode ts)"

definition minilm_encode ::
  "nat \<Rightarrow> (string list \<Rightarrow> vec list result) \<Rightarrow> nat \<Rightarrow> string \<Rightarrow> vec result" where
  "minilm_encode loaded_dim model_encode dims t =
     rbind (minilm_encode_batch loaded_dim model_encode dims [t])
       (\<lambda>vecs. case vecs of [] \<Rightarrow> Inl IndexError | v # _ \<Rightarrow> Inr v)"

definition get_embedder :: "embedder \<Rightarrow> embedder option \<Rightarrow> embedder" where
  "get_embedder minilm default_embedder =
     (case default_embedder of None \<Rightarrow> minilm | Some e \<Rightarrow> e)"

lemma length_l2_normalize [simp]: "length (l2_normalize v) = length v"
  by (simp add: l2_normalize_def Let_def)

lemma length_hashing_encode [simp]: "length (hashing_encode hash4 dims t) = dims"
proof -
  have "length (foldl (\<lambda>v tok. let b = bucket hash4 dims tok in v[b := fadd (v ! b) 1]) v toks) = length v"
    for v :: vec and toks
    by (induction toks arbitrary: v) (simp_all add: Let_def)
  then show ?thesis by (simp add: hashing_encode_def Let_def)
qed

definition is_token :: "string \<Rightarrow> bool" where
  "is_token t = (t \<noteq> [] \<and> list_all token_char t)"

lemma tokenize_loop_tokens:
  "list_all is_token out \<Longrightarrow> list_all token_char cur \<Longrightarrow> list_all is_token (tokenize_loop out cur s)"
  by (induction out cur s rule: tokenize_loop.induct) (simp_all add: is_token_def)

lemma tokenize_loop_chars:
  "concat (tokenize_loop out cur s) = concat out @ cur @ filter token_char s"
  by (induction out cur s rule: tokenize_loop.induct) simp_all

section \<open>Cosine similarity\<close>

definition cos_step :: "vec \<Rightarrow> vec \<Rightarrow> pyfloat \<times> pyfloat \<times> pyfloat \<Rightarrow> nat \<Rightarrow> pyfloat \<times> pyfloat \<times> pyfloat" where
  "cos_step a b st i =
     (case st of (dot, na, nb) \<Rightarrow>
        (fadd dot (fmul (a ! i) (b ! i)), fadd na (fmul (a ! i) (a ! i)), fadd nb (fmul (b ! i) (b ! i))))"

definition cosine :: "vec \<Rightarrow> vec \<Rightarrow> pyfloat" where
  "cosine a b =
     (let n = min (length a) (length b)
      in if n = 0 then 0
         else
           (case foldl (cos_step a b) (0, 0, 0) [0..<n] of (dot, na, nb) \<Rightarrow>
              if na = 0 \<or> nb = 0 then 0
              else
                let sim = fdiv dot (fmul (fsqrt na) (fsqrt nb))
                in if sim < 0 then 0 else if 1 < sim then 1 else sim))"

lemma cosine_unit: "0 \<le> cosine a b" "cosine a b \<le> 1"
  by (simp_all add: cosine_def Let_def split: prod.splits)

lemma cosine_commute: "cosine a b = cosine b a"
proof -
  define sw where "sw = (\<lambda>(dot, na, nb). (dot, nb, na) :: pyfloat \<times> pyfloat \<times> pyfloat)"
  have "cos_step b a (sw st) i = sw (cos_step a b st i)" for st i
    by (simp add: cos_step_def sw_def mult.commute fmul_def split: prod.splits)
  then have "foldl (cos_step b a) (sw st) is = sw (foldl (cos_step a b) st is)" for st "is"
    by (induction "is" arbitrary: st) simp_all
  from this [of "(0, 0, 0)"] show ?thesis
    by (auto simp: cosine_def Let_def min.commute sw_def fmul_def mult.commute split: prod.splits)
qed

section \<open>The corpus\<close>

record cve_record =
  cr_cve_id :: string
  cr_cpe_string :: string
  cr_description :: string
  cr_family :: "string option"
  cr_embedding :: "vec option"

definition cve_key :: "cve_record \<Rightarrow> string \<times> string" where
  "cve_key r = (cr_cve_id r, cr_cpe_string r)"

definition corpus_text :: "cve_record \<Rightarrow> string" where
  "corpus_text r =
     (let ident = (case parse_cpe (cr_cpe_string r) of
                     Some parts \<Rightarrow>
                       strip (cp_vendor parts @ '' '' @ cp_product parts @ '' '' @ cp_version parts)
                   | None \<Rightarrow> []);
          t = strip (strip_chars '': '' (ident @ '': '' @ cr_description r))
      in if t \<noteq> [] then t else cr_cve_id r)"

type_synonym corpus_rows = "(string \<times> string, cve_record) dict"

definition upsert :: "cve_record list \<Rightarrow> corpus_rows \<Rightarrow> nat \<times> corpus_rows" where
  "upsert records rows = (length records, foldl (\<lambda>rows r. dset (cve_key r) r rows) rows records)"

definition exact_cpe_lookup :: "corpus_rows \<Rightarrow> string \<Rightarrow> cve_record list" where
  "exact_cpe_lookup rows cpe_string =
     (let needle = lower (strip cpe_string)
      in filter (\<lambda>r. lower (cr_cpe_string r) = needle) (map snd rows))"

definition scored_rows :: "corpus_rows \<Rightarrow> vec \<Rightarrow> (cve_record \<times> pyfloat) list" where
  "scored_rows rows q =
     concat (map (\<lambda>r. case cr_embedding r of
                        None \<Rightarrow> []
                      | Some e \<Rightarrow> if e = [] then [] else [(r, cosine q e)]) (map snd rows))"

definition similarity_search :: "corpus_rows \<Rightarrow> vec \<Rightarrow> int \<Rightarrow> (cve_record \<times> pyfloat) list" where
  "similarity_search rows q top_k = take (nat (max 0 top_k)) (sort_desc snd (scored_rows rows q))"

definition corpus_count :: "corpus_rows \<Rightarrow> nat" where
  "corpus_count rows = length rows"

section \<open>The corpus as a finite map\<close>

definition corpus_ok :: "corpus_rows \<Rightarrow> bool" where
  "corpus_ok rows \<longleftrightarrow> distinct (dkeys rows) \<and> (\<forall>(k, r) \<in> set rows. cve_key r = k)"

definition corpus_row :: "string \<times> string \<Rightarrow> corpus_rows \<Rightarrow> cve_record option" where
  "corpus_row k rows = dget rows k"

lemma find_SomeD: "find P xs = Some x \<Longrightarrow> x \<in> set xs \<and> P x"
  by (induction xs) (auto split: if_splits)

locale cve_corpus =
  fixes put :: "cve_record list \<Rightarrow> 's \<Rightarrow> nat \<times> 's"
    and row :: "string \<times> string \<Rightarrow> 's \<Rightarrow> cve_record option"
    and exact :: "'s \<Rightarrow> string \<Rightarrow> cve_record list"
    and similar :: "'s \<Rightarrow> vec \<Rightarrow> int \<Rightarrow> (cve_record \<times> pyfloat) list"
    and ok :: "'s \<Rightarrow> bool"
  assumes put_ok: "ok s \<Longrightarrow> ok (snd (put rs s))"
    and put_row: "row k (snd (put rs s)) =
      (case find (\<lambda>r. cve_key r = k) (rev rs) of Some r \<Rightarrow> Some r | None \<Rightarrow> row k s)"
    and exact_row: "ok s \<Longrightarrow> r \<in> set (exact s c) \<longleftrightarrow>
      row (cve_key r) s = Some r \<and> lower (cr_cpe_string r) = lower (strip c)"
    and similar_row: "ok s \<Longrightarrow> (r, x) \<in> set (similar s q n) \<Longrightarrow> row (cve_key r) s = Some r"
    and similar_unit: "(r, x) \<in> set (similar s q n) \<Longrightarrow> 0 \<le> x \<and> x \<le> 1"
    and similar_length: "length (similar s q n) \<le> nat n"
begin

text \<open>Loading the same records again changes no row.\<close>

lemma put_again: "row k (snd (put rs (snd (put rs s)))) = row k (snd (put rs s))"
  by (simp add: put_row split: option.splits)

text \<open>A loaded record is found under its own CPE, unless a later one of the batch replaced it.\<close>

lemma exact_put:
  assumes "ok s" "stripped (cr_cpe_string r)"
  shows "r \<in> set (exact (snd (put (rs @ [r]) s)) (cr_cpe_string r))"
  using assms by (simp add: exact_row put_ok put_row strip_stripped)

lemma exact_put_other:
  assumes "ok s" "\<forall>r \<in> set rs. lower (cr_cpe_string r) \<noteq> lower (strip c)"
  shows "set (exact (snd (put rs s)) c) \<subseteq> set (exact s c)"
proof
  fix r
  assume r: "r \<in> set (exact (snd (put rs s)) c)"
  then have c: "lower (cr_cpe_string r) = lower (strip c)" using assms(1) by (simp add: exact_row put_ok)
  show "r \<in> set (exact s c)"
  proof (cases "find (\<lambda>r'. cve_key r' = cve_key r) (rev rs)")
    case None
    with r c assms(1) show ?thesis by (simp add: exact_row put_ok put_row)
  next
    case (Some r')
    then have "r' \<in> set rs" "cve_key r' = cve_key r" using find_SomeD by fastforce+
    then have "cr_cpe_string r' = cr_cpe_string r" by (simp add: cve_key_def)
    with \<open>r' \<in> set rs\<close> assms(2) c show ?thesis by metis
  qed
qed

end

lemma upsert_row:
  "dget (snd (upsert rs rows)) k =
     (case find (\<lambda>r. cve_key r = k) (rev rs) of Some r \<Rightarrow> Some r | None \<Rightarrow> dget rows k)"
proof (induction rs rule: rev_induct)
  case (snoc r rs)
  then show ?case by (auto simp: upsert_def)
qed (simp add: upsert_def)

lemma upsert_ok: "corpus_ok rows \<Longrightarrow> corpus_ok (snd (upsert rs rows))"
proof (induction rs rule: rev_induct)
  case (snoc r rs)
  let ?m = "snd (upsert rs rows)"
  have m: "corpus_ok ?m" using snoc by simp
  have up: "snd (upsert (rs @ [r]) rows) = dset (cve_key r) r ?m" by (simp add: upsert_def)
  have d: "distinct (dkeys (dset (cve_key r) r ?m))"
    using m by (simp add: corpus_ok_def distinct_update)
  have "cve_key x = k" if "(k, x) \<in> set (dset (cve_key r) r ?m)" for k x
  proof -
    have "dget (dset (cve_key r) r ?m) k = Some x" using d that by (rule map_of_is_SomeI)
    then have "k = cve_key r \<and> x = r \<or> (k, x) \<in> set ?m"
      by (auto split: if_splits dest: map_of_SomeD)
    with m show ?thesis by (auto simp: corpus_ok_def)
  qed
  with d show ?case unfolding up by (auto simp: corpus_ok_def)
qed (simp add: upsert_def)

lemma scored_rows_iff:
  "(r, x) \<in> set (scored_rows rows q) \<longleftrightarrow>
     r \<in> set (map snd rows) \<and> (\<exists>e. cr_embedding r = Some e \<and> e \<noteq> [] \<and> x = cosine q e)"
proof -
  have "(r, x) \<in> set (case cr_embedding r' of None \<Rightarrow> [] | Some e \<Rightarrow> if e = [] then [] else [(r', cosine q e)]) \<longleftrightarrow>
      r = r' \<and> (\<exists>e. cr_embedding r' = Some e \<and> e \<noteq> [] \<and> x = cosine q e)" for r'
    by (cases "cr_embedding r'") auto
  then show ?thesis by (auto simp: scored_rows_def)
qed

lemma corpus_ok_row: "corpus_ok rows \<Longrightarrow> r \<in> set (map snd rows) \<longleftrightarrow> dget rows (cve_key r) = Some r"
proof -
  assume ok: "corpus_ok rows"
  then have "dget rows (cve_key r) = Some r \<longleftrightarrow> (cve_key r, r) \<in> set rows"
    by (auto simp: corpus_ok_def map_of_eq_Some_iff)
  also have "\<dots> \<longleftrightarrow> r \<in> set (map snd rows)"
    using ok by (force simp: corpus_ok_def)
  finally show ?thesis by simp
qed

interpretation mem_corpus: cve_corpus upsert corpus_row exact_cpe_lookup similarity_search corpus_ok
proof unfold_locales
  fix s :: corpus_rows and rs r c x q k n
  show "corpus_ok s \<Longrightarrow> corpus_ok (snd (upsert rs s))" by (rule upsert_ok)
  show "corpus_row n (snd (upsert rs s)) =
      (case find (\<lambda>r. cve_key r = n) (rev rs) of Some r \<Rightarrow> Some r | None \<Rightarrow> corpus_row n s)"
    by (simp only: corpus_row_def upsert_row)
  show "corpus_ok s \<Longrightarrow> r \<in> set (exact_cpe_lookup s c) \<longleftrightarrow>
      corpus_row (cve_key r) s = Some r \<and> lower (cr_cpe_string r) = lower (strip c)"
    using corpus_ok_row [of s r] by (auto simp: exact_cpe_lookup_def Let_def corpus_row_def)
  have sub: "(r, x) \<in> set (similarity_search s q k) \<Longrightarrow> (r, x) \<in> set (scored_rows s q)"
    unfolding similarity_search_def using set_take_subset by fastforce
  then show "corpus_ok s \<Longrightarrow> (r, x) \<in> set (similarity_search s q k) \<Longrightarrow> corpus_row (cve_key r) s = Some r"
    using corpus_ok_row [of s r] by (auto simp: corpus_row_def scored_rows_iff)
  from sub show "(r, x) \<in> set (similarity_search s q k) \<Longrightarrow> 0 \<le> x \<and> x \<le> 1"
    by (auto simp: scored_rows_iff cosine_unit)
  show "length (similarity_search s q k) \<le> nat k" by (simp add: similarity_search_def)
qed

section \<open>The search returns the best rows\<close>

lemma sorted_wrt_take_drop:
  "sorted_wrt P xs \<Longrightarrow> x \<in> set (take n xs) \<Longrightarrow> y \<in> set (drop n xs) \<Longrightarrow> P x y"
proof -
  assume "sorted_wrt P xs" "x \<in> set (take n xs)" "y \<in> set (drop n xs)"
  moreover from this(1) have "sorted_wrt P (take n xs @ drop n xs)" by simp
  ultimately show "P x y" unfolding sorted_wrt_append by blast
qed

text \<open>
  A similarity search returns as many rows as asked for, or all embedded rows when
  there are fewer, best score first, and no row it leaves out scores higher than one it
  returns; a negative \<open>top_k\<close> returns nothing.
\<close>

theorem similarity_search_top_k:
  "length (similarity_search rows q k) = min (nat k) (length (scored_rows rows q)) \<and>
   sorted_wrt (\<lambda>x y. snd y \<le> snd x) (similarity_search rows q k) \<and>
   (\<exists>rest. mset (similarity_search rows q k @ rest) = mset (scored_rows rows q) \<and>
      (\<forall>x \<in> set (similarity_search rows q k). \<forall>y \<in> set rest. snd y \<le> snd x))"
proof (intro conjI exI [of _ "drop (nat (max 0 k)) (sort_desc snd (scored_rows rows q))"] ballI)
  let ?s = "sort_desc snd (scored_rows rows q)" and ?n = "nat (max 0 k)"
  have out: "similarity_search rows q k = take ?n ?s" by (simp add: similarity_search_def)
  have "sorted (map (\<lambda>x. - snd x) ?s)" by (simp add: sort_desc_def)
  then have sorted: "sorted_wrt (\<lambda>x y. snd y \<le> snd x) ?s"
    by (simp add: sorted_wrt_map)
  show "length (similarity_search rows q k) = min (nat k) (length (scored_rows rows q))"
    unfolding out by (simp add: min.commute)
  show "sorted_wrt (\<lambda>x y. snd y \<le> snd x) (similarity_search rows q k)"
    unfolding out using sorted by (rule sorted_wrt_take)
  show "mset (similarity_search rows q k @ drop ?n ?s) = mset (scored_rows rows q)"
    unfolding out by (simp add: sort_desc_def)
  show "snd y \<le> snd x" if "x \<in> set (similarity_search rows q k)" "y \<in> set (drop ?n ?s)" for x y
    using sorted_wrt_take_drop [OF sorted] that unfolding out by blast
qed

definition sample_row :: "string \<Rightarrow> vec \<Rightarrow> cve_record" where
  "sample_row i e =
     \<lparr>cr_cve_id = i, cr_cpe_string = ''cpe:2.3:a:busybox:busybox:1.31.1:*:*:*:*:*:*:*'',
      cr_description = ''overflow'', cr_family = Some ''busybox'', cr_embedding = Some e\<rparr>"

definition sample_rows :: corpus_rows where
  "sample_rows = snd (upsert [sample_row ''CVE-1'' [1, 0], sample_row ''CVE-2'' [0, 1]] [])"

theorem similarity_search_top_k_witness:
  "length (similarity_search sample_rows [1, 0] 1) = 1"
  using similarity_search_top_k [of sample_rows "[1, 0]" 1]
  by (simp add: sample_rows_def upsert_def scored_rows_def sample_row_def cve_key_def)

lemma find_rev_map_of:
  "find (\<lambda>r. cve_key r = k) (rev rs) = map_of (rev (map (\<lambda>r. (cve_key r, r)) rs)) k"
proof -
  have "find (\<lambda>r. cve_key r = k) xs = map_of (map (\<lambda>r. (cve_key r, r)) xs) k" for xs
    by (induction xs) auto
  then show ?thesis by (simp add: rev_map)
qed

text \<open>
  The in-memory corpus refines a finite map from (CVE, CPE) keys to rows: a batch
  overwrites row by row, the last record of a key winning, and the exact lookup reads off
  that map precisely the rows whose CPE is the requested one up to letter case.
\<close>

theorem upsert_refines_map:
  assumes "corpus_ok rows"
  shows "(\<lambda>k. corpus_row k (snd (upsert rs rows))) =
      (\<lambda>k. corpus_row k rows) ++ map_of (rev (map (\<lambda>r. (cve_key r, r)) rs)) \<and>
    set (exact_cpe_lookup (snd (upsert rs rows)) c) =
      {r. corpus_row (cve_key r) (snd (upsert rs rows)) = Some r \<and> lower (cr_cpe_string r) = lower (strip c)}"
proof
  show "(\<lambda>k. corpus_row k (snd (upsert rs rows))) =
      (\<lambda>k. corpus_row k rows) ++ map_of (rev (map (\<lambda>r. (cve_key r, r)) rs))"
    by (rule ext) (simp add: mem_corpus.put_row find_rev_map_of map_add_def)
  show "set (exact_cpe_lookup (snd (upsert rs rows)) c) =
      {r. corpus_row (cve_key r) (snd (upsert rs rows)) = Some r \<and> lower (cr_cpe_string r) = lower (strip c)}"
    using mem_corpus.exact_row [OF mem_corpus.put_ok [OF assms]] by blast
qed

theorem upsert_refines_map_witness:
  "corpus_row (''CVE-1'', ''c'') (snd (upsert [\<lparr>cr_cve_id = ''CVE-1'', cr_cpe_string = ''c'',
      cr_description = ''d'', cr_family = None, cr_embedding = None\<rparr>] [])) \<noteq> None"
proof -
  let ?r = "\<lparr>cr_cve_id = ''CVE-1'', cr_cpe_string = ''c'', cr_description = ''d'', cr_family = None,
    cr_embedding = None\<rparr>"
  have ok: "corpus_ok []" by (simp add: corpus_ok_def)
  have "corpus_row (''CVE-1'', ''c'') (snd (upsert [?r] [])) = Some ?r"
    using fun_cong [OF conjunct1 [OF upsert_refines_map [OF ok, of "[?r]"]], of "(''CVE-1'', ''c'')"]
    by (simp add: cve_key_def map_add_def)
  then show ?thesis by simp
qed

end
