(* ===== verification/Matcher.thy ===== *)
theory Matcher
  imports Corpus Aggregator "HOL-Library.Product_Lexorder"
begin

text \<open>
  The match orchestrator (\<open>services/cve_matching/matcher.py\<close>) and the handler of
  \<open>firmware.analyzed\<close> (\<open>services/router/handlers/cve_match.py\<close>). The corpus, the embedder
  and the narrator are records of their calls; the lemmas show that the emitted payload
  always meets the contract of \<open>firmware.matched\<close> and reports for every CVE the strongest
  tier that was offered for it.
\<close>

record corpus_repo =
  co_exact :: "string \<Rightarrow> cve_record list result"
  co_similar :: "vec \<Rightarrow> int \<Rightarrow> (cve_record \<times> pyfloat) list result"

text \<open>The in-memory corpus as a repository; it never raises.\<close>

definition mem_repo :: "corpus_rows \<Rightarrow> corpus_repo" where
  "mem_repo rows =
     \<lparr>co_exact = (\<lambda>c. Inr (exact_cpe_lookup rows c)),
      co_similar = (\<lambda>q k. Inr (similarity_search rows q k))\<rparr>"

definition DEFAULT_TOP_K :: int where "DEFAULT_TOP_K = 5"

record candidate =
  ca_cve_id :: string
  ca_tier :: ConfidenceTier
  ca_via :: MatchedVia
  ca_score :: "pyfloat option"
  ca_description :: string
  ca_component_text :: string

definition score_or_zero :: "pyfloat option \<Rightarrow> pyfloat" where
  "score_or_zero s = (case s of None \<Rightarrow> 0 | Some x \<Rightarrow> x)"

definition offer :: "(string, candidate) dict \<Rightarrow> candidate \<Rightarrow> (string, candidate) dict" where
  "offer best cand =
     (case dget best (ca_cve_id cand) of
        None \<Rightarrow> dset (ca_cve_id cand) cand best
      | Some existing \<Rightarrow>
          (let new_rank = tier_rank (ca_tier cand); old_rank = tier_rank (ca_tier existing)
           in if old_rank < new_rank then dset (ca_cve_id cand) cand best
              else if new_rank = old_rank \<and> score_or_zero (ca_score existing) < score_or_zero (ca_score cand)
              then dset (ca_cve_id cand) cand best
              else best))"

section \<open>One version candidate\<close>

record match_state =
  ms_best :: "(string, candidate) dict"
  ms_sbom :: "json list"
  ms_seen :: "(string \<times> string \<times> string) set"

definition sbom_component :: "string \<Rightarrow> string \<Rightarrow> string \<Rightarrow> string \<Rightarrow> json" where
  "sbom_component vendor product version sub_blob_id =
     JObj [(''vendor'', JStr vendor), (''product'', JStr product), (''version'', JStr version),
           (''source_sub_blob_id'', JStr sub_blob_id)]"

definition note_component :: "string \<Rightarrow> normalized_component \<Rightarrow> string \<Rightarrow> match_state \<Rightarrow> match_state" where
  "note_component sub_blob_id nc version_text st =
     (let sbom_version =
            (case nc_version nc of Some v \<Rightarrow> if v \<noteq> [] then v else version_text | None \<Rightarrow> version_text);
          ident = (nc_vendor nc, nc_product nc, sbom_version)
      in if nc_product nc \<noteq> [] \<and> sbom_version \<noteq> [] \<and> ident \<notin> ms_seen st
         then st\<lparr>ms_seen := insert ident (ms_seen st),
                 ms_sbom := ms_sbom st @ [sbom_component (nc_vendor nc) (nc_product nc) sbom_version sub_blob_id]\<rparr>
         else st)"

fun lookup_all :: "corpus_repo \<Rightarrow> string list \<Rightarrow> cve_record list result" where
  "lookup_all repo [] = Inr []"
| "lookup_all repo (c # cs) =
     rbind (co_exact repo c) (\<lambda>rs. rbind (lookup_all repo cs) (\<lambda>rest. Inr (rs @ rest)))"

definition exact_candidate :: "string \<Rightarrow> cve_record \<Rightarrow> candidate" where
  "exact_candidate raw_text r =
     \<lparr>ca_cve_id = cr_cve_id r, ca_tier = CONFIRMED, ca_via = EXACT_CPE, ca_score = None,
      ca_description = cr_description r, ca_component_text = raw_text\<rparr>"

text \<open>\<open>rec.family or comp.family\<close>: an empty family name counts as absent.\<close>

definition family_or :: "string option \<Rightarrow> string option \<Rightarrow> string option" where
  "family_or a b = (case a of None \<Rightarrow> b | Some f \<Rightarrow> if f = [] then b else a)"

definition fuzzy_candidates ::
  "family_thresholds \<Rightarrow> normalized_component \<Rightarrow> (cve_record \<times> pyfloat) list \<Rightarrow> candidate list" where
  "fuzzy_candidates T nc hits =
     concat (map (\<lambda>(r, score).
       let tier = tier_for_score T score (family_or (cr_family r) (nc_family nc))
       in if tier = NO_MATCH then []
          else [\<lparr>ca_cve_id = cr_cve_id r, ca_tier = tier, ca_via = EMBEDDING_SIMILARITY,
                 ca_score = Some (py_round score 4), ca_description = cr_description r,
                 ca_component_text = nc_raw_text nc\<rparr>]) hits)"

text \<open>The candidates one component offers: exact hits, or else the similarity fallback.\<close>

definition offers_for ::
  "family_thresholds \<Rightarrow> corpus_repo \<Rightarrow> embedder \<Rightarrow> int \<Rightarrow> normalized_component \<Rightarrow> candidate list result" where
  "offers_for T repo emb top_k nc =
     rbind (lookup_all repo (candidate_cpes nc)) (\<lambda>exact_records.
     if exact_records \<noteq> []
     then Inr (map (exact_candidate (nc_raw_text nc)) exact_records)
     else
       rbind (em_encode emb (nc_raw_text nc)) (\<lambda>query_vec.
       rbind (co_similar repo query_vec top_k) (\<lambda>hits.
       Inr (fuzzy_candidates T nc hits))))"

definition match_candidate ::
  "family_thresholds \<Rightarrow> corpus_repo \<Rightarrow> embedder \<Rightarrow> (json \<Rightarrow> string) \<Rightarrow> int \<Rightarrow> string \<Rightarrow> json \<Rightarrow>
   match_state \<Rightarrow> match_state result" where
  "match_candidate T repo emb rep top_k sub_blob_id vc st =
     (case vc of
        JObj vc \<Rightarrow>
          rbind (normalize_candidate rep vc) (\<lambda>nc.
          (let st = note_component sub_blob_id nc (str_strip rep vc ''version'') st
           in rbind (offers_for T repo emb top_k nc) (\<lambda>cands.
              Inr (st\<lparr>ms_best := foldl offer (ms_best st) cands\<rparr>))))
      | _ \<Rightarrow> Inl (AttributeError ''get''))"

fun match_loop ::
  "(json \<Rightarrow> match_state \<Rightarrow> match_state result) \<Rightarrow> json list \<Rightarrow> match_state \<Rightarrow> match_state result" where
  "match_loop f [] st = Inr st"
| "match_loop f (vc # vcs) st = rbind (f vc st) (match_loop f vcs)"

section \<open>The matched payload\<close>

definition safe_rationale :: "narrator option \<Rightarrow> candidate \<Rightarrow> string option" where
  "safe_rationale narr cand =
     (case narr of
        None \<Rightarrow> None
      | Some n \<Rightarrow>
          (case na_rationale n (ca_component_text cand) (ca_cve_id cand) (ca_description cand)
                  (tier_value (ca_tier cand)) (score_or_zero (ca_score cand)) of
             Inl _ \<Rightarrow> None | Inr r \<Rightarrow> r))"

definition to_match_dict :: "narrator option \<Rightarrow> candidate \<Rightarrow> payload" where
  "to_match_dict narr cand =
     cve_match_payload (ca_cve_id cand) (ca_tier cand) (ca_score cand) (ca_via cand)
       (if needs_llm_rationale (ca_tier cand) then safe_rationale narr cand else None)"

text \<open>\<open>ConfidenceTier(value)\<close> on the value of a dumped tier.\<close>

definition tier_of_value :: "json \<Rightarrow> ConfidenceTier" where
  "tier_of_value v =
     hd (filter (\<lambda>t. JStr (tier_value t) = v) [CONFIRMED, HIGH_CONFIDENCE, POSSIBLE, LOW_CONFIDENCE, NO_MATCH])"

definition match_sort_key :: "payload \<Rightarrow> int \<times> string" where
  "match_sort_key m =
     (- int (tier_rank (tier_of_value (jget m ''confidence_tier''))),
      (case jget m ''cve_id'' of JStr s \<Rightarrow> s | _ \<Rightarrow> []))"

record match_output =
  mo_matched_payload :: payload
  mo_sbom_components :: "json list"

definition version_candidates :: "payload \<Rightarrow> json list result" where
  "version_candidates analyzed =
     (case dget analyzed ''version_candidates'' of
        None \<Rightarrow> Inr [] | Some (JList vcs) \<Rightarrow> Inr vcs | _ \<Rightarrow> Inl (TypeError ''not iterable''))"

definition match_sub_blob ::
  "coercers \<Rightarrow> family_thresholds \<Rightarrow> corpus_repo \<Rightarrow> embedder \<Rightarrow> narrator option \<Rightarrow> (json \<Rightarrow> string) \<Rightarrow> int \<Rightarrow>
   payload \<Rightarrow> match_output result" where
  "match_sub_blob C T repo emb narr rep top_k analyzed =
     rbind (str_field analyzed ''job_id'') (\<lambda>job_id.
     rbind (str_field analyzed ''sub_blob_id'') (\<lambda>sub_blob_id.
     rbind (version_candidates analyzed) (\<lambda>vcs.
     rbind (match_loop (match_candidate T repo emb rep top_k sub_blob_id) vcs
              \<lparr>ms_best = [], ms_sbom = [], ms_seen = {}\<rparr>) (\<lambda>st.
     (let cve_matches = sort_key match_sort_key (map (\<lambda>(_, c). to_match_dict narr c) (ms_best st))
      in rbind (validate_payload C FIRMWARE_MATCHED
              (JObj [(''job_id'', JStr job_id), (''sub_blob_id'', JStr sub_blob_id),
                     (''cve_matches'', JList (map JObj cve_matches))])) (\<lambda>validated.
         Inr \<lparr>mo_matched_payload = validated, mo_sbom_components = ms_sbom st\<rparr>))))))"

definition build_sbom_fragment :: "env \<Rightarrow> string \<Rightarrow> json list \<Rightarrow> payload result" where
  "build_sbom_fragment E job_id components =
     (case validate (e_coerce E) Sbom
             (JObj [(''job_id'', JStr job_id), (''generated_at'', JStr (e_now E)),
                    (''components'', JList components)]) of
        Some (JObj d) \<Rightarrow> Inr d
      | _ \<Rightarrow> Inl ValidationError)"

section \<open>handlers/cve_match.py\<close>

definition handle_cve_match ::
  "env \<Rightarrow> family_thresholds \<Rightarrow> corpus_repo \<Rightarrow> embedder \<Rightarrow> narrator option \<Rightarrow> (json \<Rightarrow> string) \<Rightarrow>
   'z report_state_scheme handler" where
  "handle_cve_match E T repo emb narr rep c payload =
     ebind (lift_result (str_field payload ''job_id'')) (\<lambda>job_id.
     ebind (lift_result (str_field payload ''sub_blob_id'')) (\<lambda>sub_blob_id.
     ebind (lift_result (match_sub_blob (e_coerce E) T repo emb narr rep DEFAULT_TOP_K payload)) (\<lambda>out.
     ebind (lift_result (build_sbom_fragment E job_id (mo_sbom_components out))) (\<lambda>fragment.
     ebind (modify (\<lambda>s. s\<lparr>as_artifacts :=
         put_json (sbom_fragment_key job_id sub_blob_id) fragment (as_artifacts s)\<rparr>)) (\<lambda>_.
     ebind (on_redis_result (r_incrby (matched_children job_id) 1)) (\<lambda>_.
     emit E FIRMWARE_MATCHED (mo_matched_payload out)))))))"

section \<open>The strongest offer wins\<close>

lemma offer_tier:
  "map_option ca_tier (dget (offer best c) i) =
     (if i = ca_cve_id c
      then Some (case dget best i of None \<Rightarrow> ca_tier c | Some e \<Rightarrow> max (ca_tier e) (ca_tier c))
      else map_option ca_tier (dget best i))"
  by (auto simp: offer_def Let_def max_def less_eq_ConfidenceTier_def tier_rank_inj split: option.splits)

lemma offers_tier:
  "map_option ca_tier (dget (foldl offer [] cs) i) =
     (if i \<in> ca_cve_id ` set cs then Some (Max (ca_tier ` {c \<in> set cs. ca_cve_id c = i})) else None)"
proof (induction cs rule: rev_induct)
  case (snoc c cs)
  let ?S = "\<lambda>cs. ca_tier ` {c \<in> set cs. ca_cve_id c = i}"
  have fin: "finite (?S cs)" by simp
  show ?case
  proof (cases "ca_cve_id c = i")
    case False
    then have "?S (cs @ [c]) = ?S cs" by auto
    with False snoc show ?thesis by (auto simp: offer_tier)
  next
    case True
    then have S: "?S (cs @ [c]) = insert (ca_tier c) (?S cs)" by auto
    show ?thesis
    proof (cases "i \<in> ca_cve_id ` set cs")
      case True
      then have "?S cs \<noteq> {}" by auto
      with True snoc \<open>ca_cve_id c = i\<close> obtain e where "dget (foldl offer [] cs) i = Some e" "ca_tier e = Max (?S cs)"
        by (auto simp: map_option_eq_Some)
      with S fin \<open>?S cs \<noteq> {}\<close> \<open>ca_cve_id c = i\<close> show ?thesis
        by (auto simp: offer_tier max.commute)
    next
      case False
      then have e: "?S cs = {}" by auto
      from False snoc have "dget (foldl offer [] cs) i = None" by simp
      with S e \<open>ca_cve_id c = i\<close> show ?thesis by (simp add: offer_tier)
    qed
  qed
qed simp

lemma dget_offer: "dget (offer best c) i = Some x \<Longrightarrow> x = c \<and> i = ca_cve_id c \<or> dget best i = Some x"
  by (auto simp: offer_def Let_def split: option.splits if_splits)

lemma dget_offers: "dget (foldl offer [] cs) i = Some x \<Longrightarrow> x \<in> set cs \<and> ca_cve_id x = i"
  by (induction cs rule: rev_induct) (auto dest: dget_offer)

lemma distinct_offers: "distinct (dkeys (foldl offer [] cs))"
proof (induction cs rule: rev_induct)
  case (snoc c cs)
  then show ?case by (auto simp: offer_def Let_def distinct_update split: option.splits)
qed simp

section \<open>What a component offers\<close>

definition candidate_wf :: "candidate \<Rightarrow> bool" where
  "candidate_wf c = cve_match_wf (ca_tier c) (ca_score c) (ca_via c) None"

lemma exact_candidate_wf [simp]: "candidate_wf (exact_candidate t r)"
  by (simp add: candidate_wf_def exact_candidate_def cve_match_wf_def)

lemma fuzzy_candidates_wf:
  assumes "\<And>r x. (r, x) \<in> set hits \<Longrightarrow> 0 \<le> x \<and> x \<le> 1" "c \<in> set (fuzzy_candidates T nc hits)"
  shows "candidate_wf c"
proof -
  from assms(2) obtain r x where rx: "(r, x) \<in> set hits"
    and c: "ca_tier c = tier_for_score T x (family_or (cr_family r) (nc_family nc))" "ca_tier c \<noteq> NO_MATCH"
      "ca_via c = EMBEDDING_SIMILARITY" "ca_score c = Some (py_round x 4)"
    by (auto simp: fuzzy_candidates_def Let_def split: if_splits)
  have "ca_tier c \<noteq> CONFIRMED" by (simp add: c(1))
  then show ?thesis
    using c assms(1) [OF rx] py_round_unit [of x 4] by (simp add: candidate_wf_def cve_match_wf_def)
qed

text \<open>What the matcher asks of a corpus: similarity scores in the unit interval.\<close>

locale scored_corpus =
  fixes repo :: corpus_repo
  assumes scores_unit: "co_similar repo q k = Inr hits \<Longrightarrow> (r, x) \<in> set hits \<Longrightarrow> 0 \<le> x \<and> x \<le> 1"
begin

lemma similar_wf: "co_similar repo q k = Inr hits \<Longrightarrow> c \<in> set (fuzzy_candidates T nc hits) \<Longrightarrow> candidate_wf c"
  by (rule fuzzy_candidates_wf) (rule scores_unit)

lemma offers_wf: "offers_for T repo emb k nc = Inr cs \<Longrightarrow> c \<in> set cs \<Longrightarrow> candidate_wf c"
  by (auto simp: offers_for_def intro: similar_wf split: if_splits)

end

interpretation mem_scored: scored_corpus "mem_repo rows" for rows
  by unfold_locales (use mem_corpus.similar_unit in \<open>auto simp: mem_repo_def\<close>)

text \<open>The candidates offered by a version candidate, when nothing raises.\<close>

definition offered ::
  "family_thresholds \<Rightarrow> corpus_repo \<Rightarrow> embedder \<Rightarrow> (json \<Rightarrow> string) \<Rightarrow> int \<Rightarrow> json \<Rightarrow> candidate list result" where
  "offered T repo emb rep k vc =
     rbind (case vc of JObj d \<Rightarrow> normalize_candidate rep d | _ \<Rightarrow> Inl (AttributeError ''get'')) (offers_for T repo emb k)"

lemma match_candidate_offered:
  "match_candidate T repo emb rep k b vc st = Inr st' \<Longrightarrow>
   \<exists>cs. offered T repo emb rep k vc = Inr cs \<and> ms_best st' = foldl offer (ms_best st) cs"
proof -
  have keep: "ms_best (note_component b nc t st) = ms_best st" for nc t
    by (simp add: note_component_def Let_def)
  show "match_candidate T repo emb rep k b vc st = Inr st' \<Longrightarrow> ?thesis"
    by (auto simp: match_candidate_def offered_def Let_def keep split: json.splits)
qed

lemma match_candidate_total:
  "offered T repo emb rep k vc = Inr cs \<Longrightarrow> \<exists>st'. match_candidate T repo emb rep k b vc st = Inr st'"
  by (auto simp: match_candidate_def offered_def Let_def split: json.splits)

lemma match_loop_offered:
  "match_loop (match_candidate T repo emb rep k b) vcs st = Inr st' \<Longrightarrow>
   \<exists>css. map (offered T repo emb rep k) vcs = map Inr css \<and> ms_best st' = foldl offer (ms_best st) (concat css)"
proof (induction vcs arbitrary: st)
  case (Cons vc vcs)
  then obtain st1 where s1: "match_candidate T repo emb rep k b vc st = Inr st1"
    and s2: "match_loop (match_candidate T repo emb rep k b) vcs st1 = Inr st'" by auto
  from match_candidate_offered [OF s1] obtain cs where
    cs: "offered T repo emb rep k vc = Inr cs" "ms_best st1 = foldl offer (ms_best st) cs" by blast
  from Cons.IH [OF s2] obtain css where
    "map (offered T repo emb rep k) vcs = map Inr css" "ms_best st' = foldl offer (ms_best st1) (concat css)" by blast
  with cs show ?case by (intro exI [of _ "cs # css"]) simp
qed simp

lemma match_loop_total:
  "list_all (\<lambda>vc. \<exists>cs. offered T repo emb rep k vc = Inr cs) vcs \<Longrightarrow>
   \<exists>st'. match_loop (match_candidate T repo emb rep k b) vcs st = Inr st'"
proof (induction vcs arbitrary: st)
  case (Cons vc vcs)
  then obtain st1 where "match_candidate T repo emb rep k b vc st = Inr st1"
    using match_candidate_total by fastforce
  with Cons show ?case by simp
qed simp

section \<open>The matched payload meets its contract\<close>

lemma to_match_dict_wf:
  assumes "candidate_wf c"
  obtains rat where "to_match_dict narr c = cve_match_payload (ca_cve_id c) (ca_tier c) (ca_score c) (ca_via c) rat"
    "cve_match_wf (ca_tier c) (ca_score c) (ca_via c) rat"
proof (cases "needs_llm_rationale (ca_tier c)")
  case True
  then have "ca_tier c = POSSIBLE \<or> ca_tier c = LOW_CONFIDENCE" by (auto simp: needs_llm_rationale_def)
  with assms have "cve_match_wf (ca_tier c) (ca_score c) (ca_via c) (safe_rationale narr c)"
    by (auto simp: candidate_wf_def cve_match_wf_def)
  with True that [of "safe_rationale narr c"] show ?thesis by (simp add: to_match_dict_def)
next
  case False
  with assms that [of None] show ?thesis by (simp add: to_match_dict_def candidate_wf_def)
qed

lemma validate_match_dict:
  "coercers_ok C \<Longrightarrow> candidate_wf c \<Longrightarrow>
   validate C CveMatch (JObj (to_match_dict narr c)) = Some (JObj (to_match_dict narr c))"
  by (rule to_match_dict_wf [of c narr]) (simp_all add: validate_CveMatch_iff)

definition matched_payload :: "string \<Rightarrow> string \<Rightarrow> payload list \<Rightarrow> payload" where
  "matched_payload job_id sub_blob_id ms =
     [(''job_id'', JStr job_id), (''sub_blob_id'', JStr sub_blob_id), (''cve_matches'', JList (map JObj ms))]"

lemma validate_matched:
  assumes "coercers_ok C" "\<And>m. m \<in> set ms \<Longrightarrow> \<exists>c. candidate_wf c \<and> m = to_match_dict narr c"
  shows "validate_payload C FIRMWARE_MATCHED (JObj (matched_payload j b ms)) = Inr (matched_payload j b ms)"
proof -
  have "validate C CveMatch (JObj m) = Some (JObj m)" if "m \<in> set ms" for m
    using assms that validate_match_dict by blast
  then have "map (validate C CveMatch) (map JObj ms) = map Some (map JObj ms)" by simp
  then have "those (map (validate C CveMatch) (map JObj ms)) = Some (map JObj ms)" by (simp only: those_map_Some)
  then show ?thesis
    using assms(1)
    by (simp add: validate_payload_Inr FirmwareMatched_def matched_payload_def coercers_ok_def)
qed

lemma tier_of_value [simp]: "tier_of_value (JStr (tier_value t)) = t"
  by (cases t) (simp_all add: tier_of_value_def)

lemma match_dict_fields [simp]:
  "jget (to_match_dict narr c) ''cve_id'' = JStr (ca_cve_id c)"
  "jget (to_match_dict narr c) ''confidence_tier'' = JStr (tier_value (ca_tier c))"
  by (simp_all add: to_match_dict_def cve_match_payload_def jget_def)

text \<open>The winning candidates, in the order in which they are reported.\<close>

definition ranked :: "candidate list \<Rightarrow> candidate list" where
  "ranked cs = sort_key (\<lambda>c. (- int (tier_rank (ca_tier c)), ca_cve_id c)) (map snd (foldl offer [] cs))"

lemma map_sort_key: "sort_key f (map g xs) = map g (sort_key (f \<circ> g) xs)"
proof (induction xs)
  case (Cons x xs)
  have "insort_key f (g x) (map g ys) = map g (insort_key (f \<circ> g) x ys)" for ys
    by (induction ys) auto
  with Cons show ?case by (simp add: o_def)
qed simp

lemma ranked_dicts:
  "sort_key match_sort_key (map (\<lambda>(_, c). to_match_dict narr c) (foldl offer [] cs)) =
     map (to_match_dict narr) (ranked cs)"
proof -
  have "map (\<lambda>(_, c). to_match_dict narr c) (foldl offer [] cs) =
      map (to_match_dict narr) (map snd (foldl offer [] cs))"
    by (simp add: case_prod_beta)
  moreover have "match_sort_key \<circ> to_match_dict narr = (\<lambda>c. (- int (tier_rank (ca_tier c)), ca_cve_id c))"
    by (rule ext) (simp add: match_sort_key_def)
  ultimately show ?thesis by (simp only: map_sort_key ranked_def)
qed

lemma set_ranked: "set (ranked cs) \<subseteq> set cs"
proof
  fix x
  assume "x \<in> set (ranked cs)"
  then obtain i where "(i, x) \<in> set (foldl offer [] cs)" by (auto simp: ranked_def)
  then have "dget (foldl offer [] cs) i = Some x" by (simp add: distinct_offers)
  then show "x \<in> set cs" by (simp add: dget_offers)
qed

lemma ranked_ids: "distinct (map ca_cve_id (ranked cs))"
proof -
  let ?d = "foldl offer [] cs"
  have id: "ca_cve_id (snd x) = fst x" if "x \<in> set ?d" for x
    using that dget_offers [of cs "fst x" "snd x"] distinct_offers [of cs] by (metis map_of_is_SomeI prod.collapse)
  have "mset (map ca_cve_id (ranked cs)) = mset (map ca_cve_id (map snd ?d))"
    unfolding ranked_def mset_map mset_sort by simp
  also have "map ca_cve_id (map snd ?d) = dkeys ?d" using id by simp
  finally show ?thesis using distinct_offers by (metis mset_eq_imp_distinct_iff)
qed

lemma ranked_tier:
  "(\<exists>c \<in> set (ranked cs). ca_cve_id c = i \<and> ca_tier c = t) \<longleftrightarrow>
   i \<in> ca_cve_id ` set cs \<and> t = Max (ca_tier ` {c \<in> set cs. ca_cve_id c = i})"
proof -
  let ?d = "foldl offer [] cs"
  have "(\<exists>c \<in> set (ranked cs). ca_cve_id c = i \<and> ca_tier c = t) \<longleftrightarrow> map_option ca_tier (dget ?d i) = Some t"
  proof
    assume "\<exists>c \<in> set (ranked cs). ca_cve_id c = i \<and> ca_tier c = t"
    then obtain c k where c: "(k, c) \<in> set ?d" "ca_cve_id c = i" "ca_tier c = t" by (auto simp: ranked_def)
    then have "dget ?d k = Some c" by (simp add: distinct_offers)
    with c show "map_option ca_tier (dget ?d i) = Some t" by (auto dest: dget_offers)
  next
    assume "map_option ca_tier (dget ?d i) = Some t"
    then obtain c where c: "dget ?d i = Some c" "ca_tier c = t" by auto
    then have "c \<in> set (ranked cs)" using map_of_SomeD [OF c(1)] by (force simp: ranked_def)
    with c show "\<exists>c \<in> set (ranked cs). ca_cve_id c = i \<and> ca_tier c = t" by (auto dest: dget_offers)
  qed
  then show ?thesis by (auto simp: offers_tier)
qed

lemma ranked_sorted:
  "sorted_wrt (\<lambda>c d. ca_tier d < ca_tier c \<or> ca_tier d = ca_tier c \<and> ca_cve_id c \<le> ca_cve_id d) (ranked cs)"
proof -
  have "sorted (map (\<lambda>c. (- int (tier_rank (ca_tier c)), ca_cve_id c)) (ranked cs))"
    by (simp add: ranked_def)
  then show ?thesis
    unfolding sorted_map
    by (rule sorted_wrt_mono_rel [rotated]) (auto simp: less_ConfidenceTier_def tier_rank_inj)
qed

section \<open>Matching never fails on a validated event\<close>

lemma validated_str: "validate C TStr j = Some v \<Longrightarrow> \<exists>s. v = JStr s"
  by auto

lemma validated_candidate:
  assumes "validate C VersionCandidate j = Some v"
  shows "\<exists>a b c. v = JObj [(''vendor'', JStr a), (''product'', JStr b), (''version'', JStr c)]"
  using assms unfolding VersionCandidate_def
  by (rule validate_model_Some) (auto split: option.splits)

lemma validated_analyzed:
  assumes "validate_payload C FIRMWARE_ANALYZED j = Inr d"
  shows "\<exists>job_id. str_field d ''job_id'' = Inr job_id" "\<exists>b. str_field d ''sub_blob_id'' = Inr b"
    "\<exists>vcs. version_candidates d = Inr vcs \<and>
       list_all (\<lambda>v. \<exists>a b c. v = JObj [(''vendor'', JStr a), (''product'', JStr b), (''version'', JStr c)]) vcs"
proof -
  from assms obtain d0 fs where
    vs: "validate_fields C fs d0 = Some d" "distinct (map fst fs)"
      "(''job_id'', TStr, None) \<in> set fs" "(''sub_blob_id'', TStr, None) \<in> set fs"
      "(''version_candidates'', TList VersionCandidate, Some (JList [])) \<in> set fs"
    by (auto simp: validate_payload_Inr FirmwareAnalyzed_def
        simp del: validate.simps validate_fields.simps elim!: validate_model_Some)
  from validate_fields_lookup [OF vs(1,2,3)] show "\<exists>job_id. str_field d ''job_id'' = Inr job_id"
    by (auto simp: str_field_def jindex_def split: option.splits)
  from validate_fields_lookup [OF vs(1,2,4)] show "\<exists>b. str_field d ''sub_blob_id'' = Inr b"
    by (auto simp: str_field_def jindex_def split: option.splits)
  from validate_fields_lookup [OF vs(1,2,5)] obtain v where v: "dget d ''version_candidates'' = Some v"
    and disj: "v = JList [] \<or> (\<exists>j. validate C (TList VersionCandidate) j = Some v)"
    by (auto split: option.splits simp del: validate.simps)
  from disj obtain vcs where vcs: "v = JList vcs" "list_all (\<lambda>m. \<exists>j. validate C VersionCandidate j = Some m) vcs"
  proof
    assume "v = JList []"
    then show thesis by (intro that [of "[]"]) simp_all
  next
    assume "\<exists>j. validate C (TList VersionCandidate) j = Some v"
    then obtain j where j: "validate C (TList VersionCandidate) j = Some v" ..
    then obtain ws where ws: "v = JList ws" by (auto split: json.splits)
    with validate_list_elems [OF j] show thesis by (intro that [of ws]) simp_all
  qed
  then show "\<exists>vcs. version_candidates d = Inr vcs \<and>
      list_all (\<lambda>v. \<exists>a b c. v = JObj [(''vendor'', JStr a), (''product'', JStr b), (''version'', JStr c)]) vcs"
    using v validated_candidate unfolding version_candidates_def list_all_iff by fastforce
qed

lemma normalize_total:
  "\<exists>nc. normalize_candidate rep [(''vendor'', JStr a), (''product'', JStr b), (''version'', JStr c)] = Inr nc"
  by (simp add: normalize_candidate_def or_strip_def jget_def Let_def)

lemma mem_lookup_total: "\<exists>rs. lookup_all (mem_repo rows) cs = Inr rs"
  by (induction cs) (auto simp: mem_repo_def)

lemma mem_offers_total:
  assumes "\<forall>t. \<exists>v. em_encode emb t = Inr v"
  shows "\<exists>cs. offers_for T (mem_repo rows) emb k nc = Inr cs"
proof -
  obtain rs where "lookup_all (mem_repo rows) (candidate_cpes nc) = Inr rs" using mem_lookup_total by blast
  moreover obtain v where "em_encode emb (nc_raw_text nc) = Inr v" using assms by blast
  ultimately show ?thesis by (simp add: offers_for_def mem_repo_def)
qed

lemma mem_offered_total:
  assumes "\<forall>t. \<exists>v. em_encode emb t = Inr v"
  shows "\<exists>cs. offered T (mem_repo rows) emb rep k
    (JObj [(''vendor'', JStr a), (''product'', JStr b), (''version'', JStr c)]) = Inr cs"
proof -
  obtain nc where "normalize_candidate rep [(''vendor'', JStr a), (''product'', JStr b), (''version'', JStr c)] = Inr nc"
    using normalize_total by blast
  then show ?thesis using mem_offers_total [OF assms] by (simp add: offered_def)
qed

context scored_corpus
begin

lemma match_output:
  assumes ok: "coercers_ok C" and fs: "str_field d ''job_id'' = Inr j" "str_field d ''sub_blob_id'' = Inr b"
    and vcs: "version_candidates d = Inr vcs" "map (offered T repo emb rep k) vcs = map Inr css"
  shows "\<exists>out. match_sub_blob C T repo emb narr rep k d = Inr out \<and>
    mo_matched_payload out = matched_payload j b (map (to_match_dict narr) (ranked (concat css))) \<and>
    validate_payload C FIRMWARE_MATCHED (JObj (mo_matched_payload out)) = Inr (mo_matched_payload out)"
proof -
  let ?st = "\<lparr>ms_best = [], ms_sbom = [], ms_seen = {}\<rparr>"
  have "\<exists>cs. offered T repo emb rep k vc = Inr cs" if "vc \<in> set vcs" for vc
    using arg_cong [OF vcs(2), of set] that by auto
  then have "list_all (\<lambda>vc. \<exists>cs. offered T repo emb rep k vc = Inr cs) vcs"
    unfolding list_all_iff by blast
  from match_loop_total [OF this, of b ?st] obtain st where
    loop: "match_loop (match_candidate T repo emb rep k b) vcs ?st = Inr st" by blast
  from match_loop_offered [OF loop] obtain css' where
    "map (offered T repo emb rep k) vcs = map Inr css'" "ms_best st = foldl offer [] (concat css')" by auto
  with vcs(2) have best: "ms_best st = foldl offer [] (concat css)"
    by (metis (no_types, lifting) inj_map_eq_map inj_Inr)
  have wf: "candidate_wf c" if "c \<in> set (concat css)" for c
  proof -
    from that obtain cs where cs: "cs \<in> set css" "c \<in> set cs" by auto
    then have "Inr cs \<in> offered T repo emb rep k ` set vcs" using arg_cong [OF vcs(2), of set] by force
    then show ?thesis using offers_wf cs(2) by (auto simp: offered_def eq_commute [of "Inr cs"])
  qed
  define ms where "ms = map (to_match_dict narr) (ranked (concat css))"
  have "validate_payload C FIRMWARE_MATCHED (JObj (matched_payload j b ms)) = Inr (matched_payload j b ms)"
    unfolding ms_def
    by (rule validate_matched [OF ok, where narr = narr]) (use wf set_ranked in fastforce)
  then show ?thesis
    using fs vcs(1) loop
    by (simp add: match_sub_blob_def best ranked_dicts matched_payload_def flip: ms_def)
qed

end

text \<open>
  Matching a validated \<open>firmware.analyzed\<close> event against the in-memory corpus always
  produces a payload that the \<open>firmware.matched\<close> contract accepts unchanged, whatever the
  narrator does: it reports each CVE once, strongest tier first and CVE ids ascending
  within a tier.
\<close>

theorem match_sub_blob_validates:
  assumes "coercers_ok C" "validate_payload C FIRMWARE_ANALYZED j = Inr d"
    and "\<forall>t. \<exists>v. em_encode emb t = Inr v"
  shows "\<exists>out job_id b cands. match_sub_blob C T (mem_repo rows) emb narr rep k d = Inr out \<and>
    validate_payload C FIRMWARE_MATCHED (JObj (mo_matched_payload out)) = Inr (mo_matched_payload out) \<and>
    mo_matched_payload out = matched_payload job_id b (map (to_match_dict narr) cands) \<and>
    distinct (map ca_cve_id cands) \<and>
    sorted_wrt (\<lambda>c e. ca_tier e < ca_tier c \<or> ca_tier e = ca_tier c \<and> ca_cve_id c \<le> ca_cve_id e) cands"
proof -
  from validated_analyzed [OF assms(2)] obtain job_id b vcs where
    f: "str_field d ''job_id'' = Inr job_id" "str_field d ''sub_blob_id'' = Inr b" "version_candidates d = Inr vcs"
    and vs: "list_all (\<lambda>v. \<exists>a b c. v = JObj [(''vendor'', JStr a), (''product'', JStr b), (''version'', JStr c)]) vcs"
    by blast
  have "\<exists>cs. offered T (mem_repo rows) emb rep k v = Inr cs" if "v \<in> set vcs" for v
  proof -
    from vs that obtain x y z where "v = JObj [(''vendor'', JStr x), (''product'', JStr y), (''version'', JStr z)]"
      unfolding list_all_iff by blast
    then show ?thesis using mem_offered_total [OF assms(3)] by simp
  qed
  then obtain g where "\<forall>v \<in> set vcs. offered T (mem_repo rows) emb rep k v = Inr (g v)" by metis
  then have "map (offered T (mem_repo rows) emb rep k) vcs = map Inr (map g vcs)" by simp
  from mem_scored.match_output [OF assms(1) f this, of narr] obtain out where
    out: "match_sub_blob C T (mem_repo rows) emb narr rep k d = Inr out"
      "mo_matched_payload out = matched_payload job_id b (map (to_match_dict narr) (ranked (concat (map g vcs))))"
      "validate_payload C FIRMWARE_MATCHED (JObj (mo_matched_payload out)) = Inr (mo_matched_payload out)"
    by blast
  show ?thesis
    by (rule exI [of _ out], rule exI [of _ job_id], rule exI [of _ b], rule exI [of _ "ranked (concat (map g vcs))"],
        intro conjI) (rule out ranked_ids ranked_sorted)+
qed

section \<open>What is reported\<close>

text \<open>A CVE with its tier as it stands in a matched payload.\<close>

definition reported :: "payload \<Rightarrow> string \<Rightarrow> ConfidenceTier \<Rightarrow> bool" where
  "reported p i t =
     list_ex (\<lambda>m. jget (json_obj m) ''cve_id'' = JStr i \<and>
                  jget (json_obj m) ''confidence_tier'' = JStr (tier_value t))
       (json_list (jget p ''cve_matches''))"

lemma reported_matched:
  "reported (matched_payload j b (map (to_match_dict narr) cs)) i t \<longleftrightarrow>
     (\<exists>c \<in> set cs. ca_cve_id c = i \<and> ca_tier c = t)"
  by (auto simp: reported_def matched_payload_def jget_def [of "_ # _" "''cve_matches''"] list_ex_iff)

lemma offered_candidates:
  assumes "\<forall>t. \<exists>v. em_encode emb t = Inr v" "validate_payload C FIRMWARE_ANALYZED j = Inr d"
  obtains job_id b vcs g where "str_field d ''job_id'' = Inr job_id" "str_field d ''sub_blob_id'' = Inr b"
    "version_candidates d = Inr vcs"
    "\<And>v. v \<in> set vcs \<Longrightarrow> \<exists>p nc. v = JObj p \<and> normalize_candidate rep p = Inr nc \<and>
      offers_for T (mem_repo rows) emb k nc = Inr (g v)"
    "map (offered T (mem_repo rows) emb rep k) vcs = map Inr (map g vcs)"
proof -
  from validated_analyzed [OF assms(2)] obtain job_id b vcs where
    f: "str_field d ''job_id'' = Inr job_id" "str_field d ''sub_blob_id'' = Inr b" "version_candidates d = Inr vcs"
    and vs: "list_all (\<lambda>v. \<exists>a b c. v = JObj [(''vendor'', JStr a), (''product'', JStr b), (''version'', JStr c)]) vcs"
    by blast
  have "\<exists>cs p nc. v = JObj p \<and> normalize_candidate rep p = Inr nc \<and>
      offers_for T (mem_repo rows) emb k nc = Inr cs" if "v \<in> set vcs" for v
  proof -
    from vs that obtain x y z where v: "v = JObj [(''vendor'', JStr x), (''product'', JStr y), (''version'', JStr z)]"
      unfolding list_all_iff by blast
    obtain nc where nc: "normalize_candidate rep [(''vendor'', JStr x), (''product'', JStr y), (''version'', JStr z)] = Inr nc"
      using normalize_total by blast
    obtain cs where "offers_for T (mem_repo rows) emb k nc = Inr cs" using mem_offers_total [OF assms(1)] by blast
    with v nc show ?thesis by blast
  qed
  then obtain g where g: "\<And>v. v \<in> set vcs \<Longrightarrow> \<exists>p nc. v = JObj p \<and> normalize_candidate rep p = Inr nc \<and>
      offers_for T (mem_repo rows) emb k nc = Inr (g v)" by metis
  have "offered T (mem_repo rows) emb rep k v = Inr (g v)" if "v \<in> set vcs" for v
    using g [OF that] by (auto simp: offered_def)
  then have "map (offered T (mem_repo rows) emb rep k) vcs = map Inr (map g vcs)" by simp
  with f g that show thesis by blast
qed

text \<open>
  C17. A CVE is reported exactly when some version candidate of the event offered it, and
  the tier reported is the strongest one offered, over all version candidates, whatever
  their order.
\<close>

theorem match_sub_blob_strongest:
  assumes "coercers_ok C" "validate_payload C FIRMWARE_ANALYZED j = Inr d"
    and "\<forall>t. \<exists>v. em_encode emb t = Inr v"
  shows "\<exists>out vcs css. match_sub_blob C T (mem_repo rows) emb narr rep k d = Inr out \<and>
    version_candidates d = Inr vcs \<and> map (offered T (mem_repo rows) emb rep k) vcs = map Inr css \<and>
    (\<forall>i t. reported (mo_matched_payload out) i t =
       (i \<in> ca_cve_id ` set (concat css) \<and> t = Max (ca_tier ` {c \<in> set (concat css). ca_cve_id c = i})))"
proof -
  obtain job_id b vcs g where f: "str_field d ''job_id'' = Inr job_id" "str_field d ''sub_blob_id'' = Inr b"
    "version_candidates d = Inr vcs" "map (offered T (mem_repo rows) emb rep k) vcs = map Inr (map g vcs)"
    using offered_candidates [OF assms(3,2)] by metis
  from mem_scored.match_output [OF assms(1) f, of narr] obtain out where
    "match_sub_blob C T (mem_repo rows) emb narr rep k d = Inr out"
    "mo_matched_payload out = matched_payload job_id b (map (to_match_dict narr) (ranked (concat (map g vcs))))"
    by blast
  then show ?thesis
    using f(3,4) by (intro exI [of _ out] exI [of _ vcs] exI [of _ "map g vcs"]) (simp add: reported_matched ranked_tier)
qed

text \<open>Only an exact lookup confirms.\<close>

lemma mem_lookup: "lookup_all (mem_repo rows) cs = Inr rs \<Longrightarrow>
   r \<in> set rs \<longleftrightarrow> (\<exists>c \<in> set cs. r \<in> set (exact_cpe_lookup rows c))"
  by (induction cs arbitrary: rs) (auto simp: mem_repo_def)

lemma confirmed_offers:
  assumes "offers_for T (mem_repo rows) emb k nc = Inr cs"
  shows "(\<exists>c \<in> set cs. ca_cve_id c = i \<and> ca_tier c = CONFIRMED) \<longleftrightarrow>
    (\<exists>c \<in> set (candidate_cpes nc). \<exists>r \<in> set (exact_cpe_lookup rows c). cr_cve_id r = i)"
proof -
  obtain rs where rs: "lookup_all (mem_repo rows) (candidate_cpes nc) = Inr rs" using mem_lookup_total by blast
  show ?thesis
  proof (cases "rs = []")
    case True
    with assms rs obtain hits where "cs = fuzzy_candidates T nc hits" by (auto simp: offers_for_def)
    then have "\<not> (\<exists>c \<in> set cs. ca_tier c = CONFIRMED)"
      by (auto simp: fuzzy_candidates_def Let_def split: if_splits)
    moreover have "\<not> (\<exists>c \<in> set (candidate_cpes nc). \<exists>r \<in> set (exact_cpe_lookup rows c). cr_cve_id r = i)"
      using mem_lookup [OF rs] True by auto
    ultimately show ?thesis by blast
  next
    case False
    with assms rs have "cs = map (exact_candidate (nc_raw_text nc)) rs" by (simp add: offers_for_def)
    then have "(\<exists>c \<in> set cs. ca_cve_id c = i \<and> ca_tier c = CONFIRMED) \<longleftrightarrow> (\<exists>r \<in> set rs. cr_cve_id r = i)"
      by (auto simp: exact_candidate_def)
    then show ?thesis using mem_lookup [OF rs] by blast
  qed
qed

lemma Max_CONFIRMED: "finite S \<Longrightarrow> S \<noteq> {} \<Longrightarrow> CONFIRMED = Max S \<longleftrightarrow> CONFIRMED \<in> S"
proof -
  assume S: "finite S" "S \<noteq> {}"
  have "t \<le> CONFIRMED" for t by (cases t) (simp_all add: less_eq_ConfidenceTier_def)
  then show "CONFIRMED = Max S \<longleftrightarrow> CONFIRMED \<in> S"
    using S by (metis Max_in Max_eqI)
qed

lemma ranked_confirmed:
  "(\<exists>c \<in> set (ranked cs). ca_cve_id c = i \<and> ca_tier c = CONFIRMED) \<longleftrightarrow>
   (\<exists>c \<in> set cs. ca_cve_id c = i \<and> ca_tier c = CONFIRMED)"
proof (cases "i \<in> ca_cve_id ` set cs")
  case True
  then have "ca_tier ` {c \<in> set cs. ca_cve_id c = i} \<noteq> {}" by auto
  then have "CONFIRMED = Max (ca_tier ` {c \<in> set cs. ca_cve_id c = i}) \<longleftrightarrow>
      CONFIRMED \<in> ca_tier ` {c \<in> set cs. ca_cve_id c = i}"
    by (intro Max_CONFIRMED) simp_all
  then show ?thesis using True unfolding ranked_tier by (auto simp: image_iff)
qed (auto simp: ranked_tier)

text \<open>
  A CVE is reported as CONFIRMED exactly when the corpus holds a row of it whose CPE is,
  up to letter case, one of the candidate CPEs of some version candidate of the event: no
  similarity score, threshold or narrator can confirm or unconfirm a match.
\<close>

theorem match_sub_blob_confirmed:
  assumes "coercers_ok C" "validate_payload C FIRMWARE_ANALYZED j = Inr d"
    and "\<forall>t. \<exists>v. em_encode emb t = Inr v"
  shows "\<exists>out vcs. match_sub_blob C T (mem_repo rows) emb narr rep k d = Inr out \<and>
    version_candidates d = Inr vcs \<and>
    (\<forall>i. reported (mo_matched_payload out) i CONFIRMED =
       (\<exists>v \<in> set vcs. \<exists>nc. normalize_candidate rep (json_obj v) = Inr nc \<and>
          (\<exists>c \<in> set (candidate_cpes nc). \<exists>r \<in> snd ` set rows.
             cr_cve_id r = i \<and> lower (cr_cpe_string r) = lower (strip c))))"
proof -
  obtain job_id b vcs g where f: "str_field d ''job_id'' = Inr job_id" "str_field d ''sub_blob_id'' = Inr b"
    "version_candidates d = Inr vcs"
    and g: "\<And>v. v \<in> set vcs \<Longrightarrow> \<exists>p nc. v = JObj p \<and> normalize_candidate rep p = Inr nc \<and>
      offers_for T (mem_repo rows) emb k nc = Inr (g v)"
    and m: "map (offered T (mem_repo rows) emb rep k) vcs = map Inr (map g vcs)"
    by (rule offered_candidates [OF assms(3,2), of rep T rows k]) (rule that)
  let ?cs = "concat (map g vcs)"
  from mem_scored.match_output [OF assms(1) f m, of narr] obtain out where
    out: "match_sub_blob C T (mem_repo rows) emb narr rep k d = Inr out"
      "mo_matched_payload out = matched_payload job_id b (map (to_match_dict narr) (ranked ?cs))"
    by blast
  have exact: "r \<in> set (exact_cpe_lookup rows c) \<longleftrightarrow> r \<in> snd ` set rows \<and> lower (cr_cpe_string r) = lower (strip c)" for r c
    by (auto simp: exact_cpe_lookup_def Let_def)
  have rep: "reported (mo_matched_payload out) i CONFIRMED \<longleftrightarrow> (\<exists>c \<in> set ?cs. ca_cve_id c = i \<and> ca_tier c = CONFIRMED)" for i
    unfolding out(2) reported_matched by (rule ranked_confirmed)
  have one: "(\<exists>c \<in> set (g v). ca_cve_id c = i \<and> ca_tier c = CONFIRMED) \<longleftrightarrow>
      (\<exists>nc. normalize_candidate rep (json_obj v) = Inr nc \<and>
         (\<exists>c \<in> set (candidate_cpes nc). \<exists>r \<in> snd ` set rows.
             cr_cve_id r = i \<and> lower (cr_cpe_string r) = lower (strip c)))" if "v \<in> set vcs" for v i
  proof -
    from g [OF that] obtain p nc where p: "v = JObj p" "normalize_candidate rep p = Inr nc"
      "offers_for T (mem_repo rows) emb k nc = Inr (g v)" by blast
    have "(\<exists>c \<in> set (g v). ca_cve_id c = i \<and> ca_tier c = CONFIRMED) \<longleftrightarrow>
        (\<exists>c \<in> set (candidate_cpes nc). \<exists>r \<in> snd ` set rows.
           cr_cve_id r = i \<and> lower (cr_cpe_string r) = lower (strip c))"
      using confirmed_offers [OF p(3), of i] exact by blast
    then show ?thesis using p(1,2) by simp
  qed
  have "reported (mo_matched_payload out) i CONFIRMED \<longleftrightarrow>
      (\<exists>v \<in> set vcs. \<exists>nc. normalize_candidate rep (json_obj v) = Inr nc \<and>
         (\<exists>c \<in> set (candidate_cpes nc). \<exists>r \<in> snd ` set rows.
             cr_cve_id r = i \<and> lower (cr_cpe_string r) = lower (strip c)))" for i
    unfolding rep using one by auto
  then show ?thesis
    by (intro exI [of _ out] exI [of _ vcs] conjI allI) (rule out f | assumption)+
qed

section \<open>A concrete event\<close>

definition sample_analyzed :: payload where
  "sample_analyzed =
     [(''job_id'', JStr ''j''), (''sub_blob_id'', JStr ''b''), (''strings_found'', JList []),
      (''entropy_sections'', JList []),
      (''version_candidates'', JList [JObj sample_candidate]), (''secrets_flagged'', JList []),
      (''hardening_flags'', JObj [(''nx'', JBool True), (''pie'', JBool True), (''relro'', JStr ''full''),
                                 (''canary'', JBool False)])]"

definition sample_embedder :: embedder where
  "sample_embedder = hashing_embedder length"

lemma sample_embedder_total: "\<forall>t. \<exists>v. em_encode sample_embedder t = Inr v"
  by (simp add: sample_embedder_def hashing_embedder_def)

lemma sample_analyzed_valid:
  "validate_payload strict_coercers FIRMWARE_ANALYZED (JObj sample_analyzed) = Inr sample_analyzed"
  by (simp add: validate_payload_Inr FirmwareAnalyzed_def sample_analyzed_def sample_candidate_def
      VersionCandidate_def HardeningFlags_def strict_coercers_def)

definition sample_corpus :: corpus_rows where
  "sample_corpus =
     snd (upsert [\<lparr>cr_cve_id = ''CVE-1'', cr_cpe_string = ''cpe:2.3:a:busybox:busybox:1.2.3:*:*:*:*:*:*:*'',
                  cr_description = ''overflow'', cr_family = Some ''busybox'', cr_embedding = None\<rparr>] [])"

theorem match_sub_blob_validates_witness:
  "\<exists>out. match_sub_blob strict_coercers [] (mem_repo sample_corpus) sample_embedder None (\<lambda>_. []) 5 sample_analyzed = Inr out \<and>
     validate_payload strict_coercers FIRMWARE_MATCHED (JObj (mo_matched_payload out)) = Inr (mo_matched_payload out)"
  using match_sub_blob_validates [OF coercers_ok_strict sample_analyzed_valid sample_embedder_total] by blast

lemma sample_version_candidates: "version_candidates sample_analyzed = Inr [JObj sample_candidate]"
  by (simp add: version_candidates_def sample_analyzed_def)

lemma sample_exact_key:
  "build_cpe ''busybox'' ''busybox'' ''1.2.3'' ''a'' \<in> set (candidate_cpes sample_component)"
  by code_simp

lemma sample_row_key:
  "list_ex (\<lambda>r. cr_cve_id r = ''CVE-1'' \<and>
     lower (cr_cpe_string r) = lower (strip (build_cpe ''busybox'' ''busybox'' ''1.2.3'' ''a''))) (map snd sample_corpus)"
  by code_simp

theorem match_sub_blob_confirmed_witness:
  "\<exists>out. match_sub_blob strict_coercers [] (mem_repo sample_corpus) sample_embedder None (\<lambda>_. []) 5 sample_analyzed = Inr out \<and>
     reported (mo_matched_payload out) ''CVE-1'' CONFIRMED"
proof -
  have "\<exists>c \<in> set (candidate_cpes sample_component). \<exists>r \<in> snd ` set sample_corpus.
      cr_cve_id r = ''CVE-1'' \<and> lower (cr_cpe_string r) = lower (strip c)"
    using sample_exact_key sample_row_key unfolding list_ex_iff set_map by blast
  then have "\<exists>v \<in> {JObj sample_candidate}. \<exists>nc. normalize_candidate (\<lambda>_. []) (json_obj v) = Inr nc \<and>
      (\<exists>c \<in> set (candidate_cpes nc). \<exists>r \<in> snd ` set sample_corpus.
        cr_cve_id r = ''CVE-1'' \<and> lower (cr_cpe_string r) = lower (strip c))"
    by (simp add: normalize_sample)
  note hit = this
  obtain out vcs where v: "version_candidates sample_analyzed = Inr vcs"
    and out: "match_sub_blob strict_coercers [] (mem_repo sample_corpus) sample_embedder None (\<lambda>_. []) 5 sample_analyzed = Inr out"
    and rep: "\<forall>i. reported (mo_matched_payload out) i CONFIRMED =
       (\<exists>v \<in> set vcs. \<exists>nc. normalize_candidate (\<lambda>_. []) (json_obj v) = Inr nc \<and>
          (\<exists>c \<in> set (candidate_cpes nc). \<exists>r \<in> snd ` set sample_corpus.
             cr_cve_id r = i \<and> lower (cr_cpe_string r) = lower (strip c)))"
    using match_sub_blob_confirmed [OF coercers_ok_strict sample_analyzed_valid sample_embedder_total,
        of "[]" sample_corpus None "\<lambda>_. []" 5] by blast
  have "set vcs = {JObj sample_candidate}" using v by (auto simp: sample_version_candidates)
  then have "reported (mo_matched_payload out) ''CVE-1'' CONFIRMED" using rep hit by (simp only:)
  with out show ?thesis by blast
qed

theorem match_sub_blob_strongest_witness:
  "\<exists>out. match_sub_blob strict_coercers [] (mem_repo sample_corpus) sample_embedder None (\<lambda>_. []) 5 sample_analyzed = Inr out \<and>
     version_candidates sample_analyzed = Inr [JObj sample_candidate]"
  using match_sub_blob_strongest [OF coercers_ok_strict sample_analyzed_valid sample_embedder_total,
      of "[]" sample_corpus None "\<lambda>_. []" 5] sample_version_candidates by blast

text \<open>
  Tiers are decided on the raw score but the payload carries the score rounded to four
  decimals: a published score can sit on a cutoff whose tier it does not have.
\<close>

lemma rounded_score_on_cutoff:
  "tier_for_score [] (flit 89996 100000) None = POSSIBLE \<and> py_round (flit 89996 100000) 4 = th_high DEFAULT_THRESHOLDS"
  by code_simp

section \<open>What the handler leaves behind\<close>

definition sbom_ok :: "json \<Rightarrow> bool" where
  "sbom_ok c \<longleftrightarrow> (\<exists>v p w b. c = sbom_component v p w b)"

lemma match_candidate_sbom:
  "match_candidate T repo emb rep k b vc st = Inr st' \<Longrightarrow> list_all sbom_ok (ms_sbom st) \<Longrightarrow> list_all sbom_ok (ms_sbom st')"
proof -
  have noted: "list_all sbom_ok (ms_sbom st) \<Longrightarrow> list_all sbom_ok (ms_sbom (note_component b nc t st))" for nc t
    by (auto simp: note_component_def Let_def sbom_ok_def)
  show "match_candidate T repo emb rep k b vc st = Inr st' \<Longrightarrow> list_all sbom_ok (ms_sbom st) \<Longrightarrow> ?thesis"
    using noted by (auto simp: match_candidate_def Let_def split: json.splits)
qed

lemma match_loop_sbom:
  "match_loop (match_candidate T repo emb rep k b) vcs st = Inr st' \<Longrightarrow> list_all sbom_ok (ms_sbom st) \<Longrightarrow>
   list_all sbom_ok (ms_sbom st')"
proof (induction vcs arbitrary: st)
  case (Cons vc vcs)
  then show ?case using match_candidate_sbom by (auto simp del: list_all_iff)
qed simp

lemma match_sub_blob_sbom:
  "match_sub_blob C T repo emb narr rep k d = Inr out \<Longrightarrow> list_all sbom_ok (mo_sbom_components out)"
  using match_loop_sbom [where st = "\<lparr>ms_best = [], ms_sbom = [], ms_seen = {}\<rparr>"]
  by (auto simp: match_sub_blob_def Let_def simp del: list_all_iff)

definition fragment_doc :: "env \<Rightarrow> string \<Rightarrow> json list \<Rightarrow> payload" where
  "fragment_doc E job_id components =
     [(''job_id'', JStr job_id), (''generated_at'', JStr (e_now E)), (''components'', JList components)]"

lemma build_sbom_fragment_eq:
  assumes "env_ok E" "list_all sbom_ok cs"
  shows "build_sbom_fragment E j cs = Inr (fragment_doc E j cs)"
proof -
  have co: "co_str (e_coerce E) (JStr t) = Some t" for t using assms(1) by (simp add: env_ok_def coercers_ok_def)
  have "validate (e_coerce E) SbomComponent c = Some c" if "c \<in> set cs" for c
    using assms(2) that co by (auto simp: list_all_iff sbom_ok_def sbom_component_def SbomComponent_def)
  then have "map (validate (e_coerce E) SbomComponent) cs = map Some cs" by simp
  then have "those (map (validate (e_coerce E) SbomComponent) cs) = Some cs" by (simp only: those_map_Some)
  then show ?thesis
    using assms(1) co by (simp add: build_sbom_fragment_def Sbom_def fragment_doc_def env_ok_def)
qed

definition matched_msg :: "env \<Rightarrow> string \<Rightarrow> payload \<Rightarrow> kmsg" where
  "matched_msg E b p =
     \<lparr>km_topic = FIRMWARE_MATCHED, km_key = Some b, km_value = Some (e_dumps E (JObj p))\<rparr>"

lemma emit_matched:
  assumes "validate_payload (e_coerce E) FIRMWARE_MATCHED (JObj p) = Inr p" "jget p ''sub_blob_id'' = JStr b" "b \<noteq> []"
  shows "emit E FIRMWARE_MATCHED p = produce (matched_msg E b p)"
proof -
  have "encode_key (partition_key FIRMWARE_MATCHED p) = Inr (Some b)"
    using assms(2,3) by (simp add: encode_key_def partition_key_def SUB_BLOB_KEYED_TOPICS_def)
  then show ?thesis
    using assms(1) by (simp add: fun_eq_iff emit_def ebind_def lift_result_def matched_msg_def)
qed

lemma handle_cve_match_run:
  assumes E: "env_ok E" and d: "validate_payload (e_coerce E) FIRMWARE_ANALYZED j = Inr d"
    and emb: "\<forall>t. \<exists>v. em_encode emb t = Inr v"
    and f: "str_field d ''job_id'' = Inr job" "str_field d ''sub_blob_id'' = Inr b" and b: "b \<noteq> []"
    and n: "fake.counter (matched_children job) (rs_redis s) = Some n"
  shows "\<exists>out. match_sub_blob (e_coerce E) T (mem_repo rows) emb narr rep DEFAULT_TOP_K d = Inr out \<and>
    jget (mo_matched_payload out) ''sub_blob_id'' = JStr b \<and>
    handle_cve_match E T (mem_repo rows) emb narr rep c d s =
      produce (matched_msg E b (mo_matched_payload out))
        (s\<lparr>as_artifacts := put_json (sbom_fragment_key job b) (fragment_doc E job (mo_sbom_components out)) (as_artifacts s),
           rs_redis := snd (r_incrby (matched_children job) 1 (rs_redis s))\<rparr>)"
proof -
  have C: "coercers_ok (e_coerce E)" using E by (simp add: env_ok_def)
  obtain job' b' vcs g where g: "str_field d ''job_id'' = Inr job'" "str_field d ''sub_blob_id'' = Inr b'"
    "version_candidates d = Inr vcs" "map (offered T (mem_repo rows) emb rep DEFAULT_TOP_K) vcs = map Inr (map g vcs)"
    using offered_candidates [OF emb d] by metis
  have "job' = job" "b' = b" using f g by simp_all
  with mem_scored.match_output [OF C g, of narr] obtain out where
    out: "match_sub_blob (e_coerce E) T (mem_repo rows) emb narr rep DEFAULT_TOP_K d = Inr out"
    and p: "mo_matched_payload out = matched_payload job b (map (to_match_dict narr) (ranked (concat (map g vcs))))"
    and v: "validate_payload (e_coerce E) FIRMWARE_MATCHED (JObj (mo_matched_payload out)) = Inr (mo_matched_payload out)"
    by blast
  have sb: "jget (mo_matched_payload out) ''sub_blob_id'' = JStr b"
    unfolding p by (simp add: matched_payload_def jget_def)
  note frag = build_sbom_fragment_eq [OF E match_sub_blob_sbom [OF out]]
  obtain rd where rd: "r_incrby (matched_children job) 1 (rs_redis s) = (Inr (n + 1), rd)"
    using n by (metis fake.kincr_value option.simps(5) prod.collapse)
  show ?thesis
    by (rule exI [of _ out])
      (simp add: out sb handle_cve_match_def ebind_def lift_result_def f frag modify_def on_redis_result_def rd
        emit_matched [OF v sb b])
qed

text \<open>
  On a validated event the match handler stores the SBOM fragment of the sub-blob,
  advances the counter the completion gate reads, and emits one matched event; when the
  producer refuses the event, the fragment and the counter step stay behind although the
  aggregator will never see this sub-blob.
\<close>

theorem handle_cve_match_effects:
  assumes "env_ok E" "validate_payload (e_coerce E) FIRMWARE_ANALYZED j = Inr d"
    and "\<forall>t. \<exists>v. em_encode emb t = Inr v"
    and "str_field d ''job_id'' = Inr job" "str_field d ''sub_blob_id'' = Inr b" "b \<noteq> []"
    and "py_int (case r_live (matched_children job) (rs_redis s) of None \<Rightarrow> ''0'' | Some v \<Rightarrow> v) = Some n"
  shows "\<exists>out s'. match_sub_blob (e_coerce E) T (mem_repo rows) emb narr rep DEFAULT_TOP_K d = Inr out \<and>
    handle_cve_match E T (mem_repo rows) emb narr rep c d s =
      (if take 1 (rs_faults s) = [True] then Inl ProduceError else Inr (), s') \<and>
    rs_log s' = rs_log s @ (if take 1 (rs_faults s) = [True] then [] else [matched_msg E b (mo_matched_payload out)]) \<and>
    r_live (matched_children job) (rs_redis s') = Some (int_str (n + 1)) \<and>
    get_json (sbom_fragment_key job b) (as_artifacts s') = Some (fragment_doc E job (mo_sbom_components out)) \<and>
    as_docs s' = as_docs s"
proof -
  from handle_cve_match_run [OF assms] obtain out where
    out: "match_sub_blob (e_coerce E) T (mem_repo rows) emb narr rep DEFAULT_TOP_K d = Inr out"
    "handle_cve_match E T (mem_repo rows) emb narr rep c d s =
      produce (matched_msg E b (mo_matched_payload out))
        (s\<lparr>as_artifacts := put_json (sbom_fragment_key job b) (fragment_doc E job (mo_sbom_components out)) (as_artifacts s),
           rs_redis := snd (r_incrby (matched_children job) 1 (rs_redis s))\<rparr>)" by blast
  have live: "r_live (matched_children job) (snd (r_incrby (matched_children job) 1 (rs_redis s))) = Some (int_str (n + 1))"
    using assms(7) by (simp add: fake.kincr_live fake.kincr_value)
  have "rs_faults s = [] \<or> (\<exists>fs. rs_faults s = True # fs) \<or> (\<exists>fs. rs_faults s = False # fs)"
    by (cases "rs_faults s") auto
  then show ?thesis
    by (elim disjE exE; intro exI [of _ out]) (simp_all add: out produce_def live mem_artifacts.get_put)
qed

definition sample_match_state :: report_state where
  "sample_match_state =
     \<lparr>rs_redis = redis_empty, rs_log = [], rs_faults = [], as_docs = [], as_artifacts = [], as_jobs = [],
      as_pg_up = True\<rparr>"

theorem handle_cve_match_effects_witness:
  "\<exists>s'. handle_cve_match sample_env [] (mem_repo sample_corpus) sample_embedder None (\<lambda>_. [])
      \<lparr>cx_source = FIRMWARE_ANALYZED, cx_key = ''b''\<rparr> sample_analyzed sample_match_state = (Inr (), s') \<and>
    r_live (matched_children ''j'') (rs_redis s') = Some (int_str 1)"
proof -
  have v: "validate_payload (e_coerce sample_env) FIRMWARE_ANALYZED (JObj sample_analyzed) = Inr sample_analyzed"
    using sample_analyzed_valid by (simp add: sample_env_def)
  have f: "str_field sample_analyzed ''job_id'' = Inr ''j''" "str_field sample_analyzed ''sub_blob_id'' = Inr ''b''"
    by (simp_all add: str_field_def jindex_def sample_analyzed_def)
  have "py_int ''0'' = Some 0" by code_simp
  then have n: "py_int (case r_live (matched_children ''j'') (rs_redis sample_match_state) of None \<Rightarrow> ''0'' | Some v \<Rightarrow> v) = Some 0"
    by (simp add: sample_match_state_def r_live_def r_overdue_def redis_empty_def)
  have nf: "rs_faults sample_match_state = []" by (simp add: sample_match_state_def)
  show ?thesis
    using handle_cve_match_effects [OF sample_env_ok v sample_embedder_total f _ n, where T = "[]" and rows = sample_corpus
        and narr = None and rep = "\<lambda>_. []" and c = "\<lparr>cx_source = FIRMWARE_ANALYZED, cx_key = ''b''\<rparr>"]
    by (auto simp: nf)
qed

end
