(* ===== verification/Locks.thy ===== *)
theory Locks
  imports RedisStore
begin

text \<open>
  The single-instance Redis lock (\<open>services/cve_matching/locks.py\<close>): \<open>SET NX PX\<close> to
  acquire, a token check and a delete to release. The two Redis calls of the release are
  separate steps of the transition system of several lock users. Within its lease a holder
  excludes every other one, provided that no user stalls between check and delete until
  its own lease has run out; without that proviso the exclusion fails.
\<close>

section \<open>RedisLock\<close>

record redis_lock =
  lk_key :: string
  lk_ttl_ms :: int
  lk_token :: "string option"

definition new_lock :: "string \<Rightarrow> int \<Rightarrow> redis_lock" where
  "new_lock key ttl = \<lparr>lk_key = key, lk_ttl_ms = ttl, lk_token = None\<rparr>"

text \<open>\<open>token\<close> is the fresh \<open>uuid4\<close> of the call.\<close>

definition acquire :: "string \<Rightarrow> redis_lock \<Rightarrow> redis \<Rightarrow> bool \<times> redis_lock \<times> redis" where
  "acquire token lock r =
     (case r_set (lk_key lock) token True (Some (lk_ttl_ms lock)) r of
        (True, r') \<Rightarrow> (True, lock\<lparr>lk_token := Some token\<rparr>, r')
      | (False, r') \<Rightarrow> (False, lock, r'))"

definition release_check :: "string \<Rightarrow> string \<Rightarrow> redis \<Rightarrow> bool \<times> redis" where
  "release_check key token r = (case r_get key r of (v, r') \<Rightarrow> (v = Some token, r'))"

definition release_delete :: "string \<Rightarrow> redis \<Rightarrow> redis" where
  "release_delete key r = snd (r_delete key r)"

definition release :: "redis_lock \<Rightarrow> redis \<Rightarrow> redis_lock \<times> redis" where
  "release lock r =
     (case lk_token lock of
        None \<Rightarrow> (lock, r)
      | Some token \<Rightarrow>
          (case release_check (lk_key lock) token r of
             (mine, r') \<Rightarrow> (lock\<lparr>lk_token := None\<rparr>, if mine then release_delete (lk_key lock) r' else r')))"

text \<open>The context manager: the body runs with the answer, and a lock taken is given back.\<close>

definition guard :: "string \<Rightarrow> string \<Rightarrow> int \<Rightarrow> (bool \<Rightarrow> redis \<Rightarrow> 'a \<times> redis) \<Rightarrow> redis \<Rightarrow> 'a \<times> redis" where
  "guard token key ttl body r =
     (case acquire token (new_lock key ttl) r of
        (acquired, lock, r1) \<Rightarrow>
          (case body acquired r1 of
             (x, r2) \<Rightarrow> (x, if acquired then snd (release lock r2) else r2)))"

lemma r_live_deleted: "r_live j (snd (r_delete k r)) = (if j = k then None else r_live j r)"
  by (auto simp: r_delete_def r_live_def r_overdue_iff)

lemma acquire_live:
  assumes "0 < lk_ttl_ms lock"
  shows "fst (acquire token lock r) = (r_live (lk_key lock) r = None)"
    and "r_live j (snd (snd (acquire token lock r))) =
      (if j = lk_key lock \<and> r_live j r = None then Some token else r_live j r)"
  using fake.kset_fst [of "lk_key lock" token True "Some (lk_ttl_ms lock)" r]
    fake.kset_live [of "Some (lk_ttl_ms lock)" j "lk_key lock" token True r] assms
  by (auto simp: acquire_def split: prod.splits bool.splits)

lemma release_live:
  "lk_token lock = Some token \<Longrightarrow>
   r_live j (snd (release lock r)) =
     (if j = lk_key lock \<and> r_live j r = Some token then None else r_live j r)"
  by (auto simp: release_def release_check_def release_delete_def r_get_simp r_live_deleted)

text \<open>Only the owner's own token is ever removed by an undisturbed release.\<close>

lemma release_keeps_other:
  "r_live (lk_key lock) r \<noteq> lk_token lock \<Longrightarrow> r_live j (snd (release lock r)) = r_live j r"
proof (cases "lk_token lock")
  case None
  then show ?thesis by (simp add: release_def)
next
  case (Some t)
  assume "r_live (lk_key lock) r \<noteq> lk_token lock"
  with Some show ?thesis by (auto simp: release_live [OF Some])
qed

section \<open>Several users of one key\<close>

datatype lock_user = Idle | Holds string int | Releasing string int

record lock_world =
  lw_redis :: redis
  lw_users :: "nat \<Rightarrow> lock_user"
  lw_used :: "string set"

text \<open>
  \<open>timely\<close> restricts a user to deleting the key before its own lease ends. Tokens are
  version 4 UUIDs, taken to be fresh.
\<close>

inductive lock_step :: "bool \<Rightarrow> string \<Rightarrow> int \<Rightarrow> lock_world \<Rightarrow> lock_world \<Rightarrow> bool"
  for timely :: bool and key :: string and ttl :: int where
  Acquired: "lw_users w i = Idle \<Longrightarrow> tok \<notin> lw_used w \<Longrightarrow>
    acquire tok (new_lock key ttl) (lw_redis w) = (True, lock, r) \<Longrightarrow>
    lock_step timely key ttl w
      \<lparr>lw_redis = r, lw_users = (lw_users w)(i := Holds tok (rd_now (lw_redis w) + ttl)),
       lw_used = insert tok (lw_used w)\<rparr>"
| Refused: "lw_users w i = Idle \<Longrightarrow> acquire tok (new_lock key ttl) (lw_redis w) = (False, lock, r) \<Longrightarrow>
    lock_step timely key ttl w (w\<lparr>lw_redis := r\<rparr>)"
| Checked: "lw_users w i = Holds tok dl \<Longrightarrow> release_check key tok (lw_redis w) = (True, r) \<Longrightarrow>
    lock_step timely key ttl w (w\<lparr>lw_redis := r, lw_users := (lw_users w)(i := Releasing tok dl)\<rparr>)"
| Lost: "lw_users w i = Holds tok dl \<Longrightarrow> release_check key tok (lw_redis w) = (False, r) \<Longrightarrow>
    lock_step timely key ttl w (w\<lparr>lw_redis := r, lw_users := (lw_users w)(i := Idle)\<rparr>)"
| Deleted: "lw_users w i = Releasing tok dl \<Longrightarrow> \<not> timely \<or> rd_now (lw_redis w) < dl \<Longrightarrow>
    lock_step timely key ttl w
      (w\<lparr>lw_redis := release_delete key (lw_redis w), lw_users := (lw_users w)(i := Idle)\<rparr>)"
| Tick: "0 \<le> ms \<Longrightarrow> lock_step timely key ttl w (w\<lparr>lw_redis := r_wait ms (lw_redis w)\<rparr>)"

inductive_cases lock_stepE: "lock_step timely key ttl w w'"

definition initial_world :: lock_world where
  "initial_world = \<lparr>lw_redis = redis_empty, lw_users = (\<lambda>_. Idle), lw_used = {}\<rparr>"

inductive lock_reachable :: "bool \<Rightarrow> string \<Rightarrow> int \<Rightarrow> lock_world \<Rightarrow> bool"
  for timely :: bool and key :: string and ttl :: int where
  start: "lock_reachable timely key ttl initial_world"
| further: "lock_reachable timely key ttl w \<Longrightarrow> lock_step timely key ttl w w' \<Longrightarrow> lock_reachable timely key ttl w'"

fun lease :: "lock_user \<Rightarrow> (string \<times> int) option" where
  "lease Idle = None"
| "lease (Holds tok dl) = Some (tok, dl)"
| "lease (Releasing tok dl) = Some (tok, dl)"

definition in_lease :: "lock_world \<Rightarrow> nat \<Rightarrow> bool" where
  "in_lease w i = (\<exists>tok dl. lease (lw_users w i) = Some (tok, dl) \<and> rd_now (lw_redis w) < dl)"

definition lock_inv :: "string \<Rightarrow> lock_world \<Rightarrow> bool" where
  "lock_inv key w \<longleftrightarrow>
     (\<forall>i tok dl. lease (lw_users w i) = Some (tok, dl) \<longrightarrow> tok \<in> lw_used w) \<and>
     (\<forall>i tok dl. lease (lw_users w i) = Some (tok, dl) \<and> rd_now (lw_redis w) < dl \<longrightarrow>
        dget (rd_store (lw_redis w)) key = Some tok \<and> dget (rd_expiry (lw_redis w)) key = Some dl) \<and>
     (\<forall>i j tok dl dl'. lease (lw_users w i) = Some (tok, dl) \<and> lease (lw_users w j) = Some (tok, dl') \<longrightarrow> i = j)"

lemma r_expired_in_lease:
  "dget (rd_expiry r) key = Some dl \<Longrightarrow> rd_now r < dl \<Longrightarrow> snd (r_expired key r) = r"
  by (auto simp: r_expired_def r_overdue_iff)

lemma rd_now_ops [simp]:
  "rd_now (snd (r_expired k r)) = rd_now r" "rd_now (snd (r_delete k r)) = rd_now r"
  "rd_now (release_delete k r) = rd_now r" "rd_now (r_wait ms r) = rd_now r + ms"
  by (simp_all add: r_expired_def r_delete_def release_delete_def r_wait_def)

lemma acquire_True:
  assumes "acquire tok (new_lock key ttl) r = (True, lock, r')"
  shows "r_live key r = None" "dget (rd_store r') key = Some tok"
    "dget (rd_expiry r') key = Some (rd_now r + ttl)" "rd_now r' = rd_now r"
  using assms
  by (auto simp: acquire_def new_lock_def r_set_simp Let_def split: if_splits)

lemma acquire_False:
  "acquire tok (new_lock key ttl) r = (False, lock, r') \<Longrightarrow> r' = snd (r_expired key r)"
  by (auto simp: acquire_def new_lock_def r_set_simp Let_def split: if_splits)

lemma release_check_result:
  "release_check key tok r = (b, r') \<longleftrightarrow> b = (r_live key r = Some tok) \<and> r' = snd (r_expired key r)"
  by (auto simp: release_check_def r_get_simp)

lemma lock_invD:
  assumes "lock_inv key w" "lease (lw_users w i) = Some (tok, dl)"
  shows "tok \<in> lw_used w"
    and "rd_now (lw_redis w) < dl \<Longrightarrow> dget (rd_store (lw_redis w)) key = Some tok"
    and "rd_now (lw_redis w) < dl \<Longrightarrow> dget (rd_expiry (lw_redis w)) key = Some dl"
    and "lease (lw_users w j) = Some (tok, dl') \<Longrightarrow> i = j"
  using assms unfolding lock_inv_def by blast+

text \<open>A user leaving its lease, or merely purging the expired key, keeps the invariant.\<close>

lemma lock_inv_weaken:
  assumes inv: "lock_inv key w"
    and users: "\<And>j tok dl. lease (us j) = Some (tok, dl) \<Longrightarrow> lease (lw_users w j) = Some (tok, dl)"
    and now: "rd_now (lw_redis w) \<le> rd_now r"
    and keep: "\<And>j tok dl. lease (us j) = Some (tok, dl) \<Longrightarrow> rd_now r < dl \<Longrightarrow>
      dget (rd_store r) key = dget (rd_store (lw_redis w)) key \<and>
      dget (rd_expiry r) key = dget (rd_expiry (lw_redis w)) key"
  shows "lock_inv key \<lparr>lw_redis = r, lw_users = us, lw_used = lw_used w\<rparr>"
proof -
  have "dget (rd_store r) key = Some tok \<and> dget (rd_expiry r) key = Some dl"
    if l: "lease (us i) = Some (tok, dl)" "rd_now r < dl" for i tok dl
    using lock_invD(2,3) [OF inv users [OF l(1)]] keep [OF l] now l(2) by simp
  moreover have "i = j" if "lease (us i) = Some (tok, dl)" "lease (us j) = Some (tok, dl')" for i j tok dl dl'
    using lock_invD(4) [OF inv users [OF that(1)] users [OF that(2)]] .
  moreover have "tok \<in> lw_used w" if "lease (us i) = Some (tok, dl)" for i tok dl
    using lock_invD(1) [OF inv users [OF that]] .
  ultimately show ?thesis unfolding lock_inv_def by simp blast
qed

lemma in_lease_not_purged:
  assumes "lock_inv key w" "lease (lw_users w i) = Some (tok, dl)" "rd_now (lw_redis w) < dl"
  shows "snd (r_expired key (lw_redis w)) = lw_redis w"
  using r_expired_in_lease [OF lock_invD(3) [OF assms(1,2,3)] assms(3)] .

lemma lock_inv_step:
  assumes step: "lock_step True key ttl w w'" and inv: "lock_inv key w"
  shows "lock_inv key w'"
  using step
proof cases
  case (Acquired i tok lock r)
  note a = acquire_True [OF Acquired(4)]
  have none: False if "lease (lw_users w j) = Some (t, dl)" "rd_now (lw_redis w) < dl" for j t dl
    using lock_invD(2,3) [OF inv that(1)] that(2) a(1) by (auto simp: r_live_def r_overdue_iff)
  have fresh: False if "lease (lw_users w j) = Some (tok, dl)" for j dl
    using lock_invD(1) [OF inv that] Acquired(3) by blast
  show ?thesis
    unfolding Acquired(1) lock_inv_def
    using a none fresh lock_invD(1,4) [OF inv] by (auto split: if_splits)
next
  case (Refused i tok lock r)
  note r = acquire_False [OF Refused(3)]
  have "lock_inv key \<lparr>lw_redis = r, lw_users = lw_users w, lw_used = lw_used w\<rparr>"
    by (rule lock_inv_weaken [OF inv]) (simp_all add: r in_lease_not_purged [OF inv])
  then show ?thesis unfolding Refused(1) by (cases w) simp
next
  case (Checked i tok dl r)
  then have r: "r = snd (r_expired key (lw_redis w))" by (simp add: release_check_result)
  have "lock_inv key \<lparr>lw_redis = r, lw_users = (lw_users w)(i := Releasing tok dl), lw_used = lw_used w\<rparr>"
  proof (rule lock_inv_weaken [OF inv])
    show us: "lease (((lw_users w)(i := Releasing tok dl)) j) = Some (t, d) \<Longrightarrow> lease (lw_users w j) = Some (t, d)" for j t d
      using Checked(2) by (auto split: if_splits)
    show "rd_now (lw_redis w) \<le> rd_now r" by (simp add: r)
    show "dget (rd_store r) key = dget (rd_store (lw_redis w)) key \<and> dget (rd_expiry r) key = dget (rd_expiry (lw_redis w)) key"
      if "lease (((lw_users w)(i := Releasing tok dl)) j) = Some (t, d)" "rd_now r < d" for j t d
      using in_lease_not_purged [OF inv us [OF that(1)]] that(2) by (simp add: r)
  qed
  then show ?thesis unfolding Checked(1) by (cases w) simp
next
  case (Lost i tok dl r)
  then have r: "r = snd (r_expired key (lw_redis w))" by (simp add: release_check_result)
  have "lock_inv key \<lparr>lw_redis = r, lw_users = (lw_users w)(i := Idle), lw_used = lw_used w\<rparr>"
  proof (rule lock_inv_weaken [OF inv])
    show us: "lease (((lw_users w)(i := Idle)) j) = Some (t, d) \<Longrightarrow> lease (lw_users w j) = Some (t, d)" for j t d
      by (auto split: if_splits)
    show "rd_now (lw_redis w) \<le> rd_now r" by (simp add: r)
    show "dget (rd_store r) key = dget (rd_store (lw_redis w)) key \<and> dget (rd_expiry r) key = dget (rd_expiry (lw_redis w)) key"
      if "lease (((lw_users w)(i := Idle)) j) = Some (t, d)" "rd_now r < d" for j t d
      using in_lease_not_purged [OF inv us [OF that(1)]] that(2) by (simp add: r)
  qed
  then show ?thesis unfolding Lost(1) by (cases w) simp
next
  case (Deleted i tok dl)
  have i: "lease (lw_users w i) = Some (tok, dl)" "rd_now (lw_redis w) < dl" using Deleted by simp_all
  have alone: "j = i" if "lease (lw_users w j) = Some (t, d)" "rd_now (lw_redis w) < d" for j t d
  proof -
    have "t = tok" using lock_invD(2) [OF inv i] lock_invD(2) [OF inv that] by simp
    with lock_invD(4) [OF inv i(1)] that(1) show ?thesis by metis
  qed
  have "lock_inv key \<lparr>lw_redis = release_delete key (lw_redis w), lw_users = (lw_users w)(i := Idle), lw_used = lw_used w\<rparr>"
    by (rule lock_inv_weaken [OF inv]) (use alone in \<open>auto split: if_splits\<close>)
  then show ?thesis unfolding Deleted(1) by (cases w) simp
next
  case (Tick ms)
  have "lock_inv key \<lparr>lw_redis = r_wait ms (lw_redis w), lw_users = lw_users w, lw_used = lw_used w\<rparr>"
    by (rule lock_inv_weaken [OF inv]) (use Tick in \<open>simp_all add: r_wait_def\<close>)
  then show ?thesis unfolding Tick(1) by (cases w) simp
qed

lemma lock_inv_reachable: "lock_reachable True key ttl w \<Longrightarrow> lock_inv key w"
proof (induction rule: lock_reachable.induct)
  case start
  then show ?case by (simp add: lock_inv_def initial_world_def)
next
  case (further w w')
  then show ?case by (blast intro: lock_inv_step)
qed


section \<open>What the proviso is for\<close>

definition lock_taken :: "string \<Rightarrow> string \<Rightarrow> int \<Rightarrow> redis \<Rightarrow> redis" where
  "lock_taken key tok ttl r =
     (let r' = snd (r_expired key r)
      in r'\<lparr>rd_store := dset key tok (rd_store r'), rd_expiry := dset key (rd_now r + ttl) (rd_expiry r')\<rparr>)"

lemma acquire_free:
  "r_live key r = None \<Longrightarrow>
   acquire tok (new_lock key ttl) r = (True, (new_lock key ttl)\<lparr>lk_token := Some tok\<rparr>, lock_taken key tok ttl r)"
  by (simp add: acquire_def new_lock_def r_set_simp Let_def lock_taken_def)

lemma lock_taken_simps:
  "r_live key (lock_taken key tok ttl r) = (if ttl \<le> 0 then None else Some tok)"
  "rd_now (lock_taken key tok ttl r) = rd_now r"
  "dget (rd_expiry (lock_taken key tok ttl r)) key = Some (rd_now r + ttl)"
  by (auto simp: lock_taken_def Let_def r_live_def r_overdue_iff)

lemma r_live_wait:
  "r_live key (r_wait ms r) =
     (if \<exists>t. dget (rd_expiry r) key = Some t \<and> t \<le> rd_now r + ms then None else dget (rd_store r) key)"
  by (auto simp: r_live_def r_overdue_iff r_wait_def)

lemma lock_step_acquire:
  assumes "lw_users w i = Idle" "tok \<notin> lw_used w" "r_live key (lw_redis w) = None"
  shows "lock_step timely key ttl w
    \<lparr>lw_redis = lock_taken key tok ttl (lw_redis w),
     lw_users = (lw_users w)(i := Holds tok (rd_now (lw_redis w) + ttl)), lw_used = insert tok (lw_used w)\<rparr>"
  using assms acquire_free [OF assms(3)] by (intro lock_step.Acquired)

lemma lock_step_check:
  assumes "lw_users w i = Holds tok dl" "r_live key (lw_redis w) = Some tok"
  shows "lock_step timely key ttl w
    (w\<lparr>lw_redis := snd (r_expired key (lw_redis w)), lw_users := (lw_users w)(i := Releasing tok dl)\<rparr>)"
  using assms by (intro lock_step.Checked) (simp_all add: release_check_result)

text \<open>
  Without the proviso the check-then-delete release breaks the exclusion: user 0 checks its
  token, its lease ends, user 1 acquires, user 0 deletes user 1's key, user 2 acquires.
\<close>

lemma lock_race:
  assumes "0 < ttl"
  shows "\<exists>w. lock_reachable False key ttl w \<and> in_lease w 1 \<and> in_lease w 2"
proof -
  define w1 where "w1 = \<lparr>lw_redis = lock_taken key ''a'' ttl redis_empty,
    lw_users = (lw_users initial_world)(0 := Holds ''a'' ttl), lw_used = {''a''}\<rparr>"
  define w2 where "w2 = w1\<lparr>lw_users := (lw_users w1)(0 := Releasing ''a'' ttl)\<rparr>"
  define w3 where "w3 = w2\<lparr>lw_redis := r_wait ttl (lw_redis w2)\<rparr>"
  define w4 where "w4 = \<lparr>lw_redis = lock_taken key ''b'' ttl (lw_redis w3),
    lw_users = (lw_users w3)(1 := Holds ''b'' (ttl + ttl)), lw_used = {''b'', ''a''}\<rparr>"
  define w5 where "w5 = w4\<lparr>lw_redis := release_delete key (lw_redis w4), lw_users := (lw_users w4)(0 := Idle)\<rparr>"
  define w6 where "w6 = \<lparr>lw_redis = lock_taken key ''c'' ttl (lw_redis w5),
    lw_users = (lw_users w5)(2 := Holds ''c'' (ttl + ttl)), lw_used = {''c'', ''b'', ''a''}\<rparr>"
  have live0: "r_live key redis_empty = None" by (simp add: r_live_def r_overdue_iff redis_empty_def)
  have now: "rd_now redis_empty = 0" by (simp add: redis_empty_def)
  have s1: "lock_step False key ttl initial_world w1"
    using lock_step_acquire [of initial_world 0 "''a''" key False ttl] live0 now
    by (simp add: w1_def initial_world_def)
  have keep: "snd (r_expired key (lw_redis w1)) = lw_redis w1"
    using assms by (intro r_expired_in_lease [of _ _ ttl]) (simp_all add: w1_def lock_taken_simps now)
  have s2: "lock_step False key ttl w1 w2"
    using lock_step_check [of w1 0 "''a''" ttl key False ttl] assms keep
    by (simp add: w2_def w1_def lock_taken_simps)
  have s3: "lock_step False key ttl w2 w3"
    unfolding w3_def using assms by (intro lock_step.Tick) simp
  have n3: "rd_now (lw_redis w3) = ttl" by (simp add: w3_def w2_def w1_def lock_taken_simps now)
  have live3: "r_live key (lw_redis w3) = None"
    by (simp add: w3_def w2_def w1_def r_live_wait lock_taken_simps now)
  have s4: "lock_step False key ttl w3 w4"
    using lock_step_acquire [of w3 1 "''b''" key False ttl] live3 n3
    by (simp add: w4_def w3_def w2_def w1_def initial_world_def)
  have s5: "lock_step False key ttl w4 w5"
    unfolding w5_def by (rule lock_step.Deleted) (simp_all add: w4_def w3_def w2_def)
  have n5: "rd_now (lw_redis w5) = ttl" by (simp add: w5_def w4_def lock_taken_simps n3)
  have live5: "r_live key (lw_redis w5) = None" by (simp add: w5_def release_delete_def r_live_deleted)
  have s6: "lock_step False key ttl w5 w6"
    using lock_step_acquire [of w5 2 "''c''" key False ttl] live5 n5
    by (simp add: w6_def w5_def w4_def w3_def w2_def w1_def initial_world_def)
  have "lock_reachable False key ttl w6"
    using lock_reachable.start s1 s2 s3 s4 s5 s6 by (meson lock_reachable.further)
  moreover have "rd_now (lw_redis w6) = ttl" by (simp add: w6_def lock_taken_simps n5)
  then have "in_lease w6 1" "in_lease w6 2"
    using assms by (simp_all add: in_lease_def w6_def w5_def w4_def)
  ultimately show ?thesis by blast
qed


end
