(* ===== verification/DlqReplay.thy ===== *)
theory DlqReplay
  imports Locks Router Narrator
begin

text \<open>
  The dead-letter replay worker (\<open>services/cve_matching/dlq_replay.py\<close>): the retry lock of
  a job, re-injection with exponential backoff, and the consumer loop. \<open>sleep\<close> records the
  delay and lets the Redis clock run; \<open>emit\<close> is the producer call of the consumer loop,
  unkeyed as there.
\<close>

datatype replay_result = RETRIED | BLOCKED | EXHAUSTED | SKIPPED

record dlq_state = router_state +
  ds_sleeps :: "pyfloat list"
  ds_uuids :: nat

record replay_config =
  rc_max_attempts :: nat
  rc_base_delay :: pyfloat
  rc_lock_ttl_ms :: int

definition default_replay_config :: replay_config where
  "default_replay_config = \<lparr>rc_max_attempts = 5, rc_base_delay = flit 1 2, rc_lock_ttl_ms = 30000\<rparr>"

section \<open>replay_record\<close>

text \<open>\<open>dlq_record.get(k) or ""\<close>.\<close>

definition get_or_empty :: "payload \<Rightarrow> string \<Rightarrow> json" where
  "get_or_empty d k = (if truthy (jget d k) then jget d k else JStr [])"

text \<open>
  \<open>(json.loads(raw) or {}).get("job_id") or "unknown"\<close>: a decoded value that is true but no
  dictionary has no \<open>get\<close>; only decoding errors are caught.
\<close>

definition job_id_of :: "env \<Rightarrow> payload \<Rightarrow> json result" where
  "job_id_of E dlq_record =
     (case get_or_empty dlq_record ''payload'' of
        JStr raw \<Rightarrow>
          (case e_loads E raw of
             Inl (ValueError e) \<Rightarrow> Inr (JStr ''unknown'')
           | Inl (TypeError e) \<Rightarrow> Inr (JStr ''unknown'')
           | Inl e \<Rightarrow> Inl e
           | Inr j \<Rightarrow>
               if \<not> truthy j then Inr (JStr ''unknown'')
               else
                 (case j of
                    JObj d \<Rightarrow> Inr (if truthy (jget d ''job_id'') then jget d ''job_id'' else JStr ''unknown'')
                  | _ \<Rightarrow> Inl (AttributeError ''get'')))
      | _ \<Rightarrow> Inr (JStr ''unknown''))"

text \<open>\<open>producer.produce(topic, value=raw_value.encode())\<close>.\<close>

definition emit_raw :: "json \<Rightarrow> json \<Rightarrow> ('z router_state_scheme, unit) eff" where
  "emit_raw topic raw =
     (case raw of
        JStr v \<Rightarrow>
          (case topic of
             JStr t \<Rightarrow> produce \<lparr>km_topic = t, km_key = None, km_value = Some v\<rparr>
           | _ \<Rightarrow> raise (TypeError ''topic''))
      | _ \<Rightarrow> raise (AttributeError ''encode''))"

definition sleep :: "pyfloat \<Rightarrow> ('z dlq_state_scheme, unit) eff" where
  "sleep delay =
     modify (\<lambda>s. s\<lparr>ds_sleeps := ds_sleeps s @ [delay], rs_redis := r_wait \<lfloor>delay * 1000\<rfloor> (rs_redis s)\<rparr>)"

text \<open>The attempts from \<open>attempt\<close> on, of \<open>range(1, max_attempts + 1)\<close>.\<close>

fun attempt_loop ::
  "nat \<Rightarrow> json \<Rightarrow> json \<Rightarrow> nat list \<Rightarrow> pyfloat \<Rightarrow> ('z dlq_state_scheme, replay_result) eff" where
  "attempt_loop m topic raw [] delay = ret EXHAUSTED"
| "attempt_loop m topic raw (attempt # attempts) delay =
     catch (ebind (emit_raw topic raw) (\<lambda>_. ret RETRIED))
       (\<lambda>_. if m \<le> attempt then ret EXHAUSTED
            else ebind (sleep delay) (\<lambda>_. attempt_loop m topic raw attempts (fmul delay 2)))"

definition release_lock :: "redis_lock \<Rightarrow> ('z router_state_scheme, unit) eff" where
  "release_lock lock = modify (\<lambda>s. s\<lparr>rs_redis := snd (release lock (rs_redis s))\<rparr>)"

text \<open>\<open>try: m finally: f\<close>, for an \<open>f\<close> that does not raise.\<close>

definition finally_do :: "('s, 'a) eff \<Rightarrow> ('s, unit) eff \<Rightarrow> ('s, 'a) eff" where
  "finally_do m f s = (case m s of (r, s') \<Rightarrow> (r, snd (f s')))"

definition retry_lock :: "(json \<Rightarrow> string) \<Rightarrow> json \<Rightarrow> string" where
  "retry_lock rep job_id = dlq_lock_key (py_text rep job_id)"

definition replay_record ::
  "env \<Rightarrow> (json \<Rightarrow> string) \<Rightarrow> (nat \<Rightarrow> string) \<Rightarrow> replay_config \<Rightarrow> payload \<Rightarrow>
   ('z dlq_state_scheme, replay_result) eff" where
  "replay_record E rep uuid cfg dlq_record =
     (let original_topic = jget dlq_record ''original_topic'';
          raw_payload = get_or_empty dlq_record ''payload''
      in if \<not> truthy original_topic \<or> original_topic = JStr FIRMWARE_DLQ then ret SKIPPED
         else
           ebind (lift_result (job_id_of E dlq_record)) (\<lambda>job_id.
           ebind (gets (\<lambda>s. acquire (uuid (ds_uuids s))
                              (new_lock (retry_lock rep job_id) (rc_lock_ttl_ms cfg)) (rs_redis s)))
             (\<lambda>(got, lock, r).
           ebind (modify (\<lambda>s. s\<lparr>rs_redis := r, ds_uuids := ds_uuids s + 1\<rparr>)) (\<lambda>_.
           if \<not> got then ret BLOCKED
           else finally_do
                  (attempt_loop (rc_max_attempts cfg) original_topic raw_payload
                     [1..<rc_max_attempts cfg + 1] (rc_base_delay cfg))
                  (release_lock lock)))))"

section \<open>The consumer loop\<close>

text \<open>One turn of \<open>while True\<close>: every message taken is committed, whatever the replay did.\<close>

definition dlq_poll_step ::
  "env \<Rightarrow> (json \<Rightarrow> string) \<Rightarrow> (nat \<Rightarrow> string) \<Rightarrow> replay_config \<Rightarrow> poll \<Rightarrow>
   kmsg list \<times> 'z dlq_state_scheme \<Rightarrow> kmsg list \<times> 'z dlq_state_scheme" where
  "dlq_poll_step E rep uuid cfg p st =
     (case st of (committed, s) \<Rightarrow>
        (case p of
           PollNone \<Rightarrow> (committed, s)
         | PollError _ \<Rightarrow> (committed, s)
         | PollMsg msg \<Rightarrow>
             (committed @ [msg],
              snd ((case km_value msg of
                      None \<Rightarrow> raise (TypeError ''the JSON object must be str, bytes or bytearray'')
                    | Some v \<Rightarrow>
                        ebind (lift_result (e_loads E v)) (\<lambda>j.
                        (case j of
                           JObj record \<Rightarrow> ebind (replay_record E rep uuid cfg record) (\<lambda>_. ret ())
                         | _ \<Rightarrow> raise (AttributeError ''get'')))) s))))"

definition dlq_run_loop ::
  "env \<Rightarrow> (json \<Rightarrow> string) \<Rightarrow> (nat \<Rightarrow> string) \<Rightarrow> replay_config \<Rightarrow> poll list \<Rightarrow>
   kmsg list \<times> 'z dlq_state_scheme \<Rightarrow> kmsg list \<times> 'z dlq_state_scheme" where
  "dlq_run_loop E rep uuid cfg polls st = foldl (\<lambda>st p. dlq_poll_step E rep uuid cfg p st) st polls"

section \<open>The attempts\<close>

text \<open>The delays of the first \<open>n\<close> retries, each twice the one before.\<close>

definition backoff :: "pyfloat \<Rightarrow> nat \<Rightarrow> pyfloat list" where
  "backoff base n = map (\<lambda>i. ((\<lambda>d. fmul d 2) ^^ i) base) [0..<n]"

lemma backoff_Suc: "backoff base (Suc n) = base # backoff (fmul base 2) n"
  unfolding backoff_def using funpow_swap1 [of "\<lambda>d. fmul d 2" _ base]
  by (simp add: upt_conv_Cons map_Suc_upt [symmetric] del: upt_Suc)

definition slept :: "pyfloat list \<Rightarrow> redis \<Rightarrow> redis" where
  "slept ds r = foldl (\<lambda>r d. r_wait \<lfloor>d * 1000\<rfloor> r) r ds"

text \<open>Of \<open>k\<close> refusals in a row, then an acceptance.\<close>

lemma attempt_loop_run:
  assumes "rs_faults s = replicate k True @ False # fs" "attempts = [a..<Suc m]" "1 \<le> a" "a \<le> m"
  shows "attempt_loop m (JStr t) (JStr v) attempts delay s =
    (if a + k \<le> m
     then (Inr RETRIED, s\<lparr>rs_faults := fs, rs_log := rs_log s @ [\<lparr>km_topic = t, km_key = None, km_value = Some v\<rparr>],
            ds_sleeps := ds_sleeps s @ backoff delay k, rs_redis := slept (backoff delay k) (rs_redis s)\<rparr>)
     else (Inr EXHAUSTED, s\<lparr>rs_faults := replicate (k - (m - a + 1)) True @ False # fs,
            ds_sleeps := ds_sleeps s @ backoff delay (m - a), rs_redis := slept (backoff delay (m - a)) (rs_redis s)\<rparr>))"
  using assms
proof (induction k arbitrary: s a attempts delay)
  case 0
  then show ?case
    by (simp add: upt_conv_Cons emit_raw_def produce_def eff_defs backoff_def slept_def del: upt_Suc)
next
  case (Suc k)
  have atts: "attempts = a # [Suc a..<Suc m]" using Suc.prems by (simp add: upt_conv_Cons del: upt_Suc)
  let ?s1 = "s\<lparr>rs_faults := replicate k True @ False # fs\<rparr>"
  have fail: "emit_raw (JStr t) (JStr v) s = (Inl ProduceError, ?s1)"
    using Suc.prems(1) by (simp add: emit_raw_def produce_def)
  show ?case
  proof (cases "m = a")
    case True
    then show ?thesis
      by (simp add: atts catch_def ebind_def fail ret_def backoff_def slept_def)
  next
    case False
    let ?s2 = "?s1\<lparr>ds_sleeps := ds_sleeps s @ [delay], rs_redis := r_wait \<lfloor>delay * 1000\<rfloor> (rs_redis s)\<rparr>"
    have "attempt_loop m (JStr t) (JStr v) attempts delay s =
        attempt_loop m (JStr t) (JStr v) [Suc a..<Suc m] (fmul delay 2) ?s2"
      using False Suc.prems(4)
      by (simp add: atts catch_def ebind_def fail sleep_def modify_def del: upt_Suc)
    also note Suc.IH [of ?s2 "[Suc a..<Suc m]" "Suc a" "fmul delay 2"]
    finally show ?thesis
      using False Suc.prems
      by (auto simp: backoff_Suc slept_def Suc_diff_le simp flip: Suc_diff_Suc)
  qed
qed

lemma rd_store_slept [simp]: "rd_store (slept ds r) = rd_store r"
  unfolding slept_def by (induction ds arbitrary: r) (simp_all add: r_wait_def)

lemma r_live_store: "r_live k r = None \<or> r_live k r = dget (rd_store r) k"
  by (simp add: r_live_def)

lemma release_lock_live:
  assumes "dget (rd_store r) (lk_key lock) = Some token" "lk_token lock = Some token"
  shows "r_live (lk_key lock) (snd (release lock r)) = None"
  using r_live_store [of "lk_key lock" r] assms by (auto simp: release_live)

lemma acquire_cases:
  "acquire tok (new_lock key ttl) r =
     (if r_live key r = None then (True, (new_lock key ttl)\<lparr>lk_token := Some tok\<rparr>, lock_taken key tok ttl r)
      else (False, new_lock key ttl, snd (r_expired key r)))"
proof (cases "r_live key r")
  case None
  then show ?thesis by (simp add: acquire_free)
next
  case (Some v)
  then show ?thesis by (simp add: acquire_def new_lock_def r_set_simp Let_def)
qed

text \<open>
  C19. Replaying a dead letter whose retry lock is free re-injects its payload on its original
  topic as soon as one of the first \<open>max_attempts\<close> tries is accepted, exactly once and
  without a key, sleeping between tries with doubled delays, and reports exhaustion
  otherwise; in both cases the lock is free again afterwards. While another worker holds
  the lock nothing is emitted, nothing is slept and the holder's lock is untouched.
\<close>

theorem replay_record_outcome:
  assumes "jget d ''original_topic'' = JStr t" "t \<noteq> []" "t \<noteq> FIRMWARE_DLQ"
    and "get_or_empty d ''payload'' = JStr v" "job_id_of E d = Inr job"
    and "rs_faults s = replicate k True @ False # fs" "1 \<le> rc_max_attempts cfg"
  shows "\<exists>s'. replay_record E rep uuid cfg d s =
      (Inr (if r_live (retry_lock rep job) (rs_redis s) \<noteq> None then BLOCKED
            else if k < rc_max_attempts cfg then RETRIED else EXHAUSTED), s') \<and>
    rs_log s' = rs_log s @
      (if r_live (retry_lock rep job) (rs_redis s) = None \<and> k < rc_max_attempts cfg
       then [\<lparr>km_topic = t, km_key = None, km_value = Some v\<rparr>] else []) \<and>
    ds_sleeps s' = ds_sleeps s @
      (if r_live (retry_lock rep job) (rs_redis s) = None
       then backoff (rc_base_delay cfg) (min k (rc_max_attempts cfg - 1)) else []) \<and>
    r_live (retry_lock rep job) (rs_redis s') = r_live (retry_lock rep job) (rs_redis s)"
proof (cases "r_live (retry_lock rep job) (rs_redis s)")
  case (Some holder)
  then show ?thesis
    using assms(1-5)
    by (simp add: replay_record_def eff_defs acquire_cases)
next
  case None
  define m where "m = rc_max_attempts cfg"
  define tok where "tok = uuid (ds_uuids s)"
  define lock where "lock = (new_lock (retry_lock rep job) (rc_lock_ttl_ms cfg))\<lparr>lk_token := Some tok\<rparr>"
  define r1 where "r1 = lock_taken (retry_lock rep job) tok (rc_lock_ttl_ms cfg) (rs_redis s)"
  define s1 where "s1 = s\<lparr>rs_redis := r1, ds_uuids := ds_uuids s + 1\<rparr>"
  have lk: "lk_key lock = retry_lock rep job" "lk_token lock = Some tok" by (simp_all add: lock_def new_lock_def)
  have st: "dget (rd_store r1) (retry_lock rep job) = Some tok" by (simp add: r1_def lock_taken_def Let_def)
  have run: "replay_record E rep uuid cfg d s =
      finally_do (attempt_loop m (JStr t) (JStr v) [1..<m + 1] (rc_base_delay cfg)) (release_lock lock) s1"
    using assms(1-5) None
    by (simp add: replay_record_def eff_defs acquire_cases m_def tok_def lock_def r1_def s1_def)
  have f1: "rs_faults s1 = replicate k True @ False # fs" using assms(6) by (simp add: s1_def)
  note loop = attempt_loop_run [OF f1 refl, of 1 m t v "rc_base_delay cfg"]
  have free: "r_live (retry_lock rep job) (snd (release lock (slept ds r1))) = None" for ds
    using release_lock_live [of "slept ds r1" lock tok] st lk by simp
  have "min k (m - Suc 0) = (if Suc k \<le> m then k else m - Suc 0)" using assms(7) unfolding m_def by (cases "Suc k \<le> rc_max_attempts cfg") auto
  then show ?thesis
    using None loop assms(7) free
    by (simp add: run finally_do_def release_lock_def modify_def s1_def flip: m_def del: upt_Suc)
qed

text \<open>
  With the default configuration the delays add up to 7.5 seconds, well inside the 30
  seconds of the lock.
\<close>

lemma default_backoff_within_ttl:
  "sum_list (backoff (rc_base_delay default_replay_config) (rc_max_attempts default_replay_config - 1)) * 1000
     < of_int (rc_lock_ttl_ms default_replay_config)"
  by code_simp

definition sample_dlq_state :: dlq_state where
  "sample_dlq_state =
     \<lparr>rs_redis = redis_empty, rs_log = [], rs_faults = [True, False], ds_sleeps = [], ds_uuids = 0\<rparr>"

definition sample_dead_letter :: payload where
  "sample_dead_letter = [(''original_topic'', JStr FIRMWARE_UPLOADED), (''payload'', JStr ''x'')]"

theorem replay_record_outcome_witness:
  "\<exists>s'. replay_record (sample_env\<lparr>e_loads := \<lambda>_. Inl (ValueError [])\<rparr>) (\<lambda>_. []) nat_str default_replay_config
      sample_dead_letter sample_dlq_state = (Inr RETRIED, s') \<and>
    rs_log s' = [\<lparr>km_topic = FIRMWARE_UPLOADED, km_key = None, km_value = Some ''x''\<rparr>] \<and>
    ds_sleeps s' = [flit 1 2]"
proof -
  let ?E = "sample_env\<lparr>e_loads := \<lambda>_. Inl (ValueError [])\<rparr>"
  have d: "jget sample_dead_letter ''original_topic'' = JStr FIRMWARE_UPLOADED" "FIRMWARE_UPLOADED \<noteq> []"
    "FIRMWARE_UPLOADED \<noteq> FIRMWARE_DLQ" "get_or_empty sample_dead_letter ''payload'' = JStr ''x''"
    by (simp_all add: sample_dead_letter_def jget_def topic_defs get_or_empty_def)
  have j: "job_id_of ?E sample_dead_letter = Inr (JStr ''unknown'')"
    by (simp add: job_id_of_def d(4))
  have f: "rs_faults sample_dlq_state = replicate 1 True @ False # []" by (simp add: sample_dlq_state_def)
  have m: "1 \<le> rc_max_attempts default_replay_config" "rc_max_attempts default_replay_config = 5"
    by (simp_all add: default_replay_config_def)
  have free: "r_live (retry_lock (\<lambda>_. []) (JStr ''unknown'')) (rs_redis sample_dlq_state) = None"
    by (simp add: sample_dlq_state_def r_live_def r_overdue_iff redis_empty_def)
  have b: "backoff (rc_base_delay default_replay_config) 1 = [flit 1 2]"
    by (simp add: backoff_def default_replay_config_def)
  show ?thesis
    using replay_record_outcome [OF d j f m(1), of "\<lambda>_. []" nat_str] free m(2) b
    by (auto simp: sample_dlq_state_def)
qed

end
