(* ===== verification/FeedbackLoop.thy ===== *)
theory FeedbackLoop
  imports CveConfig
begin

text \<open>
  Analyst feedback (\<open>services/cve_matching/feedback.py\<close>) and the recalibration of the
  per-family thresholds (\<open>services/integration/feedback_loop.py\<close>). The lemmas show that
  recalibration counts decided verdicts per family, never installs an invalid threshold
  triple, moves thresholds in the announced direction, and is idempotent.
\<close>

section \<open>feedback.py\<close>

definition VERDICTS :: "string list" where
  "VERDICTS = [''confirmed'', ''false_positive'', ''needs_review'']"

record feedback =
  fb_job_id :: string
  fb_cve_id :: string
  fb_verdict :: string
  fb_submitted_by :: string
  fb_feedback_id :: string
  fb_submitted_at :: string

definition prepare_feedback :: "string \<Rightarrow> string \<Rightarrow> feedback \<Rightarrow> feedback result" where
  "prepare_feedback uuid now fb =
     (if fb_verdict fb \<notin> set VERDICTS then Inl (ValueError ''invalid verdict'')
      else
        let fb = (if fb_feedback_id fb = [] then fb\<lparr>fb_feedback_id := uuid\<rparr> else fb);
            fb = (if fb_submitted_at fb = [] then fb\<lparr>fb_submitted_at := now\<rparr> else fb)
        in Inr fb)"

definition submit_feedback :: "string \<Rightarrow> string \<Rightarrow> feedback \<Rightarrow> (feedback list, string) eff" where
  "submit_feedback uuid now fb rows =
     (case prepare_feedback uuid now fb of
        Inl e \<Rightarrow> (Inl e, rows)
      | Inr fb \<Rightarrow> (Inr (fb_feedback_id fb), rows @ [fb]))"

definition list_for_job :: "string \<Rightarrow> feedback list \<Rightarrow> feedback list" where
  "list_for_job job_id rows = filter (\<lambda>f. fb_job_id f = job_id) rows"

section \<open>feedback_loop.py\<close>

definition DECIDED :: "string list" where "DECIDED = [''confirmed'', ''false_positive'']"

definition FP_RATE_STRICTEN :: pyfloat where "FP_RATE_STRICTEN = flit 1 2"
definition FP_RATE_LOOSEN :: pyfloat where "FP_RATE_LOOSEN = flit 1 10"
definition STRICTEN_DELTA :: pyfloat where "STRICTEN_DELTA = flit 5 100"
definition LOOSEN_DELTA :: pyfloat where "LOOSEN_DELTA = flit 3 100"
definition MIN_SAMPLES :: nat where "MIN_SAMPLES = 1"

record family_stats =
  fs_confirmed :: nat
  fs_false_positive :: nat

definition decided :: "family_stats \<Rightarrow> nat" where
  "decided s = fs_confirmed s + fs_false_positive s"

definition fp_rate :: "family_stats \<Rightarrow> pyfloat" where
  "fp_rate s = (if decided s \<noteq> 0 then fdiv (of_nat (fs_false_positive s)) (of_nat (decided s)) else 0)"

definition clamp_unit :: "pyfloat \<Rightarrow> pyfloat" where
  "clamp_unit x = min (max x 0) 1"

definition valid_thresholds :: "pyfloat \<Rightarrow> pyfloat \<Rightarrow> pyfloat \<Rightarrow> threshold_config result" where
  "valid_thresholds high possible low =
     (let high = clamp_unit high; possible = clamp_unit possible; low = clamp_unit low;
          possible = min possible high; low = min low possible
      in ThresholdConfig high possible low)"

definition adjust_for_fp_rate :: "threshold_config \<Rightarrow> pyfloat \<Rightarrow> threshold_config result" where
  "adjust_for_fp_rate base rate =
     (if FP_RATE_STRICTEN \<le> rate
      then let d = STRICTEN_DELTA
           in valid_thresholds (fadd (th_high base) d) (fadd (th_possible base) d) (fadd (th_low base) d)
      else if rate \<le> FP_RATE_LOOSEN
      then let d = LOOSEN_DELTA
           in valid_thresholds (fsub (th_high base) d) (fsub (th_possible base) d) (fsub (th_low base) d)
      else Inr base)"

definition tally_verdict ::
  "(string \<Rightarrow> string option) \<Rightarrow> (string, family_stats) dict \<Rightarrow> feedback \<Rightarrow> (string, family_stats) dict" where
  "tally_verdict resolver stats row =
     (if fb_verdict row \<notin> set DECIDED then stats
      else
        (case resolver (fb_cve_id row) of
           None \<Rightarrow> stats
         | Some family \<Rightarrow>
             if family = [] then stats
             else
               let s = (case dget stats family of
                          None \<Rightarrow> \<lparr>fs_confirmed = 0, fs_false_positive = 0\<rparr> | Some s \<Rightarrow> s)
               in dset family
                    (if fb_verdict row = ''confirmed'' then s\<lparr>fs_confirmed := fs_confirmed s + 1\<rparr>
                     else s\<lparr>fs_false_positive := fs_false_positive s + 1\<rparr>) stats))"

definition aggregate_feedback ::
  "feedback list \<Rightarrow> (string \<Rightarrow> string option) \<Rightarrow> (string, family_stats) dict" where
  "aggregate_feedback rows resolver = foldl (tally_verdict resolver) [] rows"

text \<open>The loop over the families, with the installed overrides and the changes so far.\<close>

fun recalibrate_loop ::
  "threshold_config \<Rightarrow> nat \<Rightarrow> bool \<Rightarrow> (string \<times> family_stats) list \<Rightarrow> family_thresholds \<Rightarrow>
   family_thresholds \<Rightarrow> family_thresholds result \<times> family_thresholds" where
  "recalibrate_loop base min_samples install [] updated T = (Inr updated, T)"
| "recalibrate_loop base min_samples install ((family, s) # rest) updated T =
     (if decided s < min_samples then recalibrate_loop base min_samples install rest updated T
      else
        (case adjust_for_fp_rate base (fp_rate s) of
           Inl e \<Rightarrow> (Inl e, T)
         | Inr new_cfg \<Rightarrow>
             if new_cfg = base then recalibrate_loop base min_samples install rest updated T
             else recalibrate_loop base min_samples install rest (dset family new_cfg updated)
                    (if install then set_family_thresholds family new_cfg T else T)))"

definition recalibrate ::
  "feedback list \<Rightarrow> (string \<Rightarrow> string option) \<Rightarrow> threshold_config \<Rightarrow> nat \<Rightarrow> bool \<Rightarrow>
   (family_thresholds, family_thresholds) eff" where
  "recalibrate rows resolver base min_samples install T =
     recalibrate_loop base min_samples install (aggregate_feedback rows resolver) [] T"

record threshold_row =
  tr_family :: string
  tr_config :: threshold_config
  tr_source :: string

definition current_thresholds :: "family_thresholds \<Rightarrow> threshold_row list" where
  "current_thresholds T =
     map (\<lambda>fam. case dget T (cf_name fam) of
                  Some override \<Rightarrow>
                    \<lparr>tr_family = cf_name fam, tr_config = override, tr_source = ''recalibrated''\<rparr>
                | None \<Rightarrow>
                    \<lparr>tr_family = cf_name fam, tr_config = DEFAULT_THRESHOLDS, tr_source = ''default''\<rparr>)
       COMPONENT_FAMILIES"

definition get_source :: "'f \<Rightarrow> 'f option \<Rightarrow> 'f" where
  "get_source pg override = (case override of None \<Rightarrow> pg | Some f \<Rightarrow> f)"

definition recalibrate_now ::
  "feedback list \<Rightarrow> (string \<Rightarrow> string option) \<Rightarrow> bool \<Rightarrow> (family_thresholds, family_thresholds) eff" where
  "recalibrate_now rows resolver install = recalibrate rows resolver DEFAULT_THRESHOLDS MIN_SAMPLES install"

section \<open>Verdict counts\<close>

definition stats_of :: "(string, family_stats) dict \<Rightarrow> string \<Rightarrow> nat \<times> nat" where
  "stats_of d f = (case dget d f of None \<Rightarrow> (0, 0) | Some s \<Rightarrow> (fs_confirmed s, fs_false_positive s))"

definition attributed :: "(string \<Rightarrow> string option) \<Rightarrow> string \<Rightarrow> feedback \<Rightarrow> bool" where
  "attributed resolver f r = (f \<noteq> [] \<and> resolver (fb_cve_id r) = Some f)"

lemma stats_of_dset: "stats_of (dset g s d) f = (if f = g then (fs_confirmed s, fs_false_positive s) else stats_of d f)"
  by (simp add: stats_of_def)

lemma tally_verdict_stats:
  "stats_of (tally_verdict resolver d r) f =
     (fst (stats_of d f) + (if attributed resolver f r \<and> fb_verdict r = ''confirmed'' then 1 else 0),
      snd (stats_of d f) + (if attributed resolver f r \<and> fb_verdict r = ''false_positive'' then 1 else 0))"
proof (cases "fb_verdict r \<in> set DECIDED \<and> (\<exists>g. attributed resolver g r)")
  case True
  then obtain g where g: "resolver (fb_cve_id r) = Some g" "g \<noteq> []" and v: "fb_verdict r \<in> set DECIDED"
    by (auto simp: attributed_def)
  have at: "attributed resolver f r = (f = g)" using g by (auto simp: attributed_def)
  from v have "fb_verdict r = ''confirmed'' \<or> fb_verdict r = ''false_positive''" by (simp add: DECIDED_def)
  then show ?thesis
    unfolding at
    by (elim disjE; cases "dget d g")
      (simp_all add: tally_verdict_def DECIDED_def g Let_def stats_of_dset, simp_all add: stats_of_def)
next
  case False
  then have "tally_verdict resolver d r = d"
    by (auto simp: tally_verdict_def attributed_def split: option.splits)
  then show ?thesis using False by (auto simp: DECIDED_def)
qed

lemma aggregate_counts:
  "stats_of (aggregate_feedback rows resolver) f =
     (length (filter (\<lambda>r. attributed resolver f r \<and> fb_verdict r = ''confirmed'') rows),
      length (filter (\<lambda>r. attributed resolver f r \<and> fb_verdict r = ''false_positive'') rows))"
proof (induction rows rule: rev_induct)
  case (snoc r rows)
  have "aggregate_feedback (rows @ [r]) resolver = tally_verdict resolver (aggregate_feedback rows resolver) r"
    by (simp add: aggregate_feedback_def)
  then show ?case using snoc by (simp add: tally_verdict_stats)
qed (simp add: aggregate_feedback_def stats_of_def)

lemma distinct_aggregate: "distinct (dkeys (aggregate_feedback rows resolver))"
proof -
  have "distinct (dkeys d) \<Longrightarrow> distinct (dkeys (tally_verdict resolver d r))" for d r
    by (auto simp: tally_verdict_def Let_def distinct_update split: option.splits)
  then have "distinct (dkeys d) \<Longrightarrow> distinct (dkeys (foldl (tally_verdict resolver) d rows))" for d
    by (induction rows arbitrary: d) simp_all
  then show ?thesis by (simp add: aggregate_feedback_def)
qed

section \<open>Adjusted thresholds\<close>

lemma clamp_unit_mono: "x \<le> y \<Longrightarrow> clamp_unit x \<le> clamp_unit y"
  unfolding clamp_unit_def by (intro min.mono max.mono order_refl)

lemma clamp_unit_id: "0 \<le> x \<Longrightarrow> x \<le> 1 \<Longrightarrow> clamp_unit x = x"
  by (simp add: clamp_unit_def)

lemma clamp_unit_bounds: "0 \<le> clamp_unit x" "clamp_unit x \<le> 1"
  by (simp_all add: clamp_unit_def)

definition squeezed :: "pyfloat \<Rightarrow> pyfloat \<Rightarrow> pyfloat \<Rightarrow> threshold_config" where
  "squeezed h p l =
     \<lparr>th_high = clamp_unit h, th_possible = min (clamp_unit p) (clamp_unit h),
      th_low = min (clamp_unit l) (min (clamp_unit p) (clamp_unit h))\<rparr>"

lemma squeezed_valid: "thresholds_valid (squeezed h p l)"
  by (simp add: thresholds_valid_def squeezed_def clamp_unit_bounds min.coboundedI2)

lemma valid_thresholds_eq: "valid_thresholds h p l = Inr (squeezed h p l)"
  using squeezed_valid [of h p l] by (simp add: valid_thresholds_def Let_def squeezed_def)

lemma squeezed_mono:
  assumes "h \<le> h'" "p \<le> p'" "l \<le> l'"
  shows "th_high (squeezed h p l) \<le> th_high (squeezed h' p' l') \<and>
    th_possible (squeezed h p l) \<le> th_possible (squeezed h' p' l') \<and>
    th_low (squeezed h p l) \<le> th_low (squeezed h' p' l')"
  using assms by (simp add: squeezed_def clamp_unit_mono min.coboundedI1 min.coboundedI2)

lemma squeezed_id: "thresholds_valid t \<Longrightarrow> squeezed (th_high t) (th_possible t) (th_low t) = t"
  by (simp add: squeezed_def thresholds_valid_def clamp_unit_id min_absorb1)

lemma adjust_valid:
  "thresholds_valid base \<Longrightarrow> \<exists>t. adjust_for_fp_rate base rate = Inr t \<and> thresholds_valid t"
  by (simp add: adjust_for_fp_rate_def Let_def valid_thresholds_eq squeezed_valid)

text \<open>Thresholds are binary64 values: rounding leaves them alone.\<close>

definition representable :: "threshold_config \<Rightarrow> bool" where
  "representable t \<longleftrightarrow> fl (th_high t) = th_high t \<and> fl (th_possible t) = th_possible t \<and> fl (th_low t) = th_low t"

lemma fadd_ge: "fl x = x \<Longrightarrow> 0 \<le> d \<Longrightarrow> x \<le> fadd x d"
  unfolding fadd_def using fl_mono [of x "x + d"] by simp

lemma fsub_le: "fl x = x \<Longrightarrow> 0 \<le> d \<Longrightarrow> fsub x d \<le> x"
  unfolding fsub_def using fl_mono [of "x - d" x] by simp

lemma deltas_nonneg: "0 \<le> STRICTEN_DELTA" "0 \<le> LOOSEN_DELTA"
  by (simp_all add: STRICTEN_DELTA_def LOOSEN_DELTA_def flit_def)

lemma adjust_direction:
  assumes "thresholds_valid base" "representable base" "adjust_for_fp_rate base rate = Inr t"
  shows "FP_RATE_STRICTEN \<le> rate \<Longrightarrow>
      th_high base \<le> th_high t \<and> th_possible base \<le> th_possible t \<and> th_low base \<le> th_low t"
    and "rate \<le> FP_RATE_LOOSEN \<Longrightarrow> \<not> FP_RATE_STRICTEN \<le> rate \<Longrightarrow>
      th_high t \<le> th_high base \<and> th_possible t \<le> th_possible base \<and> th_low t \<le> th_low base"
proof -
  let ?d = STRICTEN_DELTA and ?e = LOOSEN_DELTA
  note id = squeezed_id [OF assms(1)]
  have up: "th_high base \<le> fadd (th_high base) ?d" "th_possible base \<le> fadd (th_possible base) ?d"
    "th_low base \<le> fadd (th_low base) ?d"
    using assms(2) deltas_nonneg by (simp_all add: representable_def fadd_ge)
  show "th_high base \<le> th_high t \<and> th_possible base \<le> th_possible t \<and> th_low base \<le> th_low t"
    if "FP_RATE_STRICTEN \<le> rate"
    using squeezed_mono [OF up] assms(3) that
    by (simp add: adjust_for_fp_rate_def Let_def valid_thresholds_eq id)
  have down: "fsub (th_high base) ?e \<le> th_high base" "fsub (th_possible base) ?e \<le> th_possible base"
    "fsub (th_low base) ?e \<le> th_low base"
    using assms(2) deltas_nonneg by (simp_all add: representable_def fsub_le)
  show "th_high t \<le> th_high base \<and> th_possible t \<le> th_possible base \<and> th_low t \<le> th_low base"
    if "rate \<le> FP_RATE_LOOSEN" "\<not> FP_RATE_STRICTEN \<le> rate"
    using squeezed_mono [OF down] assms(3) that
    by (simp add: adjust_for_fp_rate_def Let_def valid_thresholds_eq id)
qed

section \<open>Recalibration\<close>

definition pointwise_le :: "threshold_config \<Rightarrow> threshold_config \<Rightarrow> bool" where
  "pointwise_le s t \<longleftrightarrow> th_high s \<le> th_high t \<and> th_possible s \<le> th_possible t \<and> th_low s \<le> th_low t"

text \<open>The override that the statistics of a family call for, if any.\<close>

definition override_for :: "threshold_config \<Rightarrow> nat \<Rightarrow> family_stats option \<Rightarrow> threshold_config option" where
  "override_for base n s =
     (case s of
        None \<Rightarrow> None
      | Some s \<Rightarrow>
          if decided s < n then None
          else (case adjust_for_fp_rate base (fp_rate s) of
                  Inl _ \<Rightarrow> None
                | Inr t \<Rightarrow> if t = base then None else Some t))"

definition or_else :: "'a option \<Rightarrow> 'a option \<Rightarrow> 'a option" where
  "or_else x y = (case x of None \<Rightarrow> y | Some _ \<Rightarrow> x)"

lemma recalibrate_loop_result:
  assumes "thresholds_valid base" "distinct (dkeys stats)"
  shows "\<exists>upd T'. recalibrate_loop base n install stats upd0 T = (Inr upd, T') \<and>
    (\<forall>f. dget upd f = or_else (override_for base n (dget stats f)) (dget upd0 f)) \<and>
    (\<forall>f. dget T' f = (if install then or_else (override_for base n (dget stats f)) (dget T f) else dget T f))"
  using assms(2)
proof (induction stats arbitrary: upd0 T)
  case Nil
  then show ?case by (simp add: override_for_def or_else_def)
next
  case (Cons e stats)
  obtain g s where e: "e = (g, s)" by (cases e)
  obtain t where t: "adjust_for_fp_rate base (fp_rate s) = Inr t" using adjust_valid [OF assms(1)] by blast
  have d: "distinct (dkeys stats)" and g: "dget stats g = None"
    using Cons.prems by (auto simp: e map_of_eq_None_iff)
  show ?case
  proof (cases "decided s < n \<or> t = base")
    case True
    with t have skip: "recalibrate_loop base n install (e # stats) upd0 T = recalibrate_loop base n install stats upd0 T"
      by (auto simp: e)
    have none: "override_for base n (Some s) = None" using True t by (auto simp: override_for_def)
    have same: "override_for base n (dget (e # stats) f) = override_for base n (dget stats f)" for f
      using none g by (simp add: e override_for_def)
    show ?thesis unfolding skip same by (rule Cons.IH [OF d])
  next
    case False
    let ?T = "if install then set_family_thresholds g t T else T"
    have step: "recalibrate_loop base n install (e # stats) upd0 T =
        recalibrate_loop base n install stats (dset g t upd0) ?T"
      using False t by (simp add: e)
    have some: "override_for base n (Some s) = Some t" using False t by (simp add: override_for_def)
    have none: "override_for base n None = None" by (simp add: override_for_def)
    from Cons.IH [OF d, of "dset g t upd0" ?T] obtain upd T' where
      r: "recalibrate_loop base n install stats (dset g t upd0) ?T = (Inr upd, T')"
        "\<And>f. dget upd f = or_else (override_for base n (dget stats f)) (dget (dset g t upd0) f)"
        "\<And>f. dget T' f = (if install then or_else (override_for base n (dget stats f)) (dget ?T f) else dget ?T f)"
      by blast
    show ?thesis
      unfolding step
      by (rule exI [of _ upd], rule exI [of _ T'])
        (simp add: r e some none g or_else_def set_family_thresholds_def)
  qed
qed

definition false_positive_rate :: "(string \<Rightarrow> string option) \<Rightarrow> feedback list \<Rightarrow> string \<Rightarrow> pyfloat" where
  "false_positive_rate resolver rows f =
     (let p = length (filter (\<lambda>r. attributed resolver f r \<and> fb_verdict r = ''false_positive'') rows);
          c = length (filter (\<lambda>r. attributed resolver f r \<and> fb_verdict r = ''confirmed'') rows)
      in if c + p \<noteq> 0 then fdiv (of_nat p) (of_nat (c + p)) else 0)"

lemma override_direction:
  assumes "thresholds_valid base" "representable base"
    and "override_for base n (dget (aggregate_feedback rows resolver) f) = Some t"
  shows "thresholds_valid t \<and>
    (FP_RATE_STRICTEN \<le> false_positive_rate resolver rows f \<and> pointwise_le base t \<or>
     false_positive_rate resolver rows f \<le> FP_RATE_LOOSEN \<and> pointwise_le t base)"
proof -
  from assms(3) obtain s where s: "dget (aggregate_feedback rows resolver) f = Some s"
    and t: "adjust_for_fp_rate base (fp_rate s) = Inr t" "t \<noteq> base"
    by (auto simp: override_for_def split: option.splits if_splits sum.splits)
  have rate: "fp_rate s = false_positive_rate resolver rows f"
    using aggregate_counts [of rows resolver f] s
    by (simp add: stats_of_def fp_rate_def decided_def false_positive_rate_def Let_def)
  have v: "thresholds_valid t" using adjust_valid [OF assms(1), of "fp_rate s"] t by auto
  have "FP_RATE_STRICTEN \<le> fp_rate s \<or> fp_rate s \<le> FP_RATE_LOOSEN"
    using t by (auto simp: adjust_for_fp_rate_def split: if_splits)
  then show ?thesis
    using v adjust_direction [OF assms(1,2) t(1)] unfolding rate pointwise_le_def
    by (cases "FP_RATE_STRICTEN \<le> false_positive_rate resolver rows f") auto
qed

text \<open>
  C20. Recalibrating from any feedback never fails and keeps every installed threshold triple
  ordered within [0, 1]: a family is overridden only when at least half of its decided
  verdicts are false positives, and then upwards, or at most a tenth are, and then
  downwards; families without a change keep what was installed; and running it again on the
  same feedback changes nothing.
\<close>

theorem recalibrate_sound:
  assumes "thresholds_valid base" "representable base" "overrides_ok T"
  shows "\<exists>upd T'. recalibrate rows resolver base n True T = (Inr upd, T') \<and> overrides_ok T' \<and>
    (\<forall>f. dget T' f = or_else (dget upd f) (dget T f)) \<and>
    (\<forall>f t. dget upd f = Some t \<longrightarrow>
       FP_RATE_STRICTEN \<le> false_positive_rate resolver rows f \<and> pointwise_le base t \<or>
       false_positive_rate resolver rows f \<le> FP_RATE_LOOSEN \<and> pointwise_le t base) \<and>
    (\<exists>upd' T''. recalibrate rows resolver base n True T' = (Inr upd', T'') \<and> dget upd' = dget upd \<and> dget T'' = dget T')"
proof -
  let ?o = "\<lambda>f. override_for base n (dget (aggregate_feedback rows resolver) f)"
  have run: "\<exists>upd T'. recalibrate rows resolver base n True T = (Inr upd, T') \<and>
      (\<forall>f. dget upd f = ?o f) \<and> (\<forall>f. dget T' f = or_else (?o f) (dget T f))" for T
  proof -
    have e: "or_else x None = x" for x :: "threshold_config option" by (simp add: or_else_def split: option.split)
    from recalibrate_loop_result [OF assms(1) distinct_aggregate, of n True rows resolver "[]" T]
    show ?thesis by (simp add: recalibrate_def e)
  qed
  from run [of T] obtain upd T' where r: "recalibrate rows resolver base n True T = (Inr upd, T')"
    and u: "\<And>f. dget upd f = ?o f" and T': "\<And>f. dget T' f = or_else (?o f) (dget T f)" by blast
  from run [of T'] obtain upd' T'' where r': "recalibrate rows resolver base n True T' = (Inr upd', T'')"
    and u': "\<And>f. dget upd' f = ?o f" and T'': "\<And>f. dget T'' f = or_else (?o f) (dget T' f)" by blast
  note dir = override_direction [OF assms(1,2)]
  have "thresholds_valid t" if "dget T' f = Some t" for f t
    using that dir [of n rows resolver f] assms(3) by (auto simp: T' or_else_def overrides_ok_def split: option.splits)
  then have "overrides_ok T'" by (simp add: overrides_ok_def)
  moreover have "dget upd' = dget upd" by (rule ext) (simp add: u u')
  moreover have "dget T'' = dget T'" by (rule ext) (simp add: T'' T' or_else_def split: option.split)
  ultimately show ?thesis using r r' u T' dir by (auto intro!: exI [of _ upd] exI [of _ T'])
qed

lemma default_representable: "representable DEFAULT_THRESHOLDS"
  by code_simp

definition sample_feedback :: "feedback list" where
  "sample_feedback =
     [\<lparr>fb_job_id = ''j'', fb_cve_id = ''CVE-1'', fb_verdict = ''false_positive'', fb_submitted_by = ''a'',
       fb_feedback_id = ''1'', fb_submitted_at = ''t''\<rparr>]"

theorem recalibrate_sound_witness:
  "\<exists>upd T'. recalibrate sample_feedback (\<lambda>_. Some ''busybox'') DEFAULT_THRESHOLDS 1 True [] = (Inr upd, T') \<and>
     overrides_ok T' \<and> (\<forall>f. dget T' f = or_else (dget upd f) (dget [] f))"
  using recalibrate_sound [OF default_thresholds_valid default_representable overrides_ok_empty,
      of sample_feedback "\<lambda>_. Some ''busybox''" 1] by blast

text \<open>
  An override outlives the feedback that called for it: once the false-positive rate is
  back in the middle band the family keeps its old override instead of the defaults.
\<close>

lemma recalibrate_keeps_stale:
  assumes "thresholds_valid base" "FP_RATE_LOOSEN < false_positive_rate resolver rows f"
    "false_positive_rate resolver rows f < FP_RATE_STRICTEN"
  shows "\<exists>upd T'. recalibrate rows resolver base n True T = (Inr upd, T') \<and> dget T' f = dget T f"
proof -
  have "override_for base n (dget (aggregate_feedback rows resolver) f) = None"
  proof (cases "dget (aggregate_feedback rows resolver) f")
    case (Some s)
    have "fp_rate s = false_positive_rate resolver rows f"
      using aggregate_counts [of rows resolver f] Some
      by (simp add: stats_of_def fp_rate_def decided_def false_positive_rate_def Let_def)
    then show ?thesis using assms(2,3) Some by (simp add: override_for_def adjust_for_fp_rate_def)
  qed (simp add: override_for_def)
  then show ?thesis
    using recalibrate_loop_result [OF assms(1) distinct_aggregate, of n True rows resolver "[]" T]
    by (fastforce simp: recalibrate_def or_else_def)
qed

end
