(* ===== verification/Security.thy ===== *)
theory Security
  imports Contracts
begin

text \<open>
  Tokens and permissions (\<open>services/cve_matching/security.py\<close>): URL-safe base64 as Python's
  \<open>base64\<close> module reads and writes it, the HS256 JSON web token built on it, and the
  role table. The lemmas give the round trip of the base64 code and of a token, the exact
  set of tokens that are accepted, and what each role may do.
\<close>

section \<open>base64\<close>

text \<open>The URL-safe alphabet; the decoder also takes the two characters of the standard one,
  since \<open>urlsafe_b64decode\<close> translates only \<open>-\<close> and \<open>_\<close>.\<close>

definition b64_char :: "nat \<Rightarrow> char" where
  "b64_char n =
     (if n < 26 then char_of (65 + n) else if n < 52 then char_of (71 + n)
      else if n < 62 then char_of (n - 4) else if n = 62 then CHR ''-'' else CHR ''_'')"

definition b64_val :: "char \<Rightarrow> nat option" where
  "b64_val c =
     (if is_upper c then Some (ord c - 65) else if is_lower c then Some (ord c - 71)
      else if is_digit c then Some (ord c + 4)
      else if c = CHR ''-'' \<or> c = CHR ''+'' then Some 62
      else if c = CHR ''_'' \<or> c = CHR ''/'' then Some 63 else None)"

fun b64encode :: "string \<Rightarrow> string" where
  "b64encode [] = []"
| "b64encode [a] = [b64_char (ord a div 4), b64_char (ord a mod 4 * 16), CHR ''='', CHR ''='']"
| "b64encode [a, b] =
     [b64_char (ord a div 4), b64_char (ord a mod 4 * 16 + ord b div 16),
      b64_char (ord b mod 16 * 4), CHR ''='']"
| "b64encode (a # b # c # r) =
     b64_char (ord a div 4) # b64_char (ord a mod 4 * 16 + ord b div 16)
     # b64_char (ord b mod 16 * 4 + ord c div 64) # b64_char (ord c mod 64) # b64encode r"

text \<open>
  \<open>binascii.a2b_base64\<close> in its lenient mode: the position in the current group of four,
  the bits left over, the number of \<open>=\<close> seen. Characters outside the alphabet are skipped,
  and padding that completes a group ends the input.
\<close>

fun a2b :: "nat \<Rightarrow> nat \<Rightarrow> nat \<Rightarrow> string \<Rightarrow> string result" where
  "a2b quad left pads [] = (if quad = 0 then Inr [] else Inl (ValueError ''Incorrect padding''))"
| "a2b quad left pads (c # cs) =
     (if c = CHR ''='' then
        if 2 \<le> quad \<and> 4 \<le> quad + (pads + 1) then Inr []
        else a2b quad left (if 2 \<le> quad then pads + 1 else pads) cs
      else case b64_val c of
        None \<Rightarrow> a2b quad left pads cs
      | Some v \<Rightarrow>
          if quad = 0 then a2b 1 v 0 cs
          else if quad = 1 then
            rbind (a2b 2 (v mod 16) 0 cs) (\<lambda>r. Inr (char_of (left * 4 + v div 16) # r))
          else if quad = 2 then
            rbind (a2b 3 (v mod 4) 0 cs) (\<lambda>r. Inr (char_of (left * 16 + v div 4) # r))
          else rbind (a2b 0 0 0 cs) (\<lambda>r. Inr (char_of (left * 64 + v) # r)))"

definition b64url_decode :: "string \<Rightarrow> string result" where
  "b64url_decode segment =
     (let padded = segment @ replicate (nat ((- int (length segment)) mod 4)) (CHR ''='') in
      if list_ex (\<lambda>c. 128 \<le> ord c) padded then Inl (ValueError ''string argument should contain only ASCII characters'')
      else a2b 0 0 0 padded)"

definition b64url_encode :: "string \<Rightarrow> string" where
  "b64url_encode data = rstrip_char (CHR ''='') (b64encode data)"

section \<open>The round trip\<close>

lemma ord_b64_char:
  "n < 64 \<Longrightarrow> ord (b64_char n) =
     (if n < 26 then 65 + n else if n < 52 then 71 + n else if n < 62 then n - 4
      else if n = 62 then 45 else 95 :: nat)"
  by (simp add: b64_char_def)

lemma b64_char_facts [simp]:
  assumes "n < 64"
  shows "b64_val (b64_char n) = Some n" "b64_char n \<noteq> CHR ''=''" "ord (b64_char n) < (128 :: nat)"
    "b64_char n \<noteq> CHR ''.''"
proof -
  consider "n < 26" | "26 \<le> n" "n < 52" | "52 \<le> n" "n < 62" | "n = 62" | "n = 63"
    using assms by linarith
  then show "b64_val (b64_char n) = Some n"
  proof cases
    case 3
    then have "48 \<le> n - 4" "n - 4 \<le> 57" by linarith+
    with 3 show ?thesis by (simp add: b64_val_def is_upper_def is_lower_def is_digit_def ord_b64_char)
  qed (simp_all add: b64_val_def is_upper_def is_lower_def is_digit_def ord_b64_char,
      simp_all add: b64_char_def)
  show "ord (b64_char n) < (128 :: nat)" using assms by (auto simp: ord_b64_char)
  show "b64_char n \<noteq> CHR ''=''" "b64_char n \<noteq> CHR ''.''"
    using ord_b64_char [OF assms] by (auto split: if_splits)
qed

fun b64core :: "string \<Rightarrow> string" where
  "b64core [] = []"
| "b64core [a] = [b64_char (ord a div 4), b64_char (ord a mod 4 * 16)]"
| "b64core [a, b] =
     [b64_char (ord a div 4), b64_char (ord a mod 4 * 16 + ord b div 16), b64_char (ord b mod 16 * 4)]"
| "b64core (a # b # c # r) =
     b64_char (ord a div 4) # b64_char (ord a mod 4 * 16 + ord b div 16)
     # b64_char (ord b mod 16 * 4 + ord c div 64) # b64_char (ord c mod 64) # b64core r"

lemma ord_div [simp]:
  "ord c div 4 < (64 :: nat)" "ord c div 16 < (16 :: nat)" "ord c div 64 < (4 :: nat)"
  by (simp_all add: less_mult_imp_div_less)

lemma byte_parts [simp]:
  "ord a mod 4 * 16 < (64 :: nat)" "ord b mod 16 * 4 < (64 :: nat)"
  "ord a mod 4 * 16 + ord b div 16 < (64 :: nat)"
  "ord b mod 16 * 4 + ord c div 64 < (64 :: nat)" "ord c mod 64 < (64 :: nat)"
proof -
  have a: "ord a mod 4 < (4 :: nat)" and b: "ord b mod 16 < (16 :: nat)" by simp_all
  show "ord a mod 4 * 16 < (64 :: nat)" using a by linarith
  show "ord b mod 16 * 4 < (64 :: nat)" using b by linarith
  show "ord a mod 4 * 16 + ord b div 16 < (64 :: nat)" using a ord_div(2) [of b] by linarith
  show "ord b mod 16 * 4 + ord c div 64 < (64 :: nat)" using b ord_div(3) [of c] by linarith
  show "ord c mod 64 < (64 :: nat)" by simp
qed

lemma b64core_chars: "c \<in> set (b64core d) \<Longrightarrow> \<exists>n < 64. c = b64_char n"
  by (induction d rule: b64core.induct) (auto intro: byte_parts ord_div)

lemma b64core_safe:
  assumes "c \<in> set (b64core d)"
  shows "c \<noteq> CHR ''=''" "ord c < (128 :: nat)" "c \<noteq> CHR ''.''"
  using b64core_chars [OF assms] by auto

lemma rstrip_char_core:
  "c \<notin> set s \<Longrightarrow> rstrip_char c (s @ replicate k c) = s"
  by (cases s rule: rev_cases) (auto simp: rstrip_char_def dropWhile_append)

lemma b64encode_core: "\<exists>k. b64encode d = b64core d @ replicate k (CHR ''='')"
proof (induction d rule: b64core.induct)
  case 1 show ?case by (auto intro: exI [of _ 0])
next
  case (2 a) show ?case by (rule exI [of _ 2]) (simp add: numeral_2_eq_2)
next
  case (3 a b) show ?case by (rule exI [of _ 1]) simp
qed auto

lemma b64url_encode_core: "b64url_encode d = b64core d"
proof -
  obtain k where "b64encode d = b64core d @ replicate k (CHR ''='')" using b64encode_core by blast
  moreover have "CHR ''='' \<notin> set (b64core d)" using b64core_safe(1) by blast
  ultimately show ?thesis by (simp add: b64url_encode_def rstrip_char_core)
qed

lemma b64url_encode_no_dot: "CHR ''.'' \<notin> set (b64url_encode d)"
  using b64core_safe(3) by (auto simp: b64url_encode_core)

text \<open>Putting the bits of two groups together again.\<close>

lemma regroup [simp]:
  "ord b div 16 div 16 = (0 :: nat)" "ord c div 64 div 4 = (0 :: nat)"
  "ord b div 16 mod 16 = (ord b div 16 :: nat)" "ord c div 64 mod 4 = (ord c div 64 :: nat)"
  by (rule div_less mod_less, rule ord_div)+

lemma padding_step: "nat (- int (Suc (Suc (Suc (Suc n)))) mod 4) = nat (- int n mod 4)"
proof -
  have "- int (Suc (Suc (Suc (Suc n)))) = - int n + (- 1) * 4" by simp
  then have "- int (Suc (Suc (Suc (Suc n)))) mod 4 = - int n mod 4"
    by (simp only: mod_mult_self1)
  then show ?thesis by (rule arg_cong)
qed

lemma a2b_core:
  "a2b 0 l p (b64core d @ replicate (nat (- int (length (b64core d)) mod 4)) (CHR ''='')) = Inr d"
proof (induction d arbitrary: l p rule: b64core.induct)
  case (2 a)
  have "nat (- int (length (b64core [a])) mod 4) = 2" by simp
  then show ?case by (simp only: b64core.simps replicate_Suc numeral_2_eq_2) simp
next
  case (3 a b)
  have "nat (- int (length (b64core [a, b])) mod 4) = 1" by simp
  then show ?case by (simp only: b64core.simps replicate_Suc One_nat_def) simp
next
  case (4 a b c r)
  have "nat (- int (length (b64core (a # b # c # r))) mod 4) = nat (- int (length (b64core r)) mod 4)"
    by (simp only: b64core.simps list.size add_0_right add_Suc_right padding_step)
  with "4.IH" [of 0 0] show ?case
    by (simp only: b64core.simps append_Cons) simp
qed simp

lemma b64core_ascii: "\<not> list_ex (\<lambda>c. 128 \<le> (ord c :: nat)) (b64core d)"
  using b64core_safe(2) [of _ d] by (auto simp: list_ex_iff not_le [symmetric])

lemma b64url_roundtrip_eq: "b64url_decode (b64url_encode data) = Inr data"
proof -
  have "\<not> list_ex (\<lambda>c. 128 \<le> (ord c :: nat)) (b64core data @ replicate k (CHR ''=''))" for k
    using b64core_ascii [of data] by (auto simp: list_ex_iff)
  then show ?thesis
    by (simp add: b64url_encode_core b64url_decode_def Let_def a2b_core)
qed

text \<open>
  URL-safe base64 loses nothing: decoding what \<open>_b64url_encode\<close> produced, padding
  stripped, gives the encoded bytes back, and no encoding contains the dot that separates
  the parts of a token.
\<close>

theorem b64url_roundtrip:
  "b64url_decode (b64url_encode data) = Inr data \<and> CHR ''.'' \<notin> set (b64url_encode data)"
  by (simp add: b64url_roundtrip_eq b64url_encode_no_dot)

section \<open>Tokens\<close>

text \<open>
  What the token code takes from the standard library: \<open>json.loads\<close> of bytes (\<open>None\<close> where
  it raises), \<open>json.dumps\<close> with the compact separators, HMAC-SHA256, \<open>float\<close> of a string and
  the clock.
\<close>

record jwt_env =
  jw_loads :: "string \<Rightarrow> json option"
  jw_dumps :: "json \<Rightarrow> string"
  jw_hmac :: "string \<Rightarrow> string \<Rightarrow> string"
  jw_float :: "string \<Rightarrow> pyfloat option"
  jw_now :: pyfloat

definition jwt_header :: json where
  "jwt_header = JObj [(''alg'', JStr ''HS256''), (''typ'', JStr ''JWT'')]"

definition encode_jwt :: "jwt_env \<Rightarrow> payload \<Rightarrow> string \<Rightarrow> string \<Rightarrow> string result" where
  "encode_jwt W claims secret algorithm =
     (if algorithm \<noteq> ''HS256'' then Inl (ValueError ''only HS256 is supported'')
      else let header_b64 = b64url_encode (jw_dumps W jwt_header);
               payload_b64 = b64url_encode (jw_dumps W (JObj claims));
               signing_input = header_b64 @ ''.'' @ payload_b64;
               sig = jw_hmac W secret signing_input
           in Inr (header_b64 @ ''.'' @ payload_b64 @ ''.'' @ b64url_encode sig))"

text \<open>\<open>x.get(k)\<close> on a decoded value, which only a dictionary has.\<close>

fun get_attr :: "json \<Rightarrow> string \<Rightarrow> json result" where
  "get_attr (JObj d) k = Inr (jget d k)"
| "get_attr _ k = Inl (AttributeError ''get'')"

text \<open>\<open>float(x)\<close>; infinities and NaN are outside the model.\<close>

fun to_float :: "jwt_env \<Rightarrow> json \<Rightarrow> pyfloat result" where
  "to_float W (JBool b) = Inr (if b then 1 else 0)"
| "to_float W (JInt i) = Inr (fl (of_int i))"
| "to_float W (JFloat x) = Inr x"
| "to_float W (JStr s) =
     (case jw_float W s of None \<Rightarrow> Inl (ValueError ''could not convert string to float'') | Some x \<Rightarrow> Inr x)"
| "to_float W _ = Inl (TypeError ''float() argument'')"

definition loads_segment :: "jwt_env \<Rightarrow> string \<Rightarrow> json option" where
  "loads_segment W segment =
     (case b64url_decode segment of Inl e \<Rightarrow> None | Inr b \<Rightarrow> jw_loads W b)"

definition check_expiry :: "jwt_env \<Rightarrow> json \<Rightarrow> json result" where
  "check_expiry W claims =
     rbind (get_attr claims ''exp'') (\<lambda>exp.
       if exp = JNull then Inr claims
       else rbind (to_float W exp) (\<lambda>x.
         if x < jw_now W then Inl (AuthError ''token expired'') else Inr claims))"

definition decode_jwt :: "jwt_env \<Rightarrow> string \<Rightarrow> string \<Rightarrow> string list \<Rightarrow> json result" where
  "decode_jwt W token secret algorithms =
     (case split_on (CHR ''.'') token of
        [header_b64, payload_b64, sig_b64] \<Rightarrow>
          (case loads_segment W header_b64 of
             None \<Rightarrow> Inl (AuthError ''malformed header'')
           | Some header \<Rightarrow>
               rbind (get_attr header ''alg'') (\<lambda>alg.
                 if alg \<notin> JStr ` set algorithms then Inl (AuthError ''unexpected alg'')
                 else case b64url_decode sig_b64 of
                   Inl e \<Rightarrow> Inl (AuthError ''malformed signature'')
                 | Inr provided \<Rightarrow>
                     if jw_hmac W secret (header_b64 @ ''.'' @ payload_b64) \<noteq> provided
                     then Inl (AuthError ''bad signature'')
                     else case loads_segment W payload_b64 of
                       None \<Rightarrow> Inl (AuthError ''malformed payload'')
                     | Some claims \<Rightarrow> check_expiry W claims))
      | _ \<Rightarrow> Inl (AuthError ''malformed token''))"

text \<open>\<open>os.environ\<close> and \<open>os.getenv\<close>.\<close>

type_synonym environ = "(string, string) dict"

definition getenv :: "environ \<Rightarrow> string \<Rightarrow> string \<Rightarrow> string" where
  "getenv os k dflt = (case dget os k of None \<Rightarrow> dflt | Some v \<Rightarrow> v)"

definition jwt_secret :: "environ \<Rightarrow> string option" where
  "jwt_secret os = dget os ''JWT_SECRET''"

definition auth_enabled :: "environ \<Rightarrow> bool" where
  "auth_enabled os = (jwt_secret os \<noteq> None \<and> jwt_secret os \<noteq> Some [])"

definition verify_token :: "jwt_env \<Rightarrow> environ \<Rightarrow> string option \<Rightarrow> json result" where
  "verify_token W os token =
     (case jwt_secret os of
        None \<Rightarrow> Inl (AuthError ''JWT_SECRET not configured'')
      | Some secret \<Rightarrow>
          if secret = [] then Inl (AuthError ''JWT_SECRET not configured'')
          else case token of
            None \<Rightarrow> Inl (AuthError ''missing token'')
          | Some t \<Rightarrow>
              if t = [] then Inl (AuthError ''missing token'')
              else decode_jwt W t secret [getenv os ''JWT_ALGORITHM'' ''HS256''])"

section \<open>Roles\<close>

definition ROLES :: "string list" where
  "ROLES = [''admin'', ''analyst'', ''reader'']"

definition PERMISSIONS :: "(string, string list) dict" where
  "PERMISSIONS =
     [(''admin'', [''upload'', ''analyze'', ''view'', ''feedback'', ''manage_config'']),
      (''analyst'', [''upload'', ''analyze'', ''view'', ''feedback'']),
      (''reader'', [''view''])]"

definition role_of :: "json \<Rightarrow> string result" where
  "role_of claims =
     rbind (get_attr claims ''role'') (\<lambda>role.
       case role of
         JStr r \<Rightarrow> if r \<in> set ROLES then Inr r else Inl (AuthError ''invalid role'')
       | _ \<Rightarrow> Inl (AuthError ''invalid role''))"

definition has_permission :: "string \<Rightarrow> string \<Rightarrow> bool" where
  "has_permission role permission =
     (permission \<in> set (case dget PERMISSIONS role of None \<Rightarrow> [] | Some ps \<Rightarrow> ps))"

definition require_permission :: "json \<Rightarrow> string \<Rightarrow> string result" where
  "require_permission claims permission =
     rbind (role_of claims) (\<lambda>role.
       if has_permission role permission then Inr role else Inl (AuthError ''lacks permission''))"

section \<open>What is accepted\<close>

fun_cases get_attr_InrE: "get_attr j k = Inr v"

lemma get_attr_Inr: "get_attr j k = Inr v \<longleftrightarrow> (\<exists>d. j = JObj d \<and> v = jget d k)"
  by (cases j) auto

text \<open>A set of claims has not expired.\<close>

definition unexpired :: "jwt_env \<Rightarrow> payload \<Rightarrow> bool" where
  "unexpired W claims =
     (jget claims ''exp'' = JNull \<or>
      (case to_float W (jget claims ''exp'') of Inl e \<Rightarrow> False | Inr x \<Rightarrow> jw_now W \<le> x))"

lemma check_expiry_Inr:
  "check_expiry W j = Inr c \<longleftrightarrow> c = j \<and> (\<exists>d. j = JObj d \<and> unexpired W d)"
  by (cases j) (auto simp: check_expiry_def unexpired_def not_less split: sum.splits if_splits)

lemma split3: "split_on (CHR ''.'') t = [a, b, c] \<Longrightarrow> t = a @ ''.'' @ b @ ''.'' @ c"
  using join_split_on [of "CHR ''.''" t] by simp

lemma decode_jwt_accepts:
  "decode_jwt W token secret algorithms = Inr claims \<longleftrightarrow>
     (\<exists>h p s hdr d.
        split_on (CHR ''.'') token = [h, p, s] \<and>
        loads_segment W h = Some (JObj hdr) \<and> jget hdr ''alg'' \<in> JStr ` set algorithms \<and>
        b64url_decode s = Inr (jw_hmac W secret (h @ ''.'' @ p)) \<and>
        loads_segment W p = Some claims \<and> claims = JObj d \<and> unexpired W d)"
  (is "?l \<longleftrightarrow> ?r")
proof
  assume ?l
  then obtain h p s where "split_on (CHR ''.'') token = [h, p, s]"
    by (auto simp: decode_jwt_def split: list.splits)
  with \<open>?l\<close> show ?r
    by (auto simp: decode_jwt_def get_attr_Inr check_expiry_Inr split: option.splits sum.splits if_splits)
      (metis image_eqI)
next
  assume ?r
  then show ?l by (auto simp: decode_jwt_def check_expiry_Inr image_iff)
qed

lemma loads_segment_encode [simp]: "loads_segment W (b64url_encode b) = jw_loads W b"
  by (simp add: loads_segment_def b64url_roundtrip_eq)

lemma split_token:
  "split_on (CHR ''.'') (b64url_encode a @ ''.'' @ b64url_encode b @ ''.'' @ b64url_encode c) =
     [b64url_encode a, b64url_encode b, b64url_encode c]"
  by (simp add: split_on_append_sep split_on_no_sep b64url_encode_no_dot)

text \<open>
  C23. A token minted by \<open>encode_jwt\<close> for claims that have not expired is decoded to these
  claims by every secret that signs its signing input like the minting secret does, the
  minting secret itself in particular; any other secret answers \<open>bad signature\<close>.
\<close>

theorem jwt_roundtrip:
  assumes "jw_loads W (jw_dumps W jwt_header) = Some jwt_header"
    and "jw_loads W (jw_dumps W (JObj claims)) = Some (JObj claims)"
    and "unexpired W claims"
  shows "\<exists>token m. encode_jwt W claims secret ''HS256'' = Inr token \<and>
    (\<forall>k. decode_jwt W token k [''HS256''] =
       (if jw_hmac W k m = jw_hmac W secret m then Inr (JObj claims)
        else Inl (AuthError ''bad signature'')))"
proof -
  let ?h = "b64url_encode (jw_dumps W jwt_header)" and ?p = "b64url_encode (jw_dumps W (JObj claims))"
  let ?m = "?h @ ''.'' @ ?p"
  let ?t = "?h @ ''.'' @ ?p @ ''.'' @ b64url_encode (jw_hmac W secret ?m)"
  have hdr: "jw_loads W (jw_dumps W jwt_header) = Some (JObj [(''alg'', JStr ''HS256''), (''typ'', JStr ''JWT'')])"
    using assms(1) by (simp add: jwt_header_def)
  have ok: "check_expiry W (JObj claims) = Inr (JObj claims)"
    using assms(3) by (simp add: check_expiry_Inr)
  have "decode_jwt W ?t k [''HS256''] =
      (if jw_hmac W k ?m = jw_hmac W secret ?m then Inr (JObj claims)
       else Inl (AuthError ''bad signature''))" for k
    unfolding decode_jwt_def split_token
    by (simp add: hdr assms(2) ok b64url_roundtrip_eq jget_def)
  then show ?thesis
    by (intro exI [of _ ?t] exI [of _ ?m] conjI allI) (simp_all add: encode_jwt_def Let_def)
qed

definition sample_claims :: payload where
  "sample_claims = [(''sub'', JStr ''ana''), (''role'', JStr ''analyst''), (''exp'', JInt 9)]"

definition sample_jwt :: jwt_env where
  "sample_jwt = \<lparr>
     jw_loads = (\<lambda>s. if s = ''h'' then Some jwt_header else if s = ''c'' then Some (JObj sample_claims)
                      else if s = ''[]'' then Some (JList []) else None),
     jw_dumps = (\<lambda>j. if j = jwt_header then ''h'' else if j = JObj sample_claims then ''c'' else ''[]''),
     jw_hmac = (\<lambda>k m. k @ ''/'' @ m), jw_float = (\<lambda>s. None), jw_now = 5\<rparr>"

lemma fl_9: "fl 9 = 9"
  by code_simp

lemma sample_jwt_ok:
  "jw_loads sample_jwt (jw_dumps sample_jwt jwt_header) = Some jwt_header"
  "jw_loads sample_jwt (jw_dumps sample_jwt (JObj sample_claims)) = Some (JObj sample_claims)"
  "unexpired sample_jwt sample_claims"
  by (simp_all add: sample_jwt_def jwt_header_def sample_claims_def unexpired_def jget_def fl_9)

theorem jwt_roundtrip_witness:
  "\<exists>token m. encode_jwt sample_jwt sample_claims ''key'' ''HS256'' = Inr token \<and>
    (\<forall>k. decode_jwt sample_jwt token k [''HS256''] =
       (if jw_hmac sample_jwt k m = jw_hmac sample_jwt ''key'' m then Inr (JObj sample_claims)
        else Inl (AuthError ''bad signature'')))"
  by (rule jwt_roundtrip [OF sample_jwt_ok])

text \<open>
  The header is read before the signature is checked, and \<open>header.get\<close> is outside every
  \<open>try\<close>: an unsigned token whose header is JSON but not an object makes \<open>decode_jwt\<close>
  raise \<open>AttributeError\<close>, not the \<open>AuthError\<close> its callers turn into a 401.
\<close>

lemma decode_jwt_header_not_object:
  assumes "jw_loads W b = Some header" "\<And>d. header \<noteq> JObj d"
  shows "decode_jwt W (b64url_encode b @ ''.'' @ b64url_encode x @ ''.'' @ b64url_encode y) secret algorithms =
    Inl (AttributeError ''get'')"
  unfolding decode_jwt_def split_token using assms by (cases header) auto

text \<open>Past the header, the claims of a correctly signed token may still be no object, or carry
  an \<open>exp\<close> that is no number; every other refusal is an \<open>AuthError\<close>.\<close>

lemma decode_jwt_refusals:
  assumes "decode_jwt W token secret algorithms = Inl e"
  shows "(\<exists>m. e = AuthError m) \<or> e = AttributeError ''get'' \<or>
    e = ValueError ''could not convert string to float'' \<or> e = TypeError ''float() argument''"
proof -
  have attr: "e = AttributeError ''get''" if "get_attr j k = Inl e" for j k e
    using that by (cases j) auto
  have flt: "e = ValueError ''could not convert string to float'' \<or> e = TypeError ''float() argument''"
    if "to_float W j = Inl e" for j e
    using that by (cases j) (auto split: option.splits if_splits)
  have exp: "(\<exists>m. e = AuthError m) \<or> e = AttributeError ''get'' \<or>
      e = ValueError ''could not convert string to float'' \<or> e = TypeError ''float() argument''"
    if "check_expiry W j = Inl e" for j
    using that attr [of j "''exp''"] flt
    by (auto simp: check_expiry_def rbind_def split: sum.splits if_splits)
  show ?thesis
    using assms unfolding decode_jwt_def
    by (auto simp: rbind_def dest: attr exp split: list.splits option.splits sum.splits if_splits)
qed

section \<open>What a role may do\<close>

lemma role_of_Inr:
  "role_of c = Inr r \<longleftrightarrow> (\<exists>d. c = JObj d \<and> jget d ''role'' = JStr r \<and> r \<in> set ROLES)"
  by (cases c) (auto simp: role_of_def split: json.splits if_splits)

lemma require_permission_Inr:
  "require_permission c p = Inr r \<longleftrightarrow>
     (\<exists>d. c = JObj d \<and> jget d ''role'' = JStr r \<and> r \<in> set ROLES \<and> has_permission r p)"
  by (auto simp: require_permission_def role_of_Inr split: if_splits)

lemma permissions_of:
  "has_permission ''admin'' p \<longleftrightarrow> p \<in> {''upload'', ''analyze'', ''view'', ''feedback'', ''manage_config''}"
  "has_permission ''analyst'' p \<longleftrightarrow> p \<in> {''upload'', ''analyze'', ''view'', ''feedback''}"
  "has_permission ''reader'' p \<longleftrightarrow> p = ''view''"
  by (simp_all add: has_permission_def PERMISSIONS_def)

lemma has_permission_role: "has_permission r p \<Longrightarrow> r \<in> set ROLES"
  by (auto simp: has_permission_def PERMISSIONS_def ROLES_def split: if_splits)

end
