(* ===== verification/Gateway.thy ===== *)
theory Gateway
  imports Security Router Narrator "HOL-Library.Multiset"
begin

text \<open>
  The upload gateway (\<open>services/gateway\<close>): its configuration, the object storage with its
  multipart life cycle (in memory, and over an S3 client that is a parameter), the table of
  jobs, the emitter, the authentication of a request and the routes of \<open>app.py\<close>. The lemmas
  show who may upload, that \<open>firmware.uploaded\<close> is emitted only for an object that exists and
  at most once for a job, and what an upload cycle leaves behind.
\<close>

section \<open>config.py\<close>

definition RAW_BUCKET :: "environ \<Rightarrow> string" where
  "RAW_BUCKET os = getenv os ''MINIO_RAW_BUCKET'' ''raw-uploads''"

definition raw_object_key :: "string \<Rightarrow> string" where
  "raw_object_key job_id = ''raw-uploads/'' @ job_id @ ''/original.bin''"

definition use_ssl :: "environ \<Rightarrow> bool" where
  "use_ssl os = (lower (getenv os ''MINIO_USE_SSL'' ''false'') = ''true'')"

definition url_of :: "environ \<Rightarrow> string \<Rightarrow> string" where
  "url_of os endpoint = (if use_ssl os then ''https'' else ''http'') @ ''://'' @ endpoint"

definition presign_endpoint_url :: "environ \<Rightarrow> string" where
  "presign_endpoint_url os =
     (let url = getenv os ''MINIO_SERVER_URL'' []
      in if url \<noteq> [] then rstrip_char (CHR ''/'') url
         else url_of os (getenv os ''MINIO_ENDPOINT'' ''localhost:9000''))"

definition internal_endpoint_url :: "environ \<Rightarrow> string" where
  "internal_endpoint_url os = url_of os (getenv os ''MINIO_ENDPOINT_INTERNAL'' ''minio:9000'')"

definition access_key :: "environ \<Rightarrow> string" where
  "access_key os = getenv os ''MINIO_ROOT_USER'' ''minioadmin''"

definition secret_key :: "environ \<Rightarrow> string" where
  "secret_key os = getenv os ''MINIO_ROOT_PASSWORD'' ''minioadmin''"

definition presign_expiry_seconds :: "environ \<Rightarrow> int result" where
  "presign_expiry_seconds os =
     (case py_int (getenv os ''MINIO_PRESIGN_EXPIRY'' ''3600'') of
        None \<Rightarrow> Inl (ValueError ''invalid literal for int()'') | Some n \<Rightarrow> Inr n)"

lemma raw_object_key_inj [simp]: "raw_object_key i = raw_object_key j \<longleftrightarrow> i = j"
  by (simp add: raw_object_key_def)

section \<open>storage.py: values\<close>

record presigned_part =
  pp_part_number :: int
  pp_url :: string

record presigned_upload =
  pu_key :: string
  pu_upload_id :: string
  pu_parts :: "presigned_part list"

record completed_part =
  cp_part_number :: int
  cp_etag :: string

section \<open>jobs.py\<close>

definition STATUS_UPLOADED :: string where "STATUS_UPLOADED = ''UPLOADED''"

record job =
  jb_job_id :: string
  jb_status :: string
  jb_uploaded_by :: string
  jb_created_at :: string
  jb_completed_at :: "string option"

definition job_to_public :: "job \<Rightarrow> payload" where
  "job_to_public j =
     [(''job_id'', JStr (jb_job_id j)), (''status'', JStr (jb_status j)),
      (''uploaded_by'', JStr (jb_uploaded_by j)), (''created_at'', JStr (jb_created_at j)),
      (''completed_at'', case jb_completed_at j of None \<Rightarrow> JNull | Some t \<Rightarrow> JStr t)]"

type_synonym jobs = "(string, job) dict"

definition jobs_create :: "string \<Rightarrow> string \<Rightarrow> string \<Rightarrow> (jobs, job) eff" where
  "jobs_create now job_id uploaded_by jobs =
     (if dget jobs job_id \<noteq> None then (Inl (ValueError ''job already exists''), jobs)
      else
        let j = \<lparr>jb_job_id = job_id, jb_status = STATUS_UPLOADED, jb_uploaded_by = uploaded_by,
                 jb_created_at = now, jb_completed_at = None\<rparr>
        in (Inr j, dset job_id j jobs))"

definition jobs_get :: "string \<Rightarrow> jobs \<Rightarrow> job option" where
  "jobs_get job_id jobs = dget jobs job_id"

section \<open>storage.py: in memory\<close>

text \<open>
  \<open>ms_uuids\<close> counts the calls of \<open>uuid.uuid4\<close>; \<open>uuid n\<close> is the text of the \<open>n\<close>th one and
  \<open>uuid_hex\<close> its \<open>.hex\<close>.
\<close>

record mem_storage =
  ms_pending :: "(string, string) dict"
  ms_objects :: "string list"
  ms_uuids :: nat

definition uuid_hex :: "string \<Rightarrow> string" where
  "uuid_hex u = filter (\<lambda>c. c \<noteq> CHR ''-'') u"

definition presign_base :: "string option \<Rightarrow> string" where
  "presign_base base =
     rstrip_char (CHR ''/'')
       (case base of None \<Rightarrow> ''http://localhost:9000''
                   | Some b \<Rightarrow> if b = [] then ''http://localhost:9000'' else b)"

definition part_url :: "string \<Rightarrow> string \<Rightarrow> string \<Rightarrow> string \<Rightarrow> int \<Rightarrow> string" where
  "part_url base bucket key upload_id n =
     base @ ''/'' @ bucket @ ''/'' @ key @ ''?partNumber='' @ int_str n @ ''&uploadId='' @ upload_id"

definition part_numbers :: "int \<Rightarrow> int list" where
  "part_numbers part_count = [1..part_count]"

definition create_multipart_upload ::
  "(nat \<Rightarrow> string) \<Rightarrow> string \<Rightarrow> string \<Rightarrow> string \<Rightarrow> int \<Rightarrow>
   (mem_storage, presigned_upload) eff" where
  "create_multipart_upload uuid base bucket key part_count s =
     (if part_count < 1 then (Inl (StorageError ''part_count must be >= 1''), s)
      else
        let upload_id = uuid_hex (uuid (ms_uuids s));
            parts = map (\<lambda>n. \<lparr>pp_part_number = n, pp_url = part_url base bucket key upload_id n\<rparr>)
                      (part_numbers part_count)
        in (Inr \<lparr>pu_key = key, pu_upload_id = upload_id, pu_parts = parts\<rparr>,
            s\<lparr>ms_uuids := ms_uuids s + 1, ms_pending := dset upload_id key (ms_pending s)\<rparr>))"

definition complete_multipart_upload ::
  "string \<Rightarrow> string \<Rightarrow> completed_part list \<Rightarrow> (mem_storage, unit) eff" where
  "complete_multipart_upload key upload_id parts s =
     (case dget (ms_pending s) upload_id of
        None \<Rightarrow> (Inl (StorageError ''unknown or already-completed upload_id''), s)
      | Some pending_key \<Rightarrow>
          if pending_key \<noteq> key then (Inl (StorageError ''upload_id does not match key''), s)
          else if parts = []
          then (Inl (StorageError ''cannot complete a multipart upload with no parts''), s)
          else (Inr (), s\<lparr>ms_pending := ddel upload_id (ms_pending s),
                          ms_objects := List.insert key (ms_objects s)\<rparr>))"

definition object_exists :: "string \<Rightarrow> mem_storage \<Rightarrow> bool" where
  "object_exists key s = (key \<in> set (ms_objects s))"

section \<open>What the routes rely on\<close>

text \<open>
  The \<open>StorageClient\<close> protocol: \<open>pending\<close> observes the key an upload id is open for. A
  completion succeeds exactly for an open id with its own key and at least one part; then
  the object exists and the id is closed. Refusals are \<open>StorageError\<close>s without effect.
\<close>

locale object_storage =
  fixes create :: "string \<Rightarrow> int \<Rightarrow> 's \<Rightarrow> presigned_upload result \<times> 's"
    and complete :: "string \<Rightarrow> string \<Rightarrow> completed_part list \<Rightarrow> 's \<Rightarrow> unit result \<times> 's"
    and has_object :: "string \<Rightarrow> 's \<Rightarrow> bool"
    and pending :: "'s \<Rightarrow> string \<Rightarrow> string option"
  assumes create_ok: "1 \<le> n \<Longrightarrow>
      \<exists>u s'. create key n s = (Inr u, s') \<and> pu_key u = key \<and>
        map pp_part_number (pu_parts u) = [1..n] \<and>
        pending s' = (pending s)(pu_upload_id u \<mapsto> key) \<and> (\<forall>k. has_object k s' = has_object k s)"
    and create_refuses: "n < 1 \<Longrightarrow> \<exists>m. create key n s = (Inl (StorageError m), s)"
    and complete_ok: "pending s uid = Some key \<Longrightarrow> parts \<noteq> [] \<Longrightarrow>
      \<exists>s'. complete key uid parts s = (Inr (), s') \<and> pending s' = (pending s)(uid := None) \<and>
        (\<forall>k. has_object k s' = (k = key \<or> has_object k s))"
    and complete_refuses: "pending s uid \<noteq> Some key \<or> parts = [] \<Longrightarrow>
      \<exists>m. complete key uid parts s = (Inl (StorageError m), s)"
begin

lemma complete_Inr_iff: "fst (complete key uid parts s) = Inr () \<longleftrightarrow> pending s uid = Some key \<and> parts \<noteq> []"
proof (cases "pending s uid = Some key \<and> parts \<noteq> []")
  case True
  then show ?thesis using complete_ok [of s uid key parts] by auto
next
  case False
  then show ?thesis using complete_refuses [of s uid key parts] by auto
qed

lemma completed_exists: "complete key uid parts s = (Inr (), s') \<Longrightarrow> has_object key s'"
  using complete_Inr_iff [of key uid parts s] complete_ok [of s uid key parts] by fastforce

lemma complete_twice:
  assumes "complete key uid parts s = (Inr (), s')"
  shows "\<exists>m. complete key' uid parts' s' = (Inl (StorageError m), s')"
proof -
  have "pending s' uid = None"
    using complete_Inr_iff [of key uid parts s] complete_ok [of s uid key parts] assms by fastforce
  then show ?thesis using complete_refuses [of s' uid key' parts'] by simp
qed

lemma complete_cases:
  assumes "complete key uid parts s = (r, s')"
  obtains (ok) "r = Inr ()" "pending s uid = Some key" "parts \<noteq> []"
      "pending s' = (pending s)(uid := None)" "\<And>k. has_object k s' = (k = key \<or> has_object k s)"
    | (refused) m where "r = Inl (StorageError m)" "s' = s"
proof (cases "pending s uid = Some key \<and> parts \<noteq> []")
  case True
  then show ?thesis using complete_ok [of s uid key parts] assms that(1) by fastforce
next
  case False
  then show ?thesis using complete_refuses [of s uid key parts] assms that(2) by fastforce
qed

lemma create_cases:
  assumes "create key n s = (r, s')"
  obtains (ok) u where "r = Inr u" "1 \<le> n" "pu_key u = key" "map pp_part_number (pu_parts u) = [1..n]"
      "pending s' = (pending s)(pu_upload_id u \<mapsto> key)" "\<And>k. has_object k s' = has_object k s"
    | (refused) m where "r = Inl (StorageError m)" "s' = s" "n < 1"
proof (cases "1 \<le> n")
  case True
  then show ?thesis using create_ok [of n key s] assms that(1) by fastforce
next
  case False
  then show ?thesis using create_refuses [of n key s] assms that(2) by fastforce
qed

end

definition mem_pending :: "mem_storage \<Rightarrow> string \<Rightarrow> string option" where
  "mem_pending s uid = dget (ms_pending s) uid"

interpretation mem: object_storage
  "create_multipart_upload uuid base bucket" complete_multipart_upload object_exists mem_pending
proof
  show "\<exists>u s'. create_multipart_upload uuid base bucket key n s = (Inr u, s') \<and> pu_key u = key \<and>
      map pp_part_number (pu_parts u) = [1..n] \<and>
      mem_pending s' = (mem_pending s)(pu_upload_id u \<mapsto> key) \<and>
      (\<forall>k. object_exists k s' = object_exists k s)" if "1 \<le> n" for n key s
    using that
    by (simp add: create_multipart_upload_def Let_def part_numbers_def comp_def object_exists_def
        mem_pending_def [abs_def])
  show "\<exists>m. create_multipart_upload uuid base bucket key n s = (Inl (StorageError m), s)"
    if "n < 1" for n key s
    using that by (simp add: create_multipart_upload_def)
  show "\<exists>s'. complete_multipart_upload key uid parts s = (Inr (), s') \<and>
      mem_pending s' = (mem_pending s)(uid := None) \<and>
      (\<forall>k. object_exists k s' = (k = key \<or> object_exists k s))"
    if "mem_pending s uid = Some key" "parts \<noteq> []" for s uid key parts
    using that
    by (simp add: complete_multipart_upload_def mem_pending_def [abs_def] object_exists_def)
  show "\<exists>m. complete_multipart_upload key uid parts s = (Inl (StorageError m), s)"
    if "mem_pending s uid \<noteq> Some key \<or> parts = []" for s uid key parts
    using that
    by (auto simp: complete_multipart_upload_def mem_pending_def split: option.splits)
qed

section \<open>storage.py: over an S3 client\<close>

text \<open>
  \<open>S3Storage\<close> calls a \<open>boto3\<close> client, which is a parameter: its operations on a state \<open>'s\<close>
  of the service, each of which may raise. \<open>s3_ready\<close> tells whether the internal client was
  made, which is when the bucket is looked up.
\<close>

record 's s3_client =
  s3_head_bucket :: "('s, unit) eff"
  s3_create_bucket :: "('s, unit) eff"
  s3_create_upload :: "string \<Rightarrow> ('s, string) eff"
  s3_presign_part :: "string \<Rightarrow> string \<Rightarrow> int \<Rightarrow> int \<Rightarrow> string"
  s3_complete_upload :: "string \<Rightarrow> string \<Rightarrow> (string \<times> int) list \<Rightarrow> ('s, unit) eff"
  s3_head_object :: "string \<Rightarrow> ('s, unit) eff"

type_synonym 's s3_storage = "bool \<times> 's"

definition ensure_bucket :: "'s s3_client \<Rightarrow> 's \<Rightarrow> 's" where
  "ensure_bucket C w =
     (case s3_head_bucket C w of
        (Inr _, w) \<Rightarrow> w
      | (Inl _, w) \<Rightarrow> snd (s3_create_bucket C w))"

definition internal_client :: "'s s3_client \<Rightarrow> 's s3_storage \<Rightarrow> 's s3_storage" where
  "internal_client C s = (if fst s then s else (True, ensure_bucket C (snd s)))"

definition on_client :: "('s, 'a) eff \<Rightarrow> 's s3_storage \<Rightarrow> 'a result \<times> 's s3_storage" where
  "on_client m s = (case m (snd s) of (r, w) \<Rightarrow> (r, (fst s, w)))"

definition s3_create_multipart_upload ::
  "'s s3_client \<Rightarrow> environ \<Rightarrow> string \<Rightarrow> int \<Rightarrow> ('s s3_storage, presigned_upload) eff" where
  "s3_create_multipart_upload C os key part_count s =
     (if part_count < 1 then (Inl (StorageError ''part_count must be >= 1''), s)
      else
        ebind (on_client (s3_create_upload C key)) (\<lambda>upload_id.
        ebind (lift_result (presign_expiry_seconds os)) (\<lambda>expiry.
        ret \<lparr>pu_key = key, pu_upload_id = upload_id,
             pu_parts = map (\<lambda>n. \<lparr>pp_part_number = n, pp_url = s3_presign_part C key upload_id n expiry\<rparr>)
                          (part_numbers part_count)\<rparr>)) (internal_client C s))"

definition s3_complete_multipart_upload ::
  "'s s3_client \<Rightarrow> string \<Rightarrow> string \<Rightarrow> completed_part list \<Rightarrow> ('s s3_storage, unit) eff" where
  "s3_complete_multipart_upload C key upload_id parts s =
     (if parts = [] then (Inl (StorageError ''cannot complete a multipart upload with no parts''), s)
      else
        let ordered = sort_key cp_part_number parts
        in catch
             (on_client (s3_complete_upload C key upload_id
                (map (\<lambda>p. (cp_etag p, cp_part_number p)) ordered)))
             (\<lambda>e. raise (StorageError ''complete_multipart_upload failed''))
             (internal_client C s))"

definition s3_object_exists :: "'s s3_client \<Rightarrow> string \<Rightarrow> 's s3_storage \<Rightarrow> bool \<times> 's s3_storage" where
  "s3_object_exists C key s =
     (case on_client (s3_head_object C key) (internal_client C s) of
        (Inr _, s) \<Rightarrow> (True, s)
      | (Inl _, s) \<Rightarrow> (False, s))"

text \<open>
  S3 refuses a completion whose parts are not in ascending order: the list handed over is
  sorted by part number and has the parts of the request, whatever order they came in.
\<close>

lemma s3_parts_ascending:
  fixes parts :: "completed_part list"
  defines "sent \<equiv> map (\<lambda>p. (cp_etag p, cp_part_number p)) (sort_key cp_part_number parts)"
  shows "sorted (map snd sent)" "mset sent = mset (map (\<lambda>p. (cp_etag p, cp_part_number p)) parts)"
  unfolding sent_def by (simp_all add: comp_def)

lemma s3_complete_raises_storage_error:
  "fst (s3_complete_multipart_upload C key uid parts s) = Inl e \<Longrightarrow> \<exists>m. e = StorageError m"
  by (auto simp: s3_complete_multipart_upload_def catch_def raise_def Let_def split: if_splits sum.splits prod.splits)

lemma bucket_ensured_once: "internal_client C (internal_client C s) = internal_client C s"
  by (simp add: internal_client_def)

section \<open>events.py\<close>

text \<open>The gateway's own producer; \<open>flush\<close> waits, its result is not read.\<close>

definition gateway_emit :: "env \<Rightarrow> string \<Rightarrow> payload \<Rightarrow> ('z router_state_scheme, unit) eff" where
  "gateway_emit E topic payload =
     ebind (lift_result (validate_payload (e_coerce E) topic (JObj payload))) (\<lambda>validated.
       let key = partition_key topic validated in
       ebind (lift_result (encode_key key)) (\<lambda>k.
       produce \<lparr>km_topic = topic, km_key = k, km_value = Some (e_dumps E (JObj validated))\<rparr>))"

lemma gateway_emit_is_emit: "gateway_emit = emit"
  by (simp add: fun_eq_iff gateway_emit_def emit_def Let_def)

section \<open>app.py: who may call\<close>

definition bearer_token :: "string option \<Rightarrow> string option" where
  "bearer_token authorization =
     (case authorization of
        None \<Rightarrow> None
      | Some a \<Rightarrow>
          if a \<noteq> [] \<and> starts_with ''bearer '' (lower a) then Some (strip (drop 7 a)) else None)"

definition request_claims :: "jwt_env \<Rightarrow> environ \<Rightarrow> string option \<Rightarrow> json result" where
  "request_claims W os authorization =
     (if \<not> auth_enabled os then Inr (JObj [(''sub'', JStr ''dev''), (''role'', JStr ''admin'')])
      else case verify_token W os (bearer_token authorization) of
        Inl (AuthError m) \<Rightarrow> Inl (HTTPException 401)
      | r \<Rightarrow> r)"

definition require :: "jwt_env \<Rightarrow> environ \<Rightarrow> string \<Rightarrow> string option \<Rightarrow> json result" where
  "require W os permission authorization =
     rbind (request_claims W os authorization) (\<lambda>claims.
       case require_permission claims permission of
         Inl (AuthError m) \<Rightarrow> Inl (HTTPException 403)
       | Inl e \<Rightarrow> Inl e
       | Inr _ \<Rightarrow> Inr claims)"

section \<open>app.py: the routes\<close>

record create_upload_request =
  rq_filename :: string
  rq_size_bytes :: int
  rq_part_count :: int

record complete_upload_request =
  rq_upload_id :: string
  rq_parts :: "completed_part list"

text \<open>The \<open>Field\<close> constraints of the request models; a body that violates one is a 422.\<close>

definition create_request_ok :: "create_upload_request \<Rightarrow> bool" where
  "create_request_ok r \<longleftrightarrow>
     rq_filename r \<noteq> [] \<and> 0 \<le> rq_size_bytes r \<and> 1 \<le> rq_part_count r \<and> rq_part_count r \<le> 10000"

definition complete_request_ok :: "complete_upload_request \<Rightarrow> bool" where
  "complete_request_ok r \<longleftrightarrow>
     rq_upload_id r \<noteq> [] \<and> rq_parts r \<noteq> [] \<and>
     list_all (\<lambda>p. 1 \<le> cp_part_number p \<and> cp_etag p \<noteq> []) (rq_parts r)"

record gateway_state = router_state +
  gw_storage :: mem_storage
  gw_jobs :: jobs

definition on_storage :: "(mem_storage, 'a) eff \<Rightarrow> ('z gateway_state_scheme, 'a) eff" where
  "on_storage m s = (case m (gw_storage s) of (r, st) \<Rightarrow> (r, s\<lparr>gw_storage := st\<rparr>))"

definition on_jobs :: "(jobs, 'a) eff \<Rightarrow> ('z gateway_state_scheme, 'a) eff" where
  "on_jobs m s = (case m (gw_jobs s) of (r, js) \<Rightarrow> (r, s\<lparr>gw_jobs := js\<rparr>))"

definition uuid4 :: "(nat \<Rightarrow> string) \<Rightarrow> (mem_storage, string) eff" where
  "uuid4 uuid st = (Inr (uuid (ms_uuids st)), st\<lparr>ms_uuids := ms_uuids st + 1\<rparr>)"

text \<open>\<open>str(claims.get("sub", "unknown"))\<close>.\<close>

definition subject :: "(json \<Rightarrow> string) \<Rightarrow> json \<Rightarrow> string" where
  "subject rep claims =
     (case dget (json_obj claims) ''sub'' of None \<Rightarrow> ''unknown'' | Some j \<Rightarrow> py_text rep j)"

text \<open>The parameters of the process: environment, token library, identifiers, \<open>repr\<close>.\<close>

record gateway_env =
  ge_env :: env
  ge_jwt :: jwt_env
  ge_os :: environ
  ge_uuid :: "nat \<Rightarrow> string"
  ge_base :: "string option"
  ge_repr :: "json \<Rightarrow> string"

datatype answer =
    Created string string string "presigned_part list"
  | Completed string string bool
  | JobIs payload

definition create_upload ::
  "gateway_env \<Rightarrow> string option \<Rightarrow> create_upload_request \<Rightarrow> ('z gateway_state_scheme, answer) eff" where
  "create_upload G authorization req =
     ebind (lift_result (require (ge_jwt G) (ge_os G) ''upload'' authorization)) (\<lambda>claims.
     if \<not> create_request_ok req then raise (HTTPException 422)
     else
       ebind (on_storage (uuid4 (ge_uuid G))) (\<lambda>job_id.
       let key = raw_object_key job_id in
       ebind (on_jobs (jobs_create (e_now (ge_env G)) job_id (subject (ge_repr G) claims))) (\<lambda>_.
       ebind (catch
           (on_storage (create_multipart_upload (ge_uuid G) (presign_base (ge_base G))
              (RAW_BUCKET (ge_os G)) key (rq_part_count req)))
           (\<lambda>e. case e of StorageError m \<Rightarrow> raise (HTTPException 502) | _ \<Rightarrow> raise e)) (\<lambda>presigned.
       ret (Created job_id key (pu_upload_id presigned) (pu_parts presigned))))))"

definition uploaded_payload :: "env \<Rightarrow> job \<Rightarrow> string \<Rightarrow> payload" where
  "uploaded_payload E j job_id =
     [(''job_id'', JStr job_id), (''s3_key'', JStr (raw_object_key job_id)),
      (''uploaded_by'', JStr (jb_uploaded_by j)), (''uploaded_at'', JStr (e_now E))]"

definition complete_upload ::
  "gateway_env \<Rightarrow> string option \<Rightarrow> string \<Rightarrow> complete_upload_request \<Rightarrow>
   ('z gateway_state_scheme, answer) eff" where
  "complete_upload G authorization job_id req =
     ebind (lift_result (require (ge_jwt G) (ge_os G) ''upload'' authorization)) (\<lambda>claims.
     if \<not> complete_request_ok req then raise (HTTPException 422)
     else
       ebind (gets (\<lambda>s. jobs_get job_id (gw_jobs s))) (\<lambda>found.
       case found of
         None \<Rightarrow> raise (HTTPException 404)
       | Some j \<Rightarrow>
           (let key = raw_object_key job_id in
            ebind (catch (on_storage (complete_multipart_upload key (rq_upload_id req) (rq_parts req)))
                (\<lambda>e. case e of StorageError m \<Rightarrow> raise (HTTPException 400) | _ \<Rightarrow> raise e)) (\<lambda>_.
            ebind (gets (\<lambda>s. object_exists key (gw_storage s))) (\<lambda>there.
            if \<not> there then raise (HTTPException 409)
            else
              ebind (gateway_emit (ge_env G) FIRMWARE_UPLOADED (uploaded_payload (ge_env G) j job_id)) (\<lambda>_.
              ret (Completed job_id (jb_status j) True)))))))"

definition get_job :: "gateway_env \<Rightarrow> string option \<Rightarrow> string \<Rightarrow> ('z gateway_state_scheme, answer) eff" where
  "get_job G authorization job_id =
     ebind (lift_result (require (ge_jwt G) (ge_os G) ''view'' authorization)) (\<lambda>claims.
     ebind (gets (\<lambda>s. jobs_get job_id (gw_jobs s))) (\<lambda>found.
     case found of
       None \<Rightarrow> raise (HTTPException 404)
     | Some j \<Rightarrow> ret (JobIs (job_to_public j))))"

text \<open>The three routes as requests, and a process that serves them one after the other.\<close>

datatype request =
    PostUploads "string option" create_upload_request
  | PostComplete "string option" string complete_upload_request
  | GetJob "string option" string

fun serve :: "gateway_env \<Rightarrow> request \<Rightarrow> ('z gateway_state_scheme, answer) eff" where
  "serve G (PostUploads a r) = create_upload G a r"
| "serve G (PostComplete a j r) = complete_upload G a j r"
| "serve G (GetJob a j) = get_job G a j"

definition serve_all :: "gateway_env \<Rightarrow> request list \<Rightarrow> 'z gateway_state_scheme \<Rightarrow> 'z gateway_state_scheme" where
  "serve_all G rs s = foldl (\<lambda>s r. snd (serve G r s)) s rs"

definition gateway_start :: gateway_state where
  "gateway_start =
     \<lparr>rs_redis = redis_empty, rs_log = [], rs_faults = [],
      gw_storage = \<lparr>ms_pending = [], ms_objects = [], ms_uuids = 0\<rparr>, gw_jobs = []\<rparr>"

section \<open>The effect of each route\<close>

definition uploaded_msg :: "env \<Rightarrow> job \<Rightarrow> string \<Rightarrow> kmsg" where
  "uploaded_msg E jb j =
     \<lparr>km_topic = FIRMWARE_UPLOADED, km_key = (if j = [] then None else Some j),
      km_value = Some (e_dumps E (JObj (uploaded_payload E jb j)))\<rparr>"

lemma uploaded_validates:
  "env_ok E \<Longrightarrow>
    validate_payload (e_coerce E) FIRMWARE_UPLOADED (JObj (uploaded_payload E jb j)) =
      Inr (uploaded_payload E jb j)"
  by (simp add: validate_payload_def FirmwareUploaded_def uploaded_payload_def env_ok_def coercers_ok_def)

lemma gateway_emit_uploaded:
  "env_ok E \<Longrightarrow>
    gateway_emit E FIRMWARE_UPLOADED (uploaded_payload E jb j) = produce (uploaded_msg E jb j)"
proof -
  assume E: "env_ok E"
  have "partition_key FIRMWARE_UPLOADED (uploaded_payload E jb j) = JStr j"
    by (simp add: partition_key_def SUB_BLOB_KEYED_TOPICS_def topic_defs uploaded_payload_def jget_def)
  then show ?thesis
    by (simp add: fun_eq_iff gateway_emit_def uploaded_validates [OF E] uploaded_msg_def ebind_def
        lift_result_def encode_key_def Let_def)
qed

definition closed_upload :: "string \<Rightarrow> string \<Rightarrow> mem_storage \<Rightarrow> mem_storage" where
  "closed_upload key upload_id st =
     st\<lparr>ms_pending := ddel upload_id (ms_pending st), ms_objects := List.insert key (ms_objects st)\<rparr>"

lemma complete_upload_eq:
  assumes "env_ok (ge_env G)"
  shows "complete_upload G a j req s =
    (case require (ge_jwt G) (ge_os G) ''upload'' a of
       Inl e \<Rightarrow> (Inl e, s)
     | Inr claims \<Rightarrow>
         if \<not> complete_request_ok req then (Inl (HTTPException 422), s)
         else case dget (gw_jobs s) j of
           None \<Rightarrow> (Inl (HTTPException 404), s)
         | Some jb \<Rightarrow>
             if dget (ms_pending (gw_storage s)) (rq_upload_id req) \<noteq> Some (raw_object_key j)
             then (Inl (HTTPException 400), s)
             else case produce (uploaded_msg (ge_env G) jb j)
                    (s\<lparr>gw_storage := closed_upload (raw_object_key j) (rq_upload_id req) (gw_storage s)\<rparr>) of
               (Inl e, s') \<Rightarrow> (Inl e, s')
             | (Inr _, s') \<Rightarrow> (Inr (Completed j (jb_status jb) True), s'))"
proof (cases "require (ge_jwt G) (ge_os G) ''upload'' a")
  case (Inl e)
  then show ?thesis by (simp add: complete_upload_def ebind_def lift_result_def)
next
  case auth: (Inr claims)
  show ?thesis
  proof (cases "complete_request_ok req")
    case False
    with auth show ?thesis by (simp add: complete_upload_def ebind_def lift_result_def raise_def)
  next
    case ok: True
    then have parts: "rq_parts req \<noteq> []" by (simp add: complete_request_ok_def)
    show ?thesis
    proof (cases "dget (gw_jobs s) j")
      case None
      with auth ok show ?thesis
        by (simp add: complete_upload_def ebind_def lift_result_def gets_def jobs_get_def raise_def)
    next
      case (Some jb)
      show ?thesis
      proof (cases "dget (ms_pending (gw_storage s)) (rq_upload_id req) = Some (raw_object_key j)")
        case True
        with auth ok Some parts show ?thesis
          by (simp add: complete_upload_def ebind_def lift_result_def gets_def jobs_get_def Let_def
              catch_def on_storage_def complete_multipart_upload_def object_exists_def
              gateway_emit_uploaded [OF assms] closed_upload_def ret_def
              split: prod.splits sum.splits)
      next
        case False
        with auth ok Some parts show ?thesis
          by (auto simp: complete_upload_def ebind_def lift_result_def gets_def jobs_get_def Let_def
              catch_def on_storage_def complete_multipart_upload_def raise_def
              split: option.splits)
      qed
    qed
  qed
qed

definition new_job :: "gateway_env \<Rightarrow> json \<Rightarrow> string \<Rightarrow> job" where
  "new_job G claims job_id =
     \<lparr>jb_job_id = job_id, jb_status = STATUS_UPLOADED, jb_uploaded_by = subject (ge_repr G) claims,
      jb_created_at = e_now (ge_env G), jb_completed_at = None\<rparr>"

definition created_parts :: "gateway_env \<Rightarrow> string \<Rightarrow> string \<Rightarrow> int \<Rightarrow> presigned_part list" where
  "created_parts G key upload_id n =
     map (\<lambda>i. \<lparr>pp_part_number = i,
               pp_url = part_url (presign_base (ge_base G)) (RAW_BUCKET (ge_os G)) key upload_id i\<rparr>) [1..n]"

lemma create_upload_eq:
  "create_upload G a req s =
    (case require (ge_jwt G) (ge_os G) ''upload'' a of
       Inl e \<Rightarrow> (Inl e, s)
     | Inr claims \<Rightarrow>
         if \<not> create_request_ok req then (Inl (HTTPException 422), s)
         else
           let st = gw_storage s; n = ms_uuids st; job_id = ge_uuid G n; key = raw_object_key job_id;
               upload_id = uuid_hex (ge_uuid G (n + 1))
           in if job_id \<in> set (dkeys (gw_jobs s))
              then (Inl (ValueError ''job already exists''), s\<lparr>gw_storage := st\<lparr>ms_uuids := n + 1\<rparr>\<rparr>)
              else (Inr (Created job_id key upload_id (created_parts G key upload_id (rq_part_count req))),
                    s\<lparr>gw_storage := st\<lparr>ms_uuids := n + 2, ms_pending := dset upload_id key (ms_pending st)\<rparr>,
                      gw_jobs := dset job_id (new_job G claims job_id) (gw_jobs s)\<rparr>))"
proof (cases "require (ge_jwt G) (ge_os G) ''upload'' a")
  case (Inl e)
  then show ?thesis by (simp add: create_upload_def ebind_def lift_result_def)
next
  case auth: (Inr claims)
  show ?thesis
  proof (cases "create_request_ok req")
    case False
    with auth show ?thesis by (simp add: create_upload_def ebind_def lift_result_def raise_def)
  next
    case ok: True
    then have n: "\<not> rq_part_count req < 1" by (simp add: create_request_ok_def)
    let ?j = "ge_uuid G (ms_uuids (gw_storage s))"
    show ?thesis
    proof (cases "?j \<in> set (dkeys (gw_jobs s))")
      case True
      then have "dget (gw_jobs s) ?j \<noteq> None" by (simp add: dget_None_iff)
      with True auth ok show ?thesis
        by (simp add: create_upload_def ebind_def lift_result_def on_storage_def on_jobs_def uuid4_def
            jobs_create_def Let_def)
    next
      case False
      then have "dget (gw_jobs s) ?j = None" by (simp add: dget_None_iff)
      with False auth ok n show ?thesis
        by (simp add: create_upload_def ebind_def lift_result_def on_storage_def on_jobs_def uuid4_def
            jobs_create_def Let_def catch_def create_multipart_upload_def ret_def new_job_def
            created_parts_def part_numbers_def)
    qed
  qed
qed

section \<open>At most one upload event for a job\<close>

definition uploaded :: "string \<Rightarrow> kmsg list \<Rightarrow> nat" where
  "uploaded j msgs = length (filter (\<lambda>m. km_topic m = FIRMWARE_UPLOADED \<and> km_key m = Some j) msgs)"

definition gateway_inv :: "'z gateway_state_scheme \<Rightarrow> bool" where
  "gateway_inv s \<longleftrightarrow>
     (\<forall>u k. mem_pending (gw_storage s) u = Some k \<longrightarrow>
        (\<exists>j \<in> set (dkeys (gw_jobs s)). k = raw_object_key j)) \<and>
     (\<forall>u u' k. mem_pending (gw_storage s) u = Some k \<longrightarrow>
        mem_pending (gw_storage s) u' = Some k \<longrightarrow> u = u') \<and>
     (\<forall>j. uploaded j (rs_log s) \<le> 1) \<and>
     (\<forall>j u. uploaded j (rs_log s) \<noteq> 0 \<longrightarrow>
        j \<in> set (dkeys (gw_jobs s)) \<and> object_exists (raw_object_key j) (gw_storage s) \<and>
        mem_pending (gw_storage s) u \<noteq> Some (raw_object_key j))"

lemma uploaded_append [simp]: "uploaded j (l @ l') = uploaded j l + uploaded j l'"
  by (simp add: uploaded_def)

lemma uploaded_Nil [simp]: "uploaded j [] = 0"
  by (simp add: uploaded_def)

lemma uploaded_msg_count: "uploaded i [uploaded_msg E jb j] = (if i = j \<and> j \<noteq> [] then 1 else 0)"
  by (auto simp: uploaded_def uploaded_msg_def)

lemma gateway_inv_start: "gateway_inv gateway_start"
  by (simp add: gateway_inv_def gateway_start_def mem_pending_def)

lemma create_upload_inv:
  assumes "gateway_inv s"
  shows "gateway_inv (snd (create_upload G a req s))"
proof (cases "require (ge_jwt G) (ge_os G) ''upload'' a")
  case (Inl e)
  then show ?thesis using assms by (simp add: create_upload_eq)
next
  case (Inr claims)
  let ?n = "ms_uuids (gw_storage s)"
  let ?j = "ge_uuid G ?n"
  show ?thesis
  proof (cases "create_request_ok req \<and> ?j \<notin> set (dkeys (gw_jobs s))")
    case False
    with Inr assms show ?thesis
      by (auto simp: create_upload_eq Let_def gateway_inv_def mem_pending_def object_exists_def)
  next
    case True
    then have "mem_pending (gw_storage s) u \<noteq> Some (raw_object_key ?j)" for u
      using assms unfolding gateway_inv_def by (metis raw_object_key_inj)
    moreover from True have "uploaded ?j (rs_log s) = 0"
      using assms unfolding gateway_inv_def by blast
    ultimately have "mem_pending (gw_storage s) u \<noteq> Some (raw_object_key ?j)"
      "uploaded ?j (rs_log s) = 0" for u by blast+
    moreover
    let ?s = "snd (create_upload G a req s)"
    have "mem_pending (gw_storage ?s) =
        (mem_pending (gw_storage s))(uuid_hex (ge_uuid G (?n + 1)) \<mapsto> raw_object_key ?j)"
      "rs_log ?s = rs_log s" "set (dkeys (gw_jobs ?s)) = insert ?j (set (dkeys (gw_jobs s)))"
      "object_exists k (gw_storage ?s) = object_exists k (gw_storage s)" for k
      using True Inr by (simp_all add: create_upload_eq Let_def mem_pending_def [abs_def] object_exists_def)
    ultimately show ?thesis
      using assms unfolding gateway_inv_def
      by (smt (verit) fun_upd_apply insert_iff option.inject raw_object_key_inj)
  qed
qed

lemma produce_cases:
  obtains (sent) "produce m s = (Inr (), s\<lparr>rs_log := rs_log s @ [m], rs_faults := tl (rs_faults s)\<rparr>)"
    | (full) fs where "produce m s = (Inl ProduceError, s\<lparr>rs_faults := fs\<rparr>)" "rs_faults s = True # fs"
proof (cases "rs_faults s")
  case Nil then show ?thesis using that(1) by (simp add: produce_def)
next
  case (Cons b fs) then show ?thesis using that by (cases b) (auto simp: produce_def)
qed

lemma require_no_produce_error: "require W os p x \<noteq> Inl ProduceError"
proof -
  have "verify_token W os t \<noteq> Inl ProduceError" for t
    by (auto simp: verify_token_def split: option.splits dest: decode_jwt_refusals)
  moreover have "require_permission c p \<noteq> Inl ProduceError" for c
    by (cases c) (auto simp: require_permission_def role_of_def rbind_def split: json.splits sum.splits if_splits)
  ultimately show ?thesis
    by (auto simp: require_def request_claims_def rbind_def split: sum.splits exn.splits if_splits)
qed

text \<open>A completion either leaves the state alone or closes the upload and produces.\<close>

lemma complete_upload_cases:
  assumes "env_ok (ge_env G)" "complete_upload G a j req s = (r, s')"
  obtains (same) "s' = s" "r \<noteq> Inl ProduceError"
    | (closed) jb r1 where "dget (gw_jobs s) j = Some jb"
        "dget (ms_pending (gw_storage s)) (rq_upload_id req) = Some (raw_object_key j)"
        "produce (uploaded_msg (ge_env G) jb j)
           (s\<lparr>gw_storage := closed_upload (raw_object_key j) (rq_upload_id req) (gw_storage s)\<rparr>) = (r1, s')"
proof (cases "require (ge_jwt G) (ge_os G) ''upload'' a")
  case (Inl e)
  then have "e \<noteq> ProduceError" using require_no_produce_error by metis
  with Inl show ?thesis using assms that(1) by (auto simp: complete_upload_eq)
next
  case auth: (Inr claims)
  show ?thesis
  proof (cases "complete_request_ok req \<and> dget (gw_jobs s) j \<noteq> None \<and>
      dget (ms_pending (gw_storage s)) (rq_upload_id req) = Some (raw_object_key j)")
    case False
    then show ?thesis
      using assms auth that(1) by (auto simp: complete_upload_eq split: option.splits if_splits)
  next
    case True
    then obtain jb where jb: "dget (gw_jobs s) j = Some jb" by auto
    obtain r1 s1 where p: "produce (uploaded_msg (ge_env G) jb j)
        (s\<lparr>gw_storage := closed_upload (raw_object_key j) (rq_upload_id req) (gw_storage s)\<rparr>) = (r1, s1)"
      by fastforce
    then have "s1 = s'"
      using assms(2) True auth jb by (simp add: complete_upload_eq [OF assms(1)] split: sum.splits)
    then show ?thesis using that(2) True jb p by blast
  qed
qed

lemma complete_upload_inv:
  assumes "gateway_inv s" "env_ok (ge_env G)"
  shows "gateway_inv (snd (complete_upload G a j req s))"
proof -
  obtain r s' where res: "complete_upload G a j req s = (r, s')" by fastforce
  from assms(2) res show ?thesis
  proof (cases rule: complete_upload_cases)
    case same
    then show ?thesis using assms(1) res by simp
  next
    case (closed jb r1)
    let ?key = "raw_object_key j" and ?u = "rq_upload_id req"
    let ?s1 = "s\<lparr>gw_storage := closed_upload ?key ?u (gw_storage s)\<rparr>"
    have known: "j \<in> set (dkeys (gw_jobs s))" using closed(1) by (metis dget_None_iff option.distinct(1))
    have fresh: "uploaded j (rs_log s) = 0"
      using assms(1) closed(2) by (auto simp: gateway_inv_def mem_pending_def)
    have others: "u = ?u" if "dget (ms_pending (gw_storage s)) u = Some ?key" for u
      using assms(1) closed(2) that by (auto simp: gateway_inv_def mem_pending_def)
    show ?thesis
    proof (cases rule: produce_cases [of "uploaded_msg (ge_env G) jb j" ?s1])
      case sent
      then have "s' = ?s1\<lparr>rs_log := rs_log s @ [uploaded_msg (ge_env G) jb j], rs_faults := tl (rs_faults s)\<rparr>"
        using closed(3) by simp
      with assms(1) known fresh others show ?thesis
        unfolding res snd_conv gateway_inv_def
        by (auto simp: mem_pending_def object_exists_def closed_upload_def uploaded_msg_count)
    next
      case (full fs)
      then have "s' = ?s1\<lparr>rs_faults := fs\<rparr>" using closed(3) by simp
      with assms(1) show ?thesis
        unfolding res snd_conv gateway_inv_def
        by (auto simp: mem_pending_def object_exists_def closed_upload_def)
    qed
  qed
qed

lemma get_job_state [simp]: "snd (get_job G a j s) = s"
  by (auto simp: get_job_def ebind_def lift_result_def gets_def raise_def ret_def
      split: sum.splits option.splits)

lemma serve_inv: "gateway_inv s \<Longrightarrow> env_ok (ge_env G) \<Longrightarrow> gateway_inv (snd (serve G r s))"
  by (cases r) (simp_all add: create_upload_inv complete_upload_inv)

lemma serve_all_inv: "gateway_inv s \<Longrightarrow> env_ok (ge_env G) \<Longrightarrow> gateway_inv (serve_all G rs s)"
  unfolding serve_all_def by (induction rs arbitrary: s) (simp_all add: serve_inv)

text \<open>
  C21. Whatever requests the gateway serves, in whatever order, and whichever of its produce
  calls fail: for every job at most one \<open>firmware.uploaded\<close> event is emitted, and once it is,
  the job has its row and its object exists.
\<close>

theorem uploaded_at_most_once:
  fixes fs :: "bool list" and rs :: "request list"
  assumes "env_ok (ge_env G)"
  defines "s \<equiv> serve_all G rs (gateway_start\<lparr>rs_faults := fs\<rparr>)"
  shows "uploaded j (rs_log s) \<le> 1 \<and>
    (uploaded j (rs_log s) = 1 \<longrightarrow>
       object_exists (raw_object_key j) (gw_storage s) \<and> jobs_get j (gw_jobs s) \<noteq> None)"
proof -
  have "gateway_inv (gateway_start\<lparr>rs_faults := fs\<rparr>)"
    using gateway_inv_start by (simp add: gateway_inv_def)
  then have "gateway_inv s" unfolding s_def using assms(1) by (rule serve_all_inv)
  then show ?thesis by (auto simp: gateway_inv_def jobs_get_def dget_None_iff)
qed

section \<open>An upload cycle\<close>

lemma part_numbers_created [simp]: "map pp_part_number (created_parts G key u n) = [1..n]"
  by (simp add: created_parts_def comp_def)

text \<open>
  An upload cycle. An authorized \<open>POST /uploads\<close> with an acceptable body creates the job
  row with status \<open>UPLOADED\<close> for the caller, opens an upload whose parts are numbered from 1 to
  the requested count, and emits nothing. Completing it with that id and any acceptable parts
  creates the object and emits one event, for this job and this uploader; a second completion
  with the same id is refused with 400 and changes nothing.
\<close>

theorem upload_cycle:
  fixes s :: "'z gateway_state_scheme"
  assumes E: "env_ok (ge_env G)"
    and auth: "require (ge_jwt G) (ge_os G) ''upload'' a = Inr claims"
      "require (ge_jwt G) (ge_os G) ''upload'' b = Inr claims'"
    and req: "create_request_ok req" "complete_request_ok \<lparr>rq_upload_id = u, rq_parts = parts\<rparr>"
    and j: "j = ge_uuid G (ms_uuids (gw_storage s))" "j \<notin> set (dkeys (gw_jobs s))"
    and u: "u = uuid_hex (ge_uuid G (ms_uuids (gw_storage s) + 1))"
    and up: "rs_faults s = []"
  defines "jb \<equiv> new_job G claims j" and "key \<equiv> raw_object_key j"
    and "finish \<equiv> complete_upload G b j \<lparr>rq_upload_id = u, rq_parts = parts\<rparr>"
  shows "\<exists>ps (s1 :: 'z gateway_state_scheme) s2.
    create_upload G a req s = (Inr (Created j key u ps), s1) \<and>
    map pp_part_number ps = [1..rq_part_count req] \<and>
    jobs_get j (gw_jobs s1) = Some jb \<and> rs_log s1 = rs_log s \<and>
    finish s1 = (Inr (Completed j STATUS_UPLOADED True), s2) \<and>
    object_exists key (gw_storage s2) \<and> rs_log s2 = rs_log s @ [uploaded_msg (ge_env G) jb j] \<and>
    finish s2 = (Inl (HTTPException 400), s2)"
proof -
  let ?st = "gw_storage s"
  let ?s1 = "s\<lparr>gw_storage := ?st\<lparr>ms_uuids := ms_uuids ?st + 2, ms_pending := dset u key (ms_pending ?st)\<rparr>,
               gw_jobs := dset j jb (gw_jobs s)\<rparr>"
  let ?ps = "created_parts G key u (rq_part_count req)"
  let ?s2 = "?s1\<lparr>gw_storage := closed_upload key u (gw_storage ?s1),
                rs_log := rs_log s @ [uploaded_msg (ge_env G) jb j]\<rparr>"
  have 1: "create_upload G a req s = (Inr (Created j key u ?ps), ?s1)"
    using auth(1) req(1) j(2) unfolding create_upload_eq j(1) u key_def jb_def
    by (simp add: Let_def)
  have 2: "finish ?s1 = (Inr (Completed j STATUS_UPLOADED True), ?s2)"
    using auth(2) req(2) up unfolding finish_def complete_upload_eq [OF E]
    by (simp add: produce_def key_def jb_def new_job_def)
  have 3: "finish ?s2 = (Inl (HTTPException 400), ?s2)"
    using auth(2) req(2) unfolding finish_def complete_upload_eq [OF E]
    by (simp add: closed_upload_def)
  show ?thesis
  proof (intro exI conjI)
    show "create_upload G a req s = (Inr (Created j key u ?ps), ?s1)" by (rule 1)
    show "finish ?s1 = (Inr (Completed j STATUS_UPLOADED True), ?s2)" by (rule 2)
    show "finish ?s2 = (Inl (HTTPException 400), ?s2)" by (rule 3)
  qed (simp_all add: jobs_get_def object_exists_def closed_upload_def)
qed

section \<open>A completion whose event is lost\<close>

lemma closed_stays_closed:
  fixes r :: request
  assumes "env_ok (ge_env G)" "j \<in> set (dkeys (gw_jobs s))"
    "\<And>u. mem_pending (gw_storage s) u \<noteq> Some (raw_object_key j)"
  defines "s' \<equiv> snd (serve G r s)"
  shows "uploaded j (rs_log s') = uploaded j (rs_log s) \<and> j \<in> set (dkeys (gw_jobs s')) \<and>
    (\<forall>u. mem_pending (gw_storage s') u \<noteq> Some (raw_object_key j))"
proof (cases r)
  case (PostUploads a req)
  then show ?thesis
    using assms(2,3) unfolding s'_def
    by (auto simp: create_upload_eq Let_def mem_pending_def split: sum.splits)
next
  case (GetJob a i)
  then show ?thesis using assms(2,3) by (simp add: s'_def)
next
  case (PostComplete a i req)
  obtain x where res: "complete_upload G a i req s = (x, s')"
    unfolding s'_def PostComplete serve.simps by (metis prod.collapse)
  from assms(1) res show ?thesis
  proof (cases rule: complete_upload_cases)
    case same
    then show ?thesis using assms(2,3) by simp
  next
    case (closed jb r1)
    let ?s1 = "s\<lparr>gw_storage := closed_upload (raw_object_key i) (rq_upload_id req) (gw_storage s)\<rparr>"
    have "i \<noteq> j" using closed(2) assms(3) by (auto simp: mem_pending_def)
    then show ?thesis
      using assms(2,3) closed(3)
      by (cases rule: produce_cases [of "uploaded_msg (ge_env G) jb i" ?s1])
        (auto simp: mem_pending_def closed_upload_def uploaded_msg_count)
  qed
qed

text \<open>
  The storage upload is completed before the event is produced. When the produce call of
  a completion raises, the object is in storage and the upload id is used up: no sequence of
  later requests, retries of the completion included, ever emits the event for this job.
\<close>

theorem failed_emit_is_final:
  assumes "env_ok (ge_env G)" "gateway_inv s"
    and "complete_upload G a j req s = (Inl ProduceError, s')"
  shows "object_exists (raw_object_key j) (gw_storage s') \<and>
    uploaded j (rs_log (serve_all G rs s')) = 0"
proof -
  let ?s1 = "s\<lparr>gw_storage := closed_upload (raw_object_key j) (rq_upload_id req) (gw_storage s)\<rparr>"
  from assms(1,3) obtain jb r1 where jb: "dget (gw_jobs s) j = Some jb"
    and pend: "dget (ms_pending (gw_storage s)) (rq_upload_id req) = Some (raw_object_key j)"
    and prod: "produce (uploaded_msg (ge_env G) jb j) ?s1 = (r1, s')"
    by (cases rule: complete_upload_cases) auto
  have "r1 = Inl ProduceError"
    using assms(3) prod jb pend
    by (auto simp: complete_upload_eq [OF assms(1)] require_no_produce_error split: sum.splits if_splits)
  with prod have res: "produce (uploaded_msg (ge_env G) jb j) ?s1 = (Inl ProduceError, s')" by simp
  have fresh: "uploaded j (rs_log s) = 0"
    using assms(2) pend by (auto simp: gateway_inv_def mem_pending_def)
  have others: "u = rq_upload_id req" if "dget (ms_pending (gw_storage s)) u = Some (raw_object_key j)" for u
    using assms(2) pend that by (auto simp: gateway_inv_def mem_pending_def)
  have known: "j \<in> set (dkeys (gw_jobs s))" using jb by (metis dget_None_iff option.distinct(1))
  have "j \<in> set (dkeys (gw_jobs s')) \<and> (\<forall>u. mem_pending (gw_storage s') u \<noteq> Some (raw_object_key j)) \<and>
      uploaded j (rs_log s') = 0 \<and> object_exists (raw_object_key j) (gw_storage s')"
    using res known fresh others
    by (cases rule: produce_cases [of "uploaded_msg (ge_env G) jb j" ?s1])
      (auto simp: mem_pending_def closed_upload_def object_exists_def)
  moreover have "uploaded j (rs_log (serve_all G rs t)) = 0"
    if "j \<in> set (dkeys (gw_jobs t))" "\<forall>u. mem_pending (gw_storage t) u \<noteq> Some (raw_object_key j)"
      "uploaded j (rs_log t) = 0" for t :: "'a gateway_state_scheme"
    using that
  proof (induction rs arbitrary: t)
    case (Cons r rs)
    then show ?case
      using closed_stays_closed [OF assms(1), of j t r] by (simp add: serve_all_def)
  qed (simp add: serve_all_def)
  ultimately show ?thesis by blast
qed

section \<open>Who may change the state\<close>

fun credential :: "request \<Rightarrow> string option" where
  "credential (PostUploads a r) = a"
| "credential (PostComplete a j r) = a"
| "credential (GetJob a j) = a"

lemma require_Inr:
  assumes "jwt_secret os = Some secret" "secret \<noteq> []"
  shows "require W os permission a = Inr claims \<longleftrightarrow>
    (\<exists>t role. bearer_token a = Some t \<and> t \<noteq> [] \<and>
       decode_jwt W t secret [getenv os ''JWT_ALGORITHM'' ''HS256''] = Inr claims \<and>
       require_permission claims permission = Inr role)"
proof -
  have "request_claims W os a = Inr c \<longleftrightarrow>
      (\<exists>t. bearer_token a = Some t \<and> t \<noteq> [] \<and>
        decode_jwt W t secret [getenv os ''JWT_ALGORITHM'' ''HS256''] = Inr c)" for c
    using assms
    by (auto simp: request_claims_def auth_enabled_def verify_token_def split: option.splits sum.splits exn.splits)
  moreover have "require W os permission a = Inr claims \<longleftrightarrow>
      request_claims W os a = Inr claims \<and> (\<exists>role. require_permission claims permission = Inr role)"
    by (auto simp: require_def rbind_def split: sum.splits exn.splits)
  ultimately show ?thesis by blast
qed

lemma unauthorized_changes_nothing:
  assumes "require (ge_jwt G) (ge_os G) ''upload'' (credential r) = Inl e"
  shows "snd (serve G r s) = s"
  using assms by (cases r) (simp_all add: create_upload_def complete_upload_def ebind_def lift_result_def)

text \<open>
  C22. With a JWT secret configured, a request that changes anything - jobs, uploads, objects,
  events - carries a bearer token of three parts whose signature is the HMAC of its first two
  under the secret, whose claims have not expired and whose role is admin or analyst.
\<close>

theorem state_change_authorized:
  assumes "jwt_secret (ge_os G) = Some secret" "secret \<noteq> []" "snd (serve G r s) \<noteq> s"
  shows "\<exists>t h p sig d role.
    bearer_token (credential r) = Some t \<and> split_on (CHR ''.'') t = [h, p, sig] \<and>
    b64url_decode sig = Inr (jw_hmac (ge_jwt G) secret (h @ ''.'' @ p)) \<and>
    loads_segment (ge_jwt G) p = Some (JObj d) \<and> unexpired (ge_jwt G) d \<and>
    jget d ''role'' = JStr role \<and> role \<in> {''admin'', ''analyst''}"
proof -
  obtain claims where "require (ge_jwt G) (ge_os G) ''upload'' (credential r) = Inr claims"
    using assms(3) unauthorized_changes_nothing by (metis sumE)
  then obtain t role where t: "bearer_token (credential r) = Some t"
    and dec: "decode_jwt (ge_jwt G) t secret [getenv (ge_os G) ''JWT_ALGORITHM'' ''HS256''] = Inr claims"
    and perm: "require_permission claims ''upload'' = Inr role"
    by (auto simp: require_Inr [OF assms(1,2)])
  from perm obtain d where d: "claims = JObj d" "jget d ''role'' = JStr role"
      "role \<in> set ROLES" "has_permission role ''upload''"
    by (auto simp: require_permission_Inr)
  then have "role \<in> {''admin'', ''analyst''}" by (auto simp: ROLES_def permissions_of)
  with t d dec show ?thesis unfolding decode_jwt_accepts by blast
qed

section \<open>A gateway run\<close>

definition sample_gateway :: "environ \<Rightarrow> gateway_env" where
  "sample_gateway os =
     \<lparr>ge_env = sample_env, ge_jwt = sample_jwt, ge_os = os,
      ge_uuid = (\<lambda>n. ''id-'' @ nat_str n), ge_base = None, ge_repr = (\<lambda>j. ''{}'')\<rparr>"

definition sample_create :: create_upload_request where
  "sample_create = \<lparr>rq_filename = ''fw.bin'', rq_size_bytes = 10, rq_part_count = 2\<rparr>"

definition sample_parts :: "completed_part list" where
  "sample_parts = [\<lparr>cp_part_number = 2, cp_etag = ''b''\<rparr>, \<lparr>cp_part_number = 1, cp_etag = ''a''\<rparr>]"

definition sample_complete :: complete_upload_request where
  "sample_complete = \<lparr>rq_upload_id = ''id1'', rq_parts = sample_parts\<rparr>"

definition sample_requests :: "request list" where
  "sample_requests =
     [PostUploads None sample_create, PostComplete None ''id-0'' sample_complete,
      PostComplete None ''id-0'' sample_complete]"

lemma sample_requests_ok [simp]: "create_request_ok sample_create" "complete_request_ok sample_complete"
  by (simp_all add: create_request_ok_def sample_create_def complete_request_ok_def sample_complete_def
      sample_parts_def)

lemma sample_auth:
  "require sample_jwt [] ''upload'' None = Inr (JObj [(''sub'', JStr ''dev''), (''role'', JStr ''admin'')])"
  by (simp add: require_def request_claims_def auth_enabled_def jwt_secret_def require_permission_def
      role_of_def jget_def ROLES_def permissions_of)

lemma sample_gateway_simps [simp]:
  "ge_env (sample_gateway os) = sample_env" "ge_jwt (sample_gateway os) = sample_jwt"
  "ge_os (sample_gateway os) = os" "ge_uuid (sample_gateway os) n = ''id-'' @ nat_str n"
  by (simp_all add: sample_gateway_def)

lemma sample_gateway_ok: "env_ok (ge_env (sample_gateway os))"
  by (simp add: sample_env_ok)

lemma sample_names [simp]:
  "nat_str 0 = ''0''" "nat_str (Suc 0) = ''1''" "uuid_hex ''id-1'' = ''id1''"
  by code_simp+

definition sample_job :: job where
  "sample_job = \<lparr>jb_job_id = ''id-0'', jb_status = ''UPLOADED'', jb_uploaded_by = ''dev'',
     jb_created_at = ''now'', jb_completed_at = None\<rparr>"

definition sample_created :: "bool list \<Rightarrow> gateway_state" where
  "sample_created fs = gateway_start\<lparr>rs_faults := fs,
     gw_storage := \<lparr>ms_pending = [(''id1'', raw_object_key ''id-0'')], ms_objects = [], ms_uuids = 2\<rparr>,
     gw_jobs := [(''id-0'', sample_job)]\<rparr>"

lemma sample_create_run:
  "snd (create_upload (sample_gateway []) None sample_create (gateway_start\<lparr>rs_faults := fs\<rparr>)) =
     sample_created fs"
  by (simp add: create_upload_eq sample_auth gateway_start_def sample_created_def new_job_def
      sample_job_def subject_def STATUS_UPLOADED_def sample_env_def Let_def)

lemma sample_complete_run:
  "complete_upload (sample_gateway []) None ''id-0'' sample_complete (sample_created []) =
     (Inr (Completed ''id-0'' ''UPLOADED'' True),
      (sample_created [])\<lparr>gw_storage := closed_upload (raw_object_key ''id-0'') ''id1'' (gw_storage (sample_created [])),
        rs_log := [uploaded_msg sample_env sample_job ''id-0'']\<rparr>)"
  by (simp add: complete_upload_eq [OF sample_gateway_ok] sample_auth sample_created_def gateway_start_def
      sample_complete_def sample_parts_def complete_request_ok_def produce_def sample_job_def)

theorem uploaded_at_most_once_witness:
  "uploaded ''id-0'' (rs_log (serve_all (sample_gateway []) sample_requests (gateway_start\<lparr>rs_faults := []\<rparr>))) \<le> 1"
  using uploaded_at_most_once [OF sample_gateway_ok] by blast

lemma sample_created_inv: "gateway_inv (sample_created fs)"
  by (simp add: gateway_inv_def sample_created_def gateway_start_def mem_pending_def)

theorem failed_emit_is_final_witness:
  "uploaded ''id-0'' (rs_log (serve_all (sample_gateway []) sample_requests
     ((sample_created [])\<lparr>gw_storage :=
        closed_upload (raw_object_key ''id-0'') ''id1'' (gw_storage (sample_created []))\<rparr>))) = 0"
proof -
  have "complete_upload (sample_gateway []) None ''id-0'' sample_complete (sample_created [True]) =
      (Inl ProduceError, (sample_created [])\<lparr>gw_storage :=
        closed_upload (raw_object_key ''id-0'') ''id1'' (gw_storage (sample_created []))\<rparr>)"
    by (simp add: complete_upload_eq [OF sample_gateway_ok] sample_auth sample_created_def gateway_start_def
        sample_complete_def sample_parts_def complete_request_ok_def produce_def)
  then show ?thesis
    using failed_emit_is_final [OF sample_gateway_ok sample_created_inv] by blast
qed

theorem upload_cycle_witness:
  "\<exists>ps (s1 :: gateway_state) s2.
    create_upload (sample_gateway []) None sample_create gateway_start =
      (Inr (Created ''id-0'' (raw_object_key ''id-0'') ''id1'' ps), s1) \<and>
    map pp_part_number ps = [1, 2] \<and>
    complete_upload (sample_gateway []) None ''id-0'' sample_complete s1 =
      (Inr (Completed ''id-0'' ''UPLOADED'' True), s2) \<and>
    rs_log s2 = [uploaded_msg sample_env sample_job ''id-0'']"
proof -
  have auth: "require (ge_jwt (sample_gateway [])) (ge_os (sample_gateway [])) ''upload'' None =
      Inr (JObj [(''sub'', JStr ''dev''), (''role'', JStr ''admin'')])"
    by (simp add: sample_auth)
  have ok: "complete_request_ok \<lparr>rq_upload_id = ''id1'', rq_parts = sample_parts\<rparr>"
    using sample_requests_ok(2) by (simp add: sample_complete_def)
  have parts: "[1..rq_part_count sample_create] = [1, 2]"
    unfolding sample_create_def by code_simp
  have job: "new_job (sample_gateway []) (JObj [(''sub'', JStr ''dev''), (''role'', JStr ''admin'')]) ''id-0'' = sample_job"
    by (simp add: new_job_def sample_job_def subject_def sample_env_def STATUS_UPLOADED_def)
  have start: "ms_uuids (gw_storage gateway_start) = 0" "gw_jobs gateway_start = []"
      "rs_faults gateway_start = []" "rs_log gateway_start = []"
    by (simp_all add: gateway_start_def)
  show ?thesis
    using upload_cycle [OF sample_gateway_ok auth auth sample_requests_ok(1) ok refl, of "gateway_start"]
    unfolding start parts by (simp add: job sample_complete_def STATUS_UPLOADED_def, elim exE conjE, intro exI conjI)
qed


text \<open>A signed analyst token, as a request carries it.\<close>

lemma sample_token:
  assumes "has_permission ''analyst'' p"
  shows "require sample_jwt [(''JWT_SECRET'', ''k'')] p (Some ''Bearer aA.Yw.ay9hQS5Zdw'') = Inr (JObj sample_claims)"
proof -
  have tok: "bearer_token (Some ''Bearer aA.Yw.ay9hQS5Zdw'') = Some ''aA.Yw.ay9hQS5Zdw''"
    "split_on (CHR ''.'') ''aA.Yw.ay9hQS5Zdw'' = [''aA'', ''Yw'', ''ay9hQS5Zdw'']"
    "b64url_decode ''aA'' = Inr ''h''" "b64url_decode ''Yw'' = Inr ''c''"
    "b64url_decode ''ay9hQS5Zdw'' = Inr ''k/aA.Yw''"
    by code_simp+
  have "decode_jwt sample_jwt ''aA.Yw.ay9hQS5Zdw'' ''k'' [''HS256''] = Inr (JObj sample_claims)"
    unfolding decode_jwt_accepts
    by (intro exI [of _ "''aA''"] exI [of _ "''Yw''"] exI [of _ "''ay9hQS5Zdw''"])
      (simp add: tok loads_segment_def sample_jwt_ok(3), simp add: sample_jwt_def jwt_header_def jget_def)
  then show ?thesis
    using assms
    by (subst require_Inr [of _ "''k''"])
      (auto simp: jwt_secret_def tok getenv_def require_permission_Inr sample_claims_def jget_def ROLES_def permissions_of)
qed

theorem state_change_authorized_witness:
  "\<exists>t h p sig d role.
    bearer_token (Some ''Bearer aA.Yw.ay9hQS5Zdw'') = Some t \<and> split_on (CHR ''.'') t = [h, p, sig] \<and>
    b64url_decode sig = Inr (jw_hmac sample_jwt ''k'' (h @ ''.'' @ p)) \<and>
    loads_segment sample_jwt p = Some (JObj d) \<and> unexpired sample_jwt d \<and>
    jget d ''role'' = JStr role \<and> role \<in> {''admin'', ''analyst''}"
proof -
  let ?os = "[(''JWT_SECRET'', ''k'')]"
  have "require sample_jwt ?os ''upload'' (Some ''Bearer aA.Yw.ay9hQS5Zdw'') = Inr (JObj sample_claims)"
    by (rule sample_token) (simp add: permissions_of)
  then have "snd (serve (sample_gateway ?os)
      (PostUploads (Some ''Bearer aA.Yw.ay9hQS5Zdw'') sample_create) gateway_start) \<noteq> gateway_start"
    by (simp add: create_upload_eq Let_def gateway_start_def)
  from state_change_authorized [OF _ _ this, of "''k''"] show ?thesis
    by (simp add: jwt_secret_def)
qed

end
