(* ===== verification/NvdEtl.thy ===== *)
theory NvdEtl
  imports Corpus
begin

text \<open>
  The loading of the CVE corpus (\<open>services/cve_matching/nvd_etl.py\<close>) and the statements of the
  pgvector store it loads (\<open>PgVectorCorpus\<close> in \<open>corpus.py\<close>): reading NVD 2.0 documents, paging
  through the API, scoping, embedding, batched upserts. The lemmas show when paging ends, that
  the batch size does not matter, that a re-run changes nothing, and that the two stores answer
  an exact lookup alike on normalized CPEs.
\<close>

section \<open>Reading JSON values\<close>

text \<open>\<open>for x in v\<close> and \<open>v.get(k, d)\<close> on a decoded value.\<close>

fun json_iter :: "json \<Rightarrow> json list result" where
  "json_iter (JList js) = Inr js"
| "json_iter (JObj d) = Inr (map (\<lambda>(k, v). JStr k) d)"
| "json_iter (JStr s) = Inr (map (\<lambda>c. JStr [c]) s)"
| "json_iter _ = Inl (TypeError ''object is not iterable'')"

fun get_or :: "json \<Rightarrow> string \<Rightarrow> json \<Rightarrow> json result" where
  "get_or (JObj d) k v = Inr (case dget d k of None \<Rightarrow> v | Some w \<Rightarrow> w)"
| "get_or _ k v = Inl (AttributeError ''get'')"

text \<open>Identifiers, descriptions and criteria are strings; other values are outside the model.\<close>

fun as_text :: "json \<Rightarrow> string result" where
  "as_text (JStr s) = Inr s"
| "as_text _ = Inl (AttributeError ''strip'')"

section \<open>NVD documents\<close>

fun is_dict :: "json \<Rightarrow> bool" where
  "is_dict (JObj d) = True"
| "is_dict _ = False"

definition has_key :: "string \<Rightarrow> json \<Rightarrow> bool" where
  "has_key k j = (dget (json_obj j) k \<noteq> None)"

definition iter_cve_objects :: "json \<Rightarrow> json list result" where
  "iter_cve_objects nvd_json =
     (case nvd_json of
        JList items \<Rightarrow>
          Inr (map (\<lambda>item. if has_key ''cve'' item then jget (json_obj item) ''cve'' else item)
                 (filter is_dict items))
      | _ \<Rightarrow>
          rbind (get_or nvd_json ''vulnerabilities'' (JList [])) (\<lambda>v.
          rbind (json_iter v) (\<lambda>items.
          Inr (map (\<lambda>item. jget (json_obj item) ''cve'') (filter (has_key ''cve'') items)))))"

fun english :: "json list \<Rightarrow> json option result" where
  "english [] = Inr None"
| "english (d # ds) =
     rbind (get_or d ''lang'' JNull) (\<lambda>lang.
       if lang = JStr ''en'' then rbind (get_or d ''value'' (JStr [])) (\<lambda>v. Inr (Some v))
       else english ds)"

definition description_of :: "json \<Rightarrow> json result" where
  "description_of cve =
     rbind (get_or cve ''descriptions'' (JList [])) (\<lambda>descs.
     rbind (json_iter descs) (\<lambda>ds.
     rbind (english ds) (\<lambda>found.
       case found of
         Some v \<Rightarrow> Inr v
       | None \<Rightarrow> (case ds of [] \<Rightarrow> Inr (JStr []) | d # _ \<Rightarrow> get_or d ''value'' (JStr [])))))"

text \<open>A loop over \<open>o.get(k, [])\<close> that collects what its body appends.\<close>

fun collect :: "(json \<Rightarrow> 'a list result) \<Rightarrow> json list \<Rightarrow> 'a list result" where
  "collect f [] = Inr []"
| "collect f (j # js) = rbind (f j) (\<lambda>xs. rbind (collect f js) (\<lambda>ys. Inr (xs @ ys)))"

definition each_of :: "string \<Rightarrow> (json \<Rightarrow> 'a list result) \<Rightarrow> json \<Rightarrow> 'a list result" where
  "each_of k f j = rbind (get_or j k (JList [])) (\<lambda>v. rbind (json_iter v) (collect f))"

definition cpes_of :: "json \<Rightarrow> json list result" where
  "cpes_of cve =
     each_of ''configurations'' (each_of ''nodes'' (each_of ''cpeMatch'' (\<lambda>cm.
       rbind (get_or cm ''criteria'' JNull) (\<lambda>crit. Inr (if truthy crit then [crit] else []))))) cve"

fun set_embeddings :: "cve_record list \<Rightarrow> vec list \<Rightarrow> cve_record list" where
  "set_embeddings (r # rs) (v # vs) = r\<lparr>cr_embedding := Some v\<rparr> # set_embeddings rs vs"
| "set_embeddings rs _ = rs"

definition scoped_records :: "string \<Rightarrow> string \<Rightarrow> string list \<Rightarrow> cve_record list" where
  "scoped_records cve_id description cpes =
     map (\<lambda>c. \<lparr>cr_cve_id = cve_id, cr_cpe_string = c, cr_description = description,
               cr_family = family_for_cpe c, cr_embedding = None\<rparr>) (in_scope_cpes cpes)"

definition cve_id_of :: "json \<Rightarrow> json result" where
  "cve_id_of cve =
     rbind (get_or cve ''id'' JNull) (\<lambda>i. if truthy i then Inr i else get_or cve ''cve_id'' JNull)"

definition records_from_cve :: "(string list \<Rightarrow> vec list result) \<Rightarrow> json \<Rightarrow> cve_record list result" where
  "records_from_cve encode_batch cve =
     rbind (cve_id_of cve) (\<lambda>i.
     if \<not> truthy i then Inr []
     else
       rbind (description_of cve) (\<lambda>d.
       rbind (cpes_of cve) (\<lambda>cs.
       rbind (collect (\<lambda>c. rbind (as_text c) (\<lambda>s. Inr [s])) cs) (\<lambda>cpes.
       rbind (as_text i) (\<lambda>cve_id.
       rbind (as_text d) (\<lambda>description.
       let records = scoped_records cve_id description cpes in
       if records = [] then Inr []
       else rbind (encode_batch (map corpus_text records)) (\<lambda>vectors.
         Inr (set_embeddings records vectors))))))))"

section \<open>ingest_cves\<close>

record etl_result =
  et_cves_seen :: nat
  et_records_upserted :: nat
  et_families :: "(string option, nat) dict"

definition count_family :: "cve_record \<Rightarrow> (string option, nat) dict \<Rightarrow> (string option, nat) dict" where
  "count_family r families =
     dset (cr_family r) ((case dget families (cr_family r) of None \<Rightarrow> 0 | Some n \<Rightarrow> n) + 1) families"

record etl_progress =
  ep_result :: etl_result
  ep_batch :: "cve_record list"

text \<open>\<open>flush\<close>; \<open>put\<close> is the repository's \<open>upsert\<close>.\<close>

definition flush :: "(cve_record list \<Rightarrow> ('s, nat) eff) \<Rightarrow> etl_progress \<Rightarrow> ('s, etl_progress) eff" where
  "flush put p =
     (if ep_batch p = [] then ret p
      else ebind (put (ep_batch p)) (\<lambda>n.
        ret \<lparr>ep_result = (ep_result p)\<lparr>et_records_upserted := et_records_upserted (ep_result p) + n\<rparr>,
             ep_batch = []\<rparr>))"

definition see_cve :: "cve_record list \<Rightarrow> etl_progress \<Rightarrow> etl_progress" where
  "see_cve recs p =
     \<lparr>ep_result = (ep_result p)\<lparr>et_cves_seen := et_cves_seen (ep_result p) + 1,
        et_families := foldl (\<lambda>fs r. count_family r fs) (et_families (ep_result p)) recs\<rparr>,
      ep_batch = ep_batch p @ recs\<rparr>"

fun ingest_loop ::
  "(cve_record list \<Rightarrow> ('s, nat) eff) \<Rightarrow> (json \<Rightarrow> cve_record list result) \<Rightarrow> int \<Rightarrow> json list \<Rightarrow>
   etl_progress \<Rightarrow> ('s, etl_progress) eff" where
  "ingest_loop put records batch_size [] p = ret p"
| "ingest_loop put records batch_size (cve # cves) p =
     ebind (lift_result (records cve)) (\<lambda>recs.
       let p = see_cve recs p in
       ebind (if batch_size \<le> int (length (ep_batch p)) then flush put p else ret p) (\<lambda>p.
       ingest_loop put records batch_size cves p))"

text \<open>
  The stream of CVEs may end in an exception of the fetcher (\<open>stream_error\<close>), which then
  leaves \<open>ingest_cves\<close> before the last flush.
\<close>

definition ingest_cves ::
  "(cve_record list \<Rightarrow> ('s, nat) eff) \<Rightarrow> (json \<Rightarrow> cve_record list result) \<Rightarrow> int \<Rightarrow>
   json list \<times> exn option \<Rightarrow> ('s, etl_result) eff" where
  "ingest_cves put records batch_size stream =
     ebind (ingest_loop put records batch_size (fst stream)
        \<lparr>ep_result = \<lparr>et_cves_seen = 0, et_records_upserted = 0, et_families = []\<rparr>, ep_batch = []\<rparr>) (\<lambda>p.
     case snd stream of
       Some e \<Rightarrow> raise e
     | None \<Rightarrow> ebind (flush put p) (\<lambda>p. ret (ep_result p)))"

section \<open>Paging\<close>

text \<open>
  The parameters of a request; \<open>window\<close> holds the two dates of an incremental refresh. The
  inner loop yields the CVEs of a page until \<open>max_records\<close> is reached.
\<close>

definition page_params :: "payload \<Rightarrow> int \<Rightarrow> int \<Rightarrow> payload" where
  "page_params window results_per_page start_index =
     [(''resultsPerPage'', JInt results_per_page), (''startIndex'', JInt start_index)] @ window"

fun yield_page :: "int option \<Rightarrow> int \<Rightarrow> json list \<Rightarrow> json list \<times> int \<times> bool" where
  "yield_page max_records start_index [] = ([], start_index, False)"
| "yield_page max_records start_index (cve # cves) =
     (let start_index = start_index + 1 in
      if (case max_records of None \<Rightarrow> False | Some m \<Rightarrow> m \<le> start_index)
      then ([cve], start_index, True)
      else case yield_page max_records start_index cves of
        (ys, i, stop) \<Rightarrow> (cve # ys, i, stop))"

text \<open>\<open>total is not None and start_index >= total\<close>; the comparison needs a number.\<close>

fun past_total :: "json \<Rightarrow> int \<Rightarrow> bool result" where
  "past_total JNull i = Inr False"
| "past_total (JInt n) i = Inr (n \<le> i)"
| "past_total (JFloat x) i = Inr (x \<le> of_int i)"
| "past_total (JBool b) i = Inr ((if b then 1 else 0) \<le> i)"
| "past_total _ i = Inl (TypeError '''>=' not supported'')"

text \<open>
  The loop need not end, so it is a partial function: \<open>None\<close> is a generator that yields
  forever. \<open>n\<close> numbers the calls of \<open>fetch\<close>.
\<close>

partial_function (option) fetch_loop ::
  "(nat \<Rightarrow> payload \<Rightarrow> json result) \<Rightarrow> payload \<Rightarrow> int \<Rightarrow> int option \<Rightarrow> nat \<Rightarrow> json \<Rightarrow> int \<Rightarrow> json list \<Rightarrow>
   (json list \<times> exn option) option" where
  "fetch_loop fetch window per_page max_records n tot start_index acc =
     (case fetch n (page_params window per_page start_index) of
        Inl e \<Rightarrow> Some (acc, Some e)
      | Inr page \<Rightarrow>
          (case (if tot = JNull then get_or page ''totalResults'' JNull else Inr tot) of
             Inl e \<Rightarrow> Some (acc, Some e)
           | Inr tot \<Rightarrow>
               (case iter_cve_objects page of
                  Inl e \<Rightarrow> Some (acc, Some e)
                | Inr cves \<Rightarrow>
                    (case yield_page max_records start_index cves of
                       (ys, start_index, stop) \<Rightarrow>
                         if stop \<or> ys = [] then Some (acc @ ys, None)
                         else
                           (case past_total tot start_index of
                              Inl e \<Rightarrow> Some (acc @ ys, Some e)
                            | Inr past \<Rightarrow>
                                if past then Some (acc @ ys, None)
                                else fetch_loop fetch window per_page max_records (n + 1) tot
                                       start_index (acc @ ys))))))"

definition fetch_nvd ::
  "(nat \<Rightarrow> payload \<Rightarrow> json result) \<Rightarrow> int \<Rightarrow> string option \<Rightarrow> string option \<Rightarrow> int option \<Rightarrow>
   (json list \<times> exn option) option" where
  "fetch_nvd fetch results_per_page last_mod_start last_mod_end max_records =
     fetch_loop fetch
       ((case last_mod_start of None \<Rightarrow> [] | Some t \<Rightarrow> [(''lastModStartDate'', JStr t)]) @
        (case last_mod_end of None \<Rightarrow> [] | Some t \<Rightarrow> [(''lastModEndDate'', JStr t)]))
       results_per_page max_records 0 JNull 0 []"

section \<open>Drivers\<close>

text \<open>
  \<open>schema\<close> is \<open>repo.ensure_schema()\<close>. A run returns nothing when the generator yields
  forever.
\<close>

definition run_etl ::
  "('s, unit) eff \<Rightarrow> (cve_record list \<Rightarrow> ('s, nat) eff) \<Rightarrow> (string list \<Rightarrow> vec list result) \<Rightarrow>
   (json list \<times> exn option) option \<Rightarrow> 's \<Rightarrow> (etl_result result \<times> 's) option" where
  "run_etl schema put encode_batch cves s =
     (case schema s of
        (Inl e, s) \<Rightarrow> Some (Inl e, s)
      | (Inr _, s) \<Rightarrow>
          map_option (\<lambda>stream. ingest_cves put (records_from_cve encode_batch) 200 stream s) cves)"

definition run_full_etl ::
  "('s, unit) eff \<Rightarrow> (cve_record list \<Rightarrow> ('s, nat) eff) \<Rightarrow> (string list \<Rightarrow> vec list result) \<Rightarrow>
   (nat \<Rightarrow> payload \<Rightarrow> json result) \<Rightarrow> int option \<Rightarrow> 's \<Rightarrow> (etl_result result \<times> 's) option" where
  "run_full_etl schema put encode_batch fetch max_records =
     run_etl schema put encode_batch (fetch_nvd fetch 2000 None None max_records)"

definition run_incremental_refresh ::
  "('s, unit) eff \<Rightarrow> (cve_record list \<Rightarrow> ('s, nat) eff) \<Rightarrow> (string list \<Rightarrow> vec list result) \<Rightarrow>
   (nat \<Rightarrow> payload \<Rightarrow> json result) \<Rightarrow> string \<Rightarrow> string option \<Rightarrow> 's \<Rightarrow> (etl_result result \<times> 's) option" where
  "run_incremental_refresh schema put encode_batch fetch since until =
     run_etl schema put encode_batch (fetch_nvd fetch 2000 (Some since) until None)"

text \<open>One run of the scheduled job: a failure is logged and the thread goes on.\<close>

definition refresh_job ::
  "('s, unit) eff \<Rightarrow> (cve_record list \<Rightarrow> ('s, nat) eff) \<Rightarrow> (string list \<Rightarrow> vec list result) \<Rightarrow>
   (nat \<Rightarrow> payload \<Rightarrow> json result) \<Rightarrow> string \<Rightarrow> 's \<Rightarrow> 's option" where
  "refresh_job schema put encode_batch fetch since s =
     map_option snd (run_incremental_refresh schema put encode_batch fetch since None s)"

section \<open>The pgvector store\<close>

text \<open>
  The table \<open>cve_corpus\<close> with its primary key, under the statements of \<open>PgVectorCorpus\<close>:
  \<open>INSERT \<dots> ON CONFLICT DO UPDATE\<close> row by row in autocommit mode, the exact lookup with SQL
  equality, the count. A row without an embedding raises, after the rows before it were
  written.
\<close>

definition pg_upsert_row :: "cve_record \<Rightarrow> corpus_rows \<Rightarrow> corpus_rows" where
  "pg_upsert_row r rows =
     (case dget rows (cve_key r) of
        None \<Rightarrow> rows @ [(cve_key r, r)]
      | Some old \<Rightarrow>
          dset (cve_key r)
            (old\<lparr>cr_description := cr_description r, cr_family := cr_family r,
                 cr_embedding := cr_embedding r\<rparr>) rows)"

definition embedded :: "cve_record \<Rightarrow> bool" where
  "embedded r = (cr_embedding r \<noteq> None \<and> cr_embedding r \<noteq> Some [])"

fun pg_upsert_loop :: "cve_record list \<Rightarrow> (corpus_rows, unit) eff" where
  "pg_upsert_loop [] rows = (Inr (), rows)"
| "pg_upsert_loop (r # rs) rows =
     (if \<not> embedded r then (Inl (ValueError ''the ETL must embed before upsert''), rows)
      else pg_upsert_loop rs (pg_upsert_row r rows))"

definition pg_upsert :: "cve_record list \<Rightarrow> (corpus_rows, nat) eff" where
  "pg_upsert records =
     (if records = [] then ret 0
      else ebind (pg_upsert_loop records) (\<lambda>_. ret (length records)))"

definition pg_exact_cpe_lookup :: "corpus_rows \<Rightarrow> string \<Rightarrow> cve_record list" where
  "pg_exact_cpe_lookup rows cpe_string =
     map (\<lambda>r. r\<lparr>cr_embedding := None\<rparr>) (filter (\<lambda>r. cr_cpe_string r = cpe_string) (map snd rows))"

definition pg_count :: "corpus_rows \<Rightarrow> nat" where
  "pg_count rows = length rows"

text \<open>The in-memory store as the ETL sees it.\<close>

definition mem_put :: "cve_record list \<Rightarrow> (corpus_rows, nat) eff" where
  "mem_put records rows = (case upsert records rows of (n, rows) \<Rightarrow> (Inr n, rows))"

section \<open>The two stores agree\<close>

lemma pg_upsert_row_eq:
  assumes "corpus_ok rows"
  shows "pg_upsert_row r rows = dset (cve_key r) r rows"
proof (cases "dget rows (cve_key r)")
  case None
  then have "cve_key r \<notin> set (dkeys rows)" by (simp only: dget_None_iff not_False_eq_True)
  with None show ?thesis by (simp add: pg_upsert_row_def dset_fresh)
next
  case (Some old)
  then have "cve_key old = cve_key r"
    using assms map_of_SomeD [OF Some] by (auto simp: corpus_ok_def)
  then have "old\<lparr>cr_description := cr_description r, cr_family := cr_family r,
      cr_embedding := cr_embedding r\<rparr> = r"
    by (simp add: cve_key_def)
  with Some show ?thesis by (simp add: pg_upsert_row_def)
qed

lemma dset_corpus_ok: "corpus_ok rows \<Longrightarrow> corpus_ok (dset (cve_key r) r rows)"
  using upsert_ok [of rows "[r]"] by (simp add: upsert_def)

lemma pg_upsert_loop_eq:
  "corpus_ok rows \<Longrightarrow> list_all embedded rs \<Longrightarrow> pg_upsert_loop rs rows = (Inr (), snd (upsert rs rows))"
  by (induction rs arbitrary: rows) (simp_all add: upsert_def pg_upsert_row_eq dset_corpus_ok)

lemma pg_upsert_eq:
  "corpus_ok rows \<Longrightarrow> list_all embedded rs \<Longrightarrow> pg_upsert rs rows = mem_put rs rows"
  by (auto simp: pg_upsert_def mem_put_def pg_upsert_loop_eq eff_defs upsert_def)

lemma mem_pg_lookup:
  assumes "list_all (\<lambda>r. lower (cr_cpe_string r) = cr_cpe_string r) (map snd rows)" "lower (strip c) = c"
  shows "pg_exact_cpe_lookup rows c = map (\<lambda>r. r\<lparr>cr_embedding := None\<rparr>) (exact_cpe_lookup rows c)"
proof -
  have "filter (\<lambda>r. cr_cpe_string r = c) (map snd rows) =
      filter (\<lambda>r. lower (cr_cpe_string r) = lower (strip c)) (map snd rows)"
    using assms by (intro filter_cong) (auto simp: list_all_iff)
  then show ?thesis by (simp add: pg_exact_cpe_lookup_def exact_cpe_lookup_def Let_def)
qed

lemma dset_values: "snd ` set (dset k x rows) \<subseteq> insert x (snd ` set rows)"
  by (induction rows) auto

lemma upsert_values: "snd ` set (snd (upsert rs rows)) \<subseteq> snd ` set rows \<union> set rs"
proof (induction rs arbitrary: rows)
  case (Cons x xs)
  have "snd (upsert (x # xs) rows) = snd (upsert xs (dset (cve_key x) x rows))"
    by (simp add: upsert_def)
  then show ?case
    using Cons.IH [of "dset (cve_key x) x rows"] dset_values [of "cve_key x" x rows] by auto
qed (simp add: upsert_def)

text \<open>
  The pgvector store refines the in-memory one. On a table that respects its primary key,
  upserting a batch of embedded records has the same result and leaves the same rows; and when
  the stored CPEs are lower case, an exact lookup of a lower-case stripped CPE returns the same
  rows, without their embeddings.
\<close>

theorem pg_refines_memory:
  assumes "corpus_ok rows" "list_all embedded rs"
    and "list_all (\<lambda>r. lower (cr_cpe_string r) = cr_cpe_string r) (map snd rows @ rs)"
    and "lower (strip c) = c"
  shows "pg_upsert rs rows = mem_put rs rows \<and>
    pg_exact_cpe_lookup (snd (pg_upsert rs rows)) c =
      map (\<lambda>r. r\<lparr>cr_embedding := None\<rparr>) (exact_cpe_lookup (snd (mem_put rs rows)) c)"
proof -
  have "list_all (\<lambda>r. lower (cr_cpe_string r) = cr_cpe_string r) (map snd (snd (upsert rs rows)))"
    unfolding list_all_iff
  proof
    fix r
    assume "r \<in> set (map snd (snd (upsert rs rows)))"
    then have "r \<in> set (map snd rows @ rs)" using upsert_values [of rs rows] by auto
    then show "lower (cr_cpe_string r) = cr_cpe_string r" using assms(3) by (simp only: list_all_iff)
  qed
  moreover have "snd (mem_put rs rows) = snd (upsert rs rows)"
    by (simp add: mem_put_def split: prod.splits)
  ultimately show ?thesis
    using assms(1,2,4) by (simp add: pg_upsert_eq mem_pg_lookup)
qed

text \<open>The premise about case is needed: in memory the lookup folds case, in SQL it does not.\<close>

lemma lookup_case_differs:
  defines "r \<equiv> \<lparr>cr_cve_id = ''C'', cr_cpe_string = ''CPE:X'', cr_description = [], cr_family = None,
             cr_embedding = Some [1]\<rparr>"
  shows "exact_cpe_lookup [(cve_key r, r)] ''cpe:x'' = [r]" "pg_exact_cpe_lookup [(cve_key r, r)] ''cpe:x'' = []"
proof -
  have "lower ''CPE:X'' = ''cpe:x''" "lower (strip ''cpe:x'') = ''cpe:x''" by code_simp+
  then show "exact_cpe_lookup [(cve_key r, r)] ''cpe:x'' = [r]" "pg_exact_cpe_lookup [(cve_key r, r)] ''cpe:x'' = []"
    by (simp_all add: r_def exact_cpe_lookup_def pg_exact_cpe_lookup_def)
qed

section \<open>Batching\<close>

definition progress_after :: "etl_progress \<Rightarrow> nat \<Rightarrow> cve_record list \<Rightarrow> etl_progress" where
  "progress_after p n recs =
     \<lparr>ep_result =
        \<lparr>et_cves_seen = et_cves_seen (ep_result p) + n,
         et_records_upserted = et_records_upserted (ep_result p) + length (ep_batch p @ recs),
         et_families = foldl (\<lambda>fs r. count_family r fs) (et_families (ep_result p)) recs\<rparr>,
      ep_batch = []\<rparr>"

lemma mem_flush: "flush mem_put p rows = (Inr (progress_after p 0 []), snd (upsert (ep_batch p) rows))"
  by (cases p; cases "ep_result p")
    (simp add: flush_def eff_defs mem_put_def progress_after_def upsert_def)

lemma upsert_append: "snd (upsert ys (snd (upsert xs rows))) = snd (upsert (xs @ ys) rows)"
  by (simp add: upsert_def)

lemma ingest_loop_flush:
  "collect records cves = Inr recs \<Longrightarrow>
    ebind (ingest_loop mem_put records b cves p) (flush mem_put) rows =
      (Inr (progress_after p (length cves) recs), snd (upsert (ep_batch p @ recs) rows))"
proof (induction cves arbitrary: p rows recs)
  case Nil
  then show ?case by (simp add: ebind_def ret_def mem_flush)
next
  case (Cons cve cves)
  then obtain xs ys where xs: "records cve = Inr xs" and ys: "collect records cves = Inr ys" "recs = xs @ ys"
    by auto
  let ?p = "see_cve xs p"
  have step: "ebind (ingest_loop mem_put records b (cve # cves) p) (flush mem_put) rows =
      (if b \<le> int (length (ep_batch ?p))
       then ebind (ingest_loop mem_put records b cves (progress_after ?p 0 [])) (flush mem_put)
              (snd (upsert (ep_batch ?p) rows))
       else ebind (ingest_loop mem_put records b cves ?p) (flush mem_put) rows)"
    by (simp add: ebind_def lift_result_def xs Let_def mem_flush ret_def)
  show ?case
    unfolding step Cons.IH [OF ys(1)]
    by (simp add: progress_after_def see_cve_def ys(2) upsert_append)
qed

text \<open>
  C25. Loading a stream of CVEs that all can be read stores exactly their scoped records, last
  one wins, and reports how many CVEs were seen, how many records were written and how many
  per family - whatever the batch size. Loading the same stream again changes no row.
\<close>

theorem ingest_cves_batches:
  assumes "collect records cves = Inr recs"
  shows "ingest_cves mem_put records b (cves, None) rows =
      (Inr \<lparr>et_cves_seen = length cves, et_records_upserted = length recs,
            et_families = foldl (\<lambda>fs r. count_family r fs) [] recs\<rparr>, snd (upsert recs rows)) \<and>
    corpus_row k (snd (ingest_cves mem_put records b' (cves, None) (snd (upsert recs rows)))) =
      corpus_row k (snd (upsert recs rows))"
proof -
  have run: "ingest_cves mem_put records b (cves, None) rows =
      (Inr \<lparr>et_cves_seen = length cves, et_records_upserted = length recs,
            et_families = foldl (\<lambda>fs r. count_family r fs) [] recs\<rparr>, snd (upsert recs rows))" for b rows
  proof -
    let ?p = "\<lparr>ep_result = \<lparr>et_cves_seen = 0, et_records_upserted = 0, et_families = []\<rparr>, ep_batch = []\<rparr>"
    have "ingest_cves mem_put records b (cves, None) rows =
        ebind (ebind (ingest_loop mem_put records b cves ?p) (flush mem_put)) (\<lambda>p. ret (ep_result p)) rows"
      by (simp add: ingest_cves_def ebind_def split: prod.splits sum.splits)
    also have "\<dots> = (Inr (ep_result (progress_after ?p (length cves) recs)), snd (upsert recs rows))"
      by (simp add: ebind_def ingest_loop_flush [OF assms, unfolded ebind_def] ret_def)
    finally show ?thesis by (simp add: progress_after_def)
  qed
  show ?thesis by (simp add: run mem_corpus.put_again)
qed

section \<open>When paging ends\<close>

declare fetch_loop.simps [code]

lemma yield_page_facts:
  "yield_page m i cves = (ys, i', stop) \<Longrightarrow>
    i' = i + int (length ys) \<and> i' \<le> i + int (length cves) \<and>
    (\<forall>k. m = Some k \<longrightarrow> (\<not> stop \<longrightarrow> ys \<noteq> [] \<longrightarrow> i' < k) \<and> i' \<le> max (i + 1) k)"
proof (induction cves arbitrary: i ys i' stop)
  case (Cons c cves)
  show ?case
  proof (cases "\<exists>k. m = Some k \<and> k \<le> i + 1")
    case True
    with Cons.prems show ?thesis by (auto simp: Let_def)
  next
    case False
    obtain zs j st where rest: "yield_page m (i + 1) cves = (zs, j, st)" by (metis prod_cases3)
    with False Cons.prems have out: "ys = c # zs" "i' = j" "stop = st"
      by (auto simp: Let_def split: option.splits if_splits)
    have IH: "j = i + 1 + int (length zs)" "j \<le> i + 1 + int (length cves)"
      "m = Some k \<Longrightarrow> (\<not> st \<longrightarrow> zs \<noteq> [] \<longrightarrow> j < k) \<and> j \<le> max (i + 2) k" for k
      using Cons.IH [OF rest] by (auto simp: add.assoc)
    have "(\<not> st \<longrightarrow> j < k) \<and> j \<le> max (i + 1) k" if k: "m = Some k" for k
    proof (cases "zs = []")
      case True
      then show ?thesis using False k IH(1) by auto
    next
      case ne: False
      then show ?thesis using False k IH(3) [OF k] by auto
    qed
    with out IH(1,2) show ?thesis by auto
  qed
qed auto

lemma yield_page_advances:
  assumes "yield_page m i cves = (ys, i', stop)"
  shows "i' = i + int (length ys)" "m = Some k \<Longrightarrow> \<not> stop \<Longrightarrow> ys \<noteq> [] \<Longrightarrow> i' < k"
    "m = Some k \<Longrightarrow> i' \<le> max (i + 1) k"
  using yield_page_facts [OF assms] by auto

text \<open>
  What bounds the paging: the caller's \<open>max_records\<close>, or a total that the server reports on
  every page.
\<close>

definition total_reported :: "int \<Rightarrow> json \<Rightarrow> bool" where
  "total_reported B page =
     (case get_or page ''totalResults'' JNull of Inr (JInt t) \<Rightarrow> t \<le> B | Inl e \<Rightarrow> True | _ \<Rightarrow> False)"

lemma total_reportedD:
  "total_reported B page \<Longrightarrow> get_or page ''totalResults'' JNull = Inr t \<Longrightarrow> \<exists>n \<le> B. t = JInt n"
  by (cases t) (auto simp: total_reported_def)

lemma fetch_loop_ends:
  assumes "(\<exists>m \<le> B. max_records = Some m) \<or>
      (\<forall>n ps page. fetch n ps = Inr page \<longrightarrow> total_reported B page) \<and>
      (tot = JNull \<or> (\<exists>t \<le> B. tot = JInt t))"
  shows "\<exists>r. fetch_loop fetch window per_page max_records n tot i acc = Some r \<and>
    (\<forall>m. max_records = Some m \<longrightarrow> int (length (fst r)) \<le> int (length acc) + max 1 (m - i))"
  using assms
proof (induction "nat (B - i)" arbitrary: n tot i acc rule: less_induct)
  case less
  show ?case
  proof (cases "fetch n (page_params window per_page i)")
    case (Inl e)
    then show ?thesis by (subst fetch_loop.simps) (simp add: le_max_iff_disj)
  next
    case page: (Inr page)
    show ?thesis
    proof (cases "if tot = JNull then get_or page ''totalResults'' JNull else Inr tot")
      case (Inl e)
      with page show ?thesis by (subst fetch_loop.simps) (simp add: le_max_iff_disj)
    next
      case tot: (Inr tot')
      show ?thesis
      proof (cases "iter_cve_objects page")
        case (Inl e)
        with page tot show ?thesis by (subst fetch_loop.simps) (simp add: le_max_iff_disj)
      next
        case items: (Inr cves)
        obtain ys i' stop where y: "yield_page max_records i cves = (ys, i', stop)"
          by (metis prod_cases3)
        have i': "i' = i + int (length ys)" using yield_page_advances(1) [OF y] .
        have bound: "int (length (acc @ ys)) \<le> int (length acc) + max 1 (m - i)"
          if "max_records = Some m" for m
          using yield_page_advances(3) [OF y that] i' by auto
        show ?thesis
        proof (cases "stop \<or> ys = []")
          case True
          with page tot items y bound show ?thesis by (subst fetch_loop.simps) auto
        next
          case False
          show ?thesis
          proof (cases "past_total tot' i'")
            case (Inl e)
            with page tot items y False bound show ?thesis by (subst fetch_loop.simps) auto
          next
            case past: (Inr past)
            show ?thesis
            proof (cases past)
              case True
              with past page tot items y False bound show ?thesis by (subst fetch_loop.simps) auto
            next
              case more: False
              have total: "(\<exists>m \<le> B. max_records = Some m) \<or>
                  (\<forall>n ps page. fetch n ps = Inr page \<longrightarrow> total_reported B page) \<and>
                  (tot' = JNull \<or> (\<exists>t \<le> B. tot' = JInt t)) \<and> (\<exists>t \<le> B. tot' = JInt t)"
                using less.prems tot page total_reportedD [of B page tot'] by (auto split: if_splits)
              have "i' < B"
              proof (cases "\<exists>m \<le> B. max_records = Some m")
                case True
                then show ?thesis using yield_page_advances(2) [OF y] False by force
              next
                case no_max: False
                then show ?thesis using total past more by auto
              qed
              with False i' have "nat (B - i') < nat (B - i)" by auto
              moreover have "(\<exists>m \<le> B. max_records = Some m) \<or>
                  (\<forall>n ps page. fetch n ps = Inr page \<longrightarrow> total_reported B page) \<and>
                  (tot' = JNull \<or> (\<exists>t \<le> B. tot' = JInt t))"
                using total by meson
              ultimately have "\<exists>r. fetch_loop fetch window per_page max_records (n + 1) tot' i' (acc @ ys) = Some r \<and>
                  (\<forall>m. max_records = Some m \<longrightarrow> int (length (fst r)) \<le> int (length (acc @ ys)) + max 1 (m - i'))"
                by (rule less.hyps)
              then obtain r where r: "fetch_loop fetch window per_page max_records (n + 1) tot' i' (acc @ ys) = Some r"
                "\<forall>m. max_records = Some m \<longrightarrow> int (length (fst r)) \<le> int (length (acc @ ys)) + max 1 (m - i')"
                by blast
              have le: "int (length (acc @ ys)) + max 1 (m - i') \<le> int (length acc) + max 1 (m - i)"
                if "max_records = Some m" for m
                using yield_page_advances(2) [OF y that] False i' by auto
              have eq: "fetch_loop fetch window per_page max_records n tot i acc =
                  fetch_loop fetch window per_page max_records (n + 1) tot' i' (acc @ ys)"
                using page tot items y False past more by (subst fetch_loop.simps) simp
              show ?thesis
              proof (intro exI [of _ r] conjI allI impI)
                show "fetch_loop fetch window per_page max_records n tot i acc = Some r"
                  using eq r(1) by (rule trans)
                show "int (length (fst r)) \<le> int (length acc) + max 1 (m - i)" if "max_records = Some m" for m
                  using r(2) that le [OF that] by (blast intro: order_trans)
              qed
            qed
          qed
        qed
      qed
    qed
  qed
qed

text \<open>
  C24. Paging through the API ends: with a \<open>max_records\<close> whatever the server answers, yielding
  at most that many CVEs (and never fewer than the one it has in hand), and without it as soon
  as every page reports the total, bounded by some number.
\<close>

theorem fetch_nvd_terminates:
  assumes "max_records \<noteq> None \<or> (\<forall>n ps page. fetch n ps = Inr page \<longrightarrow> total_reported B page)"
  shows "\<exists>cves err. fetch_nvd fetch per_page since until max_records = Some (cves, err) \<and>
    (\<forall>m. max_records = Some m \<longrightarrow> int (length cves) \<le> max 1 m)"
proof -
  let ?B = "case max_records of None \<Rightarrow> B | Some m \<Rightarrow> m"
  let ?w = "(case since of None \<Rightarrow> [] | Some t \<Rightarrow> [(''lastModStartDate'', JStr t)]) @
        (case until of None \<Rightarrow> [] | Some t \<Rightarrow> [(''lastModEndDate'', JStr t)])"
  have "(\<exists>m \<le> ?B. max_records = Some m) \<or>
      (\<forall>n ps page. fetch n ps = Inr page \<longrightarrow> total_reported ?B page) \<and>
      (JNull = JNull \<or> (\<exists>t \<le> ?B. JNull = JInt t))"
    using assms by (cases max_records) auto
  from fetch_loop_ends [OF this, of ?w per_page 0 0 "[]"]
  show ?thesis unfolding fetch_nvd_def by fastforce
qed

text \<open>
  Without either bound it need not: a server that answers every request with the same page and
  reports no total is asked for ever.
\<close>

lemma fetch_nvd_diverges:
  assumes "\<And>n ps. fetch n ps = Inr (JObj [(''vulnerabilities'', JList [JObj [(''cve'', c)]])])"
  shows "fetch_nvd fetch per_page since until None = None"
proof -
  let ?page = "JObj [(''vulnerabilities'', JList [JObj [(''cve'', c)]])]"
  have step: "iter_cve_objects ?page = Inr [c]" "get_or ?page ''totalResults'' JNull = Inr JNull"
    by (simp_all add: iter_cve_objects_def has_key_def jget_def)
  have "m = None \<longrightarrow> tot = JNull \<longrightarrow> f = fetch \<longrightarrow> False"
    if "fetch_loop f w p m n tot i acc = Some r" for f w p m n tot i acc r
  proof (rule fetch_loop.raw_induct [OF _ that,
      where P = "\<lambda>f w p m n tot i acc r. m = None \<longrightarrow> tot = JNull \<longrightarrow> f = fetch \<longrightarrow> False"])
    fix loop f w p m n tot i acc r
    assume IH: "\<And>f w p m n tot i acc r. loop f w p m n tot i acc = Some r \<Longrightarrow>
        m = None \<longrightarrow> tot = JNull \<longrightarrow> f = fetch \<longrightarrow> False"
      and run: "(case f n (page_params w p i) of
        Inl e \<Rightarrow> Some (acc, Some e)
      | Inr page \<Rightarrow>
          (case (if tot = JNull then get_or page ''totalResults'' JNull else Inr tot) of
             Inl e \<Rightarrow> Some (acc, Some e)
           | Inr tot \<Rightarrow>
               (case iter_cve_objects page of
                  Inl e \<Rightarrow> Some (acc, Some e)
                | Inr cves \<Rightarrow>
                    (case yield_page m i cves of
                       (ys, start_index, stop) \<Rightarrow>
                         if stop \<or> ys = [] then Some (acc @ ys, None)
                         else
                           (case past_total tot start_index of
                              Inl e \<Rightarrow> Some (acc @ ys, Some e)
                            | Inr past \<Rightarrow>
                                if past then Some (acc @ ys, None)
                                else loop f w p m (n + 1) tot start_index (acc @ ys)))))) = Some r"
    show "m = None \<longrightarrow> tot = JNull \<longrightarrow> f = fetch \<longrightarrow> False"
      using run IH [of fetch w p None "n + 1" JNull "i + 1" "acc @ [c]" r]
      by (auto simp: assms step Let_def)
  qed
  then show ?thesis unfolding fetch_nvd_def by (metis option.exhaust)
qed

section \<open>Scoping\<close>

lemma in_scope_foldl:
  "set (foldl (\<lambda>seen c. if family_for_cpe c \<noteq> None then push_new (strip c) seen else seen) acc cs) =
     set acc \<union> strip ` {c \<in> set cs. family_for_cpe c \<noteq> None}"
  "distinct (foldl (\<lambda>seen c. if family_for_cpe c \<noteq> None then push_new (strip c) seen else seen) acc cs) =
     distinct acc"
  by (induction cs arbitrary: acc) auto

lemma set_in_scope: "set (in_scope_cpes cs) = strip ` {c \<in> set cs. family_for_cpe c \<noteq> None}"
  unfolding in_scope_cpes_def in_scope_foldl by simp

lemma distinct_in_scope: "distinct (in_scope_cpes cs)"
  unfolding in_scope_cpes_def in_scope_foldl by simp

lemma family_for_cpe_strip: "family_for_cpe c \<noteq> None \<Longrightarrow> family_for_cpe (strip c) = family_for_cpe c"
proof -
  assume "family_for_cpe c \<noteq> None"
  then have "parse_cpe c \<noteq> None" by (auto simp: family_for_cpe_def split: option.splits)
  then have c: "c \<noteq> []" by (auto simp: parse_cpe_def)
  show ?thesis
  proof (cases "strip c = []")
    case True
    then have "parse_cpe c = None" by (simp add: parse_cpe_def Let_def c starts_with_def)
    with \<open>parse_cpe c \<noteq> None\<close> show ?thesis by simp
  next
    case False
    then have "parse_cpe (strip c) = parse_cpe c" by (simp add: parse_cpe_def c strip_idem)
    then show ?thesis by (simp add: family_for_cpe_def)
  qed
qed

lemma as_text_Inr: "as_text j = Inr s \<longleftrightarrow> j = JStr s"
  by (cases j) auto

lemma set_embeddings_fields:
  "map cr_cpe_string (set_embeddings rs vs) = map cr_cpe_string rs"
  "map cr_cve_id (set_embeddings rs vs) = map cr_cve_id rs"
  "map cr_family (set_embeddings rs vs) = map cr_family rs"
  by (induction rs vs rule: set_embeddings.induct) simp_all

lemma set_embeddings_all:
  "length vs = length rs \<Longrightarrow> map cr_embedding (set_embeddings rs vs) = map Some vs"
  by (induction rs vs rule: set_embeddings.induct) simp_all

lemma collect_texts [simp]: "collect (\<lambda>c. rbind (as_text c) (\<lambda>s. Inr [s])) (map JStr cs) = Inr cs"
  by (induction cs) simp_all

text \<open>
  The corpus holds in-scope CPEs only, and all of them: the records of a CVE with an id are
  one per criterion of a component family the program knows, stripped and without repetition;
  each carries the id, the family of its CPE and, with an encoder that returns one vector per
  text, an embedding.
\<close>

theorem records_from_cve_scoped:
  assumes "records_from_cve encode_batch cve = Inr recs"
    and "\<And>ts vs. encode_batch ts = Inr vs \<Longrightarrow> length vs = length ts \<and> [] \<notin> set vs"
    and "cve_id_of cve = Inr (JStr i)" "i \<noteq> []" "cpes_of cve = Inr (map JStr cs)"
  shows "distinct (map cr_cpe_string recs) \<and>
    set (map cr_cpe_string recs) = strip ` {c \<in> set cs. family_for_cpe c \<noteq> None} \<and>
    (\<forall>r \<in> set recs. cr_cve_id r = i \<and> embedded r \<and> stripped (cr_cpe_string r) \<and>
       cr_family r = family_for_cpe (cr_cpe_string r) \<and> cr_family r \<noteq> None)"
proof (cases "recs = []")
  case False
  with assms(1,3-5) obtain descr vs where vs: "encode_batch (map corpus_text (scoped_records i descr cs)) = Inr vs"
    and recs: "recs = set_embeddings (scoped_records i descr cs) vs"
    by (auto simp: records_from_cve_def Let_def as_text_Inr split: if_splits)
  let ?R = "scoped_records i descr cs"
  have cpes: "map cr_cpe_string recs = in_scope_cpes cs"
    unfolding recs set_embeddings_fields by (simp add: scoped_records_def comp_def)
  have ids: "map cr_cve_id recs = map (\<lambda>c. i) (in_scope_cpes cs)"
    unfolding recs set_embeddings_fields by (simp add: scoped_records_def comp_def)
  have fams: "map cr_family recs = map family_for_cpe (in_scope_cpes cs)"
    unfolding recs set_embeddings_fields by (simp add: scoped_records_def comp_def)
  have vec: "length vs = length ?R" "[] \<notin> set vs" using assms(2) [OF vs] by simp_all
  then have embs: "map cr_embedding recs = map Some vs"
    unfolding recs by (intro set_embeddings_all)
  have "cr_cve_id r = i \<and> embedded r \<and> stripped (cr_cpe_string r) \<and>
      cr_family r = family_for_cpe (cr_cpe_string r) \<and> cr_family r \<noteq> None" if "r \<in> set recs" for r
  proof -
    from that obtain n where n: "n < length recs" "r = recs ! n" by (auto simp: in_set_conv_nth)
    then have c: "cr_cpe_string r = in_scope_cpes cs ! n" "n < length (in_scope_cpes cs)"
      using arg_cong [OF cpes, of "\<lambda>l. l ! n"] arg_cong [OF cpes, of length] by simp_all
    have "cr_cve_id r = i" "cr_family r = family_for_cpe (cr_cpe_string r)"
      using arg_cong [OF ids, of "\<lambda>l. l ! n"] arg_cong [OF fams, of "\<lambda>l. l ! n"] n c by simp_all
    moreover have "cr_cpe_string r \<in> set (in_scope_cpes cs)" using c by simp
    then have "stripped (cr_cpe_string r)" "family_for_cpe (cr_cpe_string r) \<noteq> None"
      unfolding set_in_scope using family_for_cpe_strip by auto
    moreover have "n < length vs" using n arg_cong [OF embs, of length] by simp
    then have "cr_embedding r = Some (vs ! n)" "vs ! n \<noteq> []"
      using arg_cong [OF embs, of "\<lambda>l. l ! n"] n vec(2) by (auto dest: nth_mem)
    ultimately show ?thesis by (simp add: embedded_def)
  qed
  then show ?thesis unfolding cpes set_in_scope using distinct_in_scope by blast
next
  case True
  then have "in_scope_cpes cs = []"
  proof (rule contrapos_pp)
    assume ne: "in_scope_cpes cs \<noteq> []"
    from assms(1,3-5) ne obtain descr vs where "recs = set_embeddings (scoped_records i descr cs) vs"
      by (auto simp: records_from_cve_def Let_def as_text_Inr scoped_records_def split: if_splits)
    then have "map cr_cpe_string recs = in_scope_cpes cs"
      unfolding set_embeddings_fields by (simp add: scoped_records_def comp_def set_embeddings_fields)
    with ne show "recs \<noteq> []" by auto
  qed
  with True show ?thesis using set_in_scope [of cs] by simp
qed

section \<open>A load\<close>

definition sample_cve :: json where
  "sample_cve = JObj
     [(''id'', JStr ''CVE-1''),
      (''descriptions'', JList [JObj [(''lang'', JStr ''en''), (''value'', JStr ''overflow'')]]),
      (''configurations'', JList [JObj [(''nodes'', JList [JObj [(''cpeMatch'', JList
         [JObj [(''criteria'', JStr ''cpe:2.3:a:busybox:busybox:1.2.3'')],
          JObj [(''criteria'', JStr ''cpe:2.3:a:acme:widget:1.0'')]])]])]])]"

definition sample_encode :: "string list \<Rightarrow> vec list result" where
  "sample_encode ts = Inr (map (\<lambda>t. [1, 0]) ts)"

definition sample_record :: cve_record where
  "sample_record =
     \<lparr>cr_cve_id = ''CVE-1'', cr_cpe_string = ''cpe:2.3:a:busybox:busybox:1.2.3'',
      cr_description = ''overflow'', cr_family = Some ''busybox'', cr_embedding = Some [1, 0]\<rparr>"

lemma sample_in_scope:
  "in_scope_cpes [''cpe:2.3:a:busybox:busybox:1.2.3'', ''cpe:2.3:a:acme:widget:1.0''] =
     [''cpe:2.3:a:busybox:busybox:1.2.3'']"
  "family_for_cpe ''cpe:2.3:a:busybox:busybox:1.2.3'' = Some ''busybox''"
  by code_simp+

lemma sample_cpes:
  "cpes_of sample_cve = Inr (map JStr [''cpe:2.3:a:busybox:busybox:1.2.3'', ''cpe:2.3:a:acme:widget:1.0''])"
  "cve_id_of sample_cve = Inr (JStr ''CVE-1'')" "description_of sample_cve = Inr (JStr ''overflow'')"
  by (simp_all add: sample_cve_def cpes_of_def each_of_def cve_id_of_def description_of_def)

lemma sample_records: "records_from_cve sample_encode sample_cve = Inr [sample_record]"
  by (simp add: records_from_cve_def sample_cpes [simplified] Let_def scoped_records_def sample_in_scope
      sample_encode_def sample_record_def)

theorem records_from_cve_scoped_witness:
  "set (map cr_cpe_string [sample_record]) =
     strip ` {c \<in> {''cpe:2.3:a:busybox:busybox:1.2.3'', ''cpe:2.3:a:acme:widget:1.0''}. family_for_cpe c \<noteq> None} \<and>
   embedded sample_record"
  using records_from_cve_scoped [OF sample_records _ sample_cpes(2) _ sample_cpes(1)]
  by (simp add: sample_encode_def image_iff)

theorem ingest_cves_batches_witness:
  "ingest_cves mem_put (records_from_cve sample_encode) 1 ([sample_cve, sample_cve], None) [] =
     (Inr \<lparr>et_cves_seen = 2, et_records_upserted = 2, et_families = [(Some ''busybox'', 2)]\<rparr>,
      [((''CVE-1'', ''cpe:2.3:a:busybox:busybox:1.2.3''), sample_record)])"
proof -
  have "collect (records_from_cve sample_encode) [sample_cve, sample_cve] = Inr [sample_record, sample_record]"
    by (simp add: sample_records)
  from conjunct1 [OF ingest_cves_batches [OF this]] show ?thesis
    by (simp add: upsert_def cve_key_def sample_record_def count_family_def)
qed

theorem pg_refines_memory_witness:
  "pg_upsert [sample_record] [] = (Inr 1, [((''CVE-1'', ''cpe:2.3:a:busybox:busybox:1.2.3''), sample_record)]) \<and>
   pg_exact_cpe_lookup (snd (pg_upsert [sample_record] [])) ''cpe:2.3:a:busybox:busybox:1.2.3'' =
     [sample_record\<lparr>cr_embedding := None\<rparr>]"
proof -
  have low: "lower ''cpe:2.3:a:busybox:busybox:1.2.3'' = ''cpe:2.3:a:busybox:busybox:1.2.3''"
    "lower (strip ''cpe:2.3:a:busybox:busybox:1.2.3'') = ''cpe:2.3:a:busybox:busybox:1.2.3''"
    by code_simp+
  show ?thesis
    using pg_refines_memory [of "[]" "[sample_record]" "''cpe:2.3:a:busybox:busybox:1.2.3''"] low
    by (simp add: corpus_ok_def embedded_def sample_record_def mem_put_def upsert_def cve_key_def
        exact_cpe_lookup_def pg_exact_cpe_lookup_def)
qed

definition sample_fetch :: "nat \<Rightarrow> payload \<Rightarrow> json result" where
  "sample_fetch n ps =
     Inr (JObj [(''totalResults'', JInt 2), (''vulnerabilities'', JList [JObj [(''cve'', sample_cve)]])])"

theorem fetch_nvd_terminates_witness:
  "\<exists>cves err. fetch_nvd sample_fetch 1 None None None = Some (cves, err)"
  using fetch_nvd_terminates [of None sample_fetch 2]
  by (auto simp: sample_fetch_def total_reported_def)

end
