(* ===== verification/JobIndex.thy ===== *)
theory JobIndex
  imports NvdEtl Narrator Reports
begin

text \<open>
  The per-job retrieval index of the chat (\<open>services/integration/job_index.py\<close>): the chunks of
  a report, the manager that builds, queries and tears down one slot per job, the service that
  builds on \<open>firmware.completed\<close>. The lemmas show that jobs are isolated from each other, what
  a sweep removes, and that a query returns the best chunks of its own job.
\<close>

section \<open>Similarity\<close>

text \<open>The module has its own cosine, written as a loop over the indices.\<close>

fun cosine_loop :: "vec \<Rightarrow> vec \<Rightarrow> nat \<Rightarrow> pyfloat \<times> pyfloat \<times> pyfloat" where
  "cosine_loop a b 0 = (0, 0, 0)"
| "cosine_loop a b (Suc i) =
     (case cosine_loop a b i of (dot, na, nb) \<Rightarrow>
        (fadd dot (fmul (a ! i) (b ! i)), fadd na (fmul (a ! i) (a ! i)), fadd nb (fmul (b ! i) (b ! i))))"

definition job_cosine :: "vec \<Rightarrow> vec \<Rightarrow> pyfloat" where
  "job_cosine a b =
     (let n = min (length a) (length b) in
      if n = 0 then 0
      else case cosine_loop a b n of (dot, na, nb) \<Rightarrow>
        if na = 0 \<or> nb = 0 then 0
        else
          let sim = fdiv dot (fmul (fsqrt na) (fsqrt nb))
          in if sim < 0 then 0 else if 1 < sim then 1 else sim)"

lemma cosine_loop_foldl: "cosine_loop a b n = foldl (cos_step a b) (0, 0, 0) [0..<n]"
  by (induction n) (simp_all add: cos_step_def split: prod.splits)

lemma job_cosine_eq: "job_cosine = cosine"
  by (simp add: fun_eq_iff job_cosine_def cosine_def cosine_loop_foldl Let_def)

section \<open>The chunks of a report\<close>

text \<open>\<open>x.get(k, []) or []\<close>, iterated.\<close>

definition each_or_empty :: "payload \<Rightarrow> string \<Rightarrow> json list result" where
  "each_or_empty d k = (if truthy (jget d k) then json_iter (jget d k) else Inr [])"

definition finding_chunk :: "(json \<Rightarrow> string) \<Rightarrow> json \<Rightarrow> string list result" where
  "finding_chunk rep f =
     rbind (get_or f ''cve_id'' JNull) (\<lambda>i.
     rbind (get_or f ''confidence_tier'' JNull) (\<lambda>t.
     rbind (get_or f ''llm_rationale'' JNull) (\<lambda>r.
     (let txt = join '' '' (map (py_text rep) (filter truthy [i, t, r]))
      in Inr (if txt \<noteq> [] then [''Finding: '' @ txt] else [])))))"

definition component_chunk :: "(json \<Rightarrow> string) \<Rightarrow> json \<Rightarrow> string list result" where
  "component_chunk rep c =
     rbind (get_or c ''vendor'' (JStr [])) (\<lambda>v.
     rbind (get_or c ''product'' (JStr [])) (\<lambda>p.
     rbind (get_or c ''version'' (JStr [])) (\<lambda>ver.
     (let ident = strip (py_text rep v @ '' '' @ py_text rep p @ '' '' @ py_text rep ver)
      in Inr (if ident \<noteq> [] then [''Component: '' @ ident] else [])))))"

definition report_chunks :: "(json \<Rightarrow> string) \<Rightarrow> payload \<Rightarrow> string list result" where
  "report_chunks rep report =
     (if report = [] then Inr []
      else
        let summary = jget report ''executive_summary'';
            head = (if truthy summary then [''Executive summary: '' @ py_text rep summary] else [])
        in rbind (rbind (each_or_empty report ''findings'') (collect (finding_chunk rep))) (\<lambda>fs.
           rbind (rbind (each_or_empty report ''components'') (collect (component_chunk rep))) (\<lambda>cs.
           Inr (head @ fs @ cs))))"

definition chunks_from_report :: "(json \<Rightarrow> string) \<Rightarrow> payload option \<Rightarrow> string list \<Rightarrow> string list result" where
  "chunks_from_report rep report extra_strings =
     rbind (case report of None \<Rightarrow> Inr [] | Some r \<Rightarrow> report_chunks rep r) (\<lambda>chunks.
     Inr (chunks @ filter (\<lambda>s. s \<noteq> []) (map strip extra_strings)))"

section \<open>The manager\<close>

record job_index =
  ji_job_id :: string
  ji_entries :: "(string \<times> vec) list"
  ji_created_at :: pyfloat

type_synonym indexes = "(string, job_index) dict"

definition DEFAULT_INDEX_TTL :: int where "DEFAULT_INDEX_TTL = 3600"

definition indexable :: "string \<Rightarrow> bool" where
  "indexable c = (c \<noteq> [] \<and> strip c \<noteq> [])"

fun encode_entries :: "embedder \<Rightarrow> string list \<Rightarrow> (string \<times> vec) list result" where
  "encode_entries emb [] = Inr []"
| "encode_entries emb (c # cs) =
     (if indexable c
      then rbind (em_encode emb c) (\<lambda>v. rbind (encode_entries emb cs) (\<lambda>es. Inr ((c, v) # es)))
      else encode_entries emb cs)"

definition build :: "embedder \<Rightarrow> pyfloat \<Rightarrow> string \<Rightarrow> string list \<Rightarrow> (indexes, nat) eff" where
  "build emb now job_id chunks idx =
     (case encode_entries emb chunks of
        Inl e \<Rightarrow> (Inl e, idx)
      | Inr entries \<Rightarrow>
          (Inr (length entries),
           dset job_id \<lparr>ji_job_id = job_id, ji_entries = entries, ji_created_at = now\<rparr> idx))"

definition teardown :: "string \<Rightarrow> indexes \<Rightarrow> bool \<times> indexes" where
  "teardown job_id idx = (dget idx job_id \<noteq> None, ddel job_id idx)"

definition expired :: "int \<Rightarrow> pyfloat \<Rightarrow> job_index \<Rightarrow> bool" where
  "expired ttl now i = (of_int ttl < fsub now (ji_created_at i))"

definition sweep :: "int \<Rightarrow> pyfloat \<Rightarrow> indexes \<Rightarrow> string list \<times> indexes" where
  "sweep ttl now idx =
     (let gone = map fst (filter (\<lambda>(jid, i). expired ttl now i) idx)
      in (gone, foldl (\<lambda>d jid. snd (teardown jid d)) idx gone))"

definition index_query :: "embedder \<Rightarrow> string \<Rightarrow> string \<Rightarrow> int \<Rightarrow> indexes \<Rightarrow> (string \<times> pyfloat) list result" where
  "index_query emb job_id question top_k idx =
     (case dget idx job_id of
        None \<Rightarrow> Inr []
      | Some i \<Rightarrow>
          if ji_entries i = [] then Inr []
          else rbind (em_encode emb question) (\<lambda>qv.
            Inr (take (nat (max 0 top_k))
              (sort_desc snd (map (\<lambda>(t, v). (t, job_cosine qv v)) (ji_entries i))))))"

definition has_index :: "string \<Rightarrow> indexes \<Rightarrow> bool" where
  "has_index job_id idx = (dget idx job_id \<noteq> None)"

definition index_size :: "string \<Rightarrow> indexes \<Rightarrow> nat" where
  "index_size job_id idx = (case dget idx job_id of None \<Rightarrow> 0 | Some i \<Rightarrow> length (ji_entries i))"

definition active_jobs :: "indexes \<Rightarrow> string list" where
  "active_jobs idx = dkeys idx"

section \<open>The service\<close>

definition build_for_job ::
  "(json \<Rightarrow> string) \<Rightarrow> embedder \<Rightarrow> pyfloat \<Rightarrow> report_docs \<Rightarrow> string \<Rightarrow> (indexes, nat) eff" where
  "build_for_job rep emb now docs job_id =
     ebind (lift_result (chunks_from_report rep (get_report job_id docs) [])) (build emb now job_id)"

text \<open>Job ids of events are strings; a failed build is logged.\<close>

definition index_on_event ::
  "(json \<Rightarrow> string) \<Rightarrow> embedder \<Rightarrow> pyfloat \<Rightarrow> report_docs \<Rightarrow> string \<Rightarrow> payload \<Rightarrow> indexes \<Rightarrow> indexes" where
  "index_on_event rep emb now docs topic payload idx =
     (if topic = FIRMWARE_COMPLETED
      then (case jget payload ''job_id'' of
              JStr job_id \<Rightarrow> if job_id \<noteq> [] then snd (build_for_job rep emb now docs job_id idx) else idx
            | _ \<Rightarrow> idx)
      else idx)"

section \<open>Sweeping\<close>

definition index_ok :: "indexes \<Rightarrow> bool" where
  "index_ok idx \<longleftrightarrow> distinct (dkeys idx) \<and> list_all (\<lambda>(j, i). ji_job_id i = j) idx"

lemma foldl_teardown:
  "dget (foldl (\<lambda>d j. snd (teardown j d)) idx js) k = (if k \<in> set js then None else dget idx k)"
  by (induction js arbitrary: idx) (auto simp: teardown_def)

lemma expired_keys:
  "distinct (dkeys idx) \<Longrightarrow>
    k \<in> set (map fst (filter (\<lambda>(j, i). expired ttl now i) idx)) \<longleftrightarrow>
      (\<exists>i. dget idx k = Some i \<and> expired ttl now i)"
  by (auto simp: image_iff split: prod.splits)

lemma sweep_dget:
  "distinct (dkeys idx) \<Longrightarrow>
    dget (snd (sweep ttl now idx)) k =
      (case dget idx k of None \<Rightarrow> None | Some i \<Rightarrow> if expired ttl now i then None else Some i)"
  unfolding sweep_def Let_def snd_conv foldl_teardown
  by (simp only: expired_keys) (auto dest: eq_key_imp_eq_value split: option.splits)

lemma dset_ok: "index_ok idx \<Longrightarrow> ji_job_id i = j \<Longrightarrow> index_ok (dset j i idx)"
proof (induction idx)
  case (Cons p idx)
  obtain k v where p: "p = (k, v)" by fastforce
  show ?case
  proof (cases "k = j")
    case True
    with Cons.prems p show ?thesis by (auto simp: index_ok_def)
  next
    case False
    have "index_ok idx" using Cons.prems(1) p by (simp add: index_ok_def)
    with Cons.IH Cons.prems(2) have "index_ok (dset j i idx)" by simp
    with False Cons.prems(1) p show ?thesis by (auto simp: index_ok_def)
  qed
qed (simp add: index_ok_def)

lemma ddel_eq_filter: "ddel k d = filter (\<lambda>p. fst p \<noteq> k) d"
  by (induction d) auto

lemma ddel_ok: "index_ok idx \<Longrightarrow> index_ok (ddel j idx)"
  by (auto simp: index_ok_def ddel_eq_filter list_all_iff distinct_map_filter
      intro: distinct_map_filter)

lemma foldl_teardown_ok: "index_ok idx \<Longrightarrow> index_ok (foldl (\<lambda>d j. snd (teardown j d)) idx js)"
  by (induction js arbitrary: idx) (simp_all add: teardown_def ddel_ok)

text \<open>
  A sweep tears down exactly the indexes older than the time to live, reports them, keeps
  every other slot as it is and the manager's invariant (one slot per job, filed under its own
  id); a second sweep at the same time finds nothing to do.
\<close>

theorem sweep_removes_expired:
  assumes "index_ok idx" "sweep ttl now idx = (gone, idx')"
  shows "index_ok idx' \<and> sweep ttl now idx' = ([], idx') \<and>
    (\<forall>j. j \<in> set gone \<longleftrightarrow> (\<exists>i. dget idx j = Some i \<and> expired ttl now i)) \<and>
    (\<forall>j. dget idx' j = (if j \<in> set gone then None else dget idx j))"
proof -
  have dist: "distinct (dkeys idx)" using assms(1) by (simp add: index_ok_def)
  have gone: "gone = map fst (filter (\<lambda>(j, i). expired ttl now i) idx)"
    and idx': "idx' = foldl (\<lambda>d j. snd (teardown j d)) idx gone"
    using assms(2) by (auto simp: sweep_def Let_def)
  have ok: "index_ok idx'" unfolding idx' using assms(1) by (rule foldl_teardown_ok)
  have keys: "j \<in> set gone \<longleftrightarrow> (\<exists>i. dget idx j = Some i \<and> expired ttl now i)" for j
    unfolding gone using dist by (rule expired_keys)
  have rest: "dget idx' j = (if j \<in> set gone then None else dget idx j)" for j
    unfolding idx' by (rule foldl_teardown)
  have "map fst (filter (\<lambda>(j, i). expired ttl now i) idx') = []"
  proof -
    have "j \<notin> set (map fst (filter (\<lambda>(j, i). expired ttl now i) idx'))" for j
      using ok keys rest expired_keys [of idx' j ttl now] by (auto simp: index_ok_def)
    then show ?thesis by (metis list.set_intros(1) neq_Nil_conv)
  qed
  then have "sweep ttl now idx' = ([], idx')" by (simp add: sweep_def Let_def)
  with ok keys rest show ?thesis by blast
qed

section \<open>Isolation of the jobs\<close>

datatype index_op = OpBuild string "string list" | OpTeardown string | OpSweep

fun touches :: "string \<Rightarrow> index_op \<Rightarrow> bool" where
  "touches j (OpBuild i cs) = (i = j)"
| "touches j (OpTeardown i) = (i = j)"
| "touches j OpSweep = False"

fun index_step :: "embedder \<Rightarrow> int \<Rightarrow> pyfloat \<times> index_op \<Rightarrow> indexes \<Rightarrow> indexes" where
  "index_step emb ttl (now, OpBuild j cs) idx = snd (build emb now j cs idx)"
| "index_step emb ttl (now, OpTeardown j) idx = snd (teardown j idx)"
| "index_step emb ttl (now, OpSweep) idx = snd (sweep ttl now idx)"

definition index_run :: "embedder \<Rightarrow> int \<Rightarrow> (pyfloat \<times> index_op) list \<Rightarrow> indexes \<Rightarrow> indexes" where
  "index_run emb ttl ops idx = foldl (\<lambda>d p. index_step emb ttl p d) idx ops"

lemma index_step_ok: "index_ok idx \<Longrightarrow> index_ok (index_step emb ttl p idx)"
  by (cases "(emb, ttl, p, idx)" rule: index_step.cases)
    (auto simp: build_def teardown_def sweep_def Let_def dset_ok ddel_ok
      foldl_teardown_ok [unfolded teardown_def snd_conv] split: sum.splits)

text \<open>Whether an operation at its time leaves the slot \<open>i\<close> of job \<open>j\<close> alone.\<close>

definition spares :: "int \<Rightarrow> string \<Rightarrow> job_index \<Rightarrow> pyfloat \<times> index_op \<Rightarrow> bool" where
  "spares ttl j i p = (\<not> touches j (snd p) \<and> (snd p \<noteq> OpSweep \<or> \<not> expired ttl (fst p) i))"

lemma index_step_spares:
  assumes "index_ok idx" "dget idx j = Some i" "spares ttl j i p"
  shows "dget (index_step emb ttl p idx) j = Some i"
  using assms
  by (cases "(emb, ttl, p, idx)" rule: index_step.cases)
    (auto simp: spares_def build_def teardown_def sweep_dget index_ok_def split: sum.splits)

lemma index_run_spares:
  "index_ok idx \<Longrightarrow> dget idx j = Some i \<Longrightarrow> list_all (spares ttl j i) ops \<Longrightarrow>
    dget (index_run emb ttl ops idx) j = Some i"
  unfolding index_run_def
  by (induction ops arbitrary: idx) (simp_all add: index_step_spares index_step_ok)

lemma encode_entries_texts: "encode_entries emb cs = Inr es \<Longrightarrow> map fst es = filter indexable cs"
  by (induction cs arbitrary: es) (auto split: if_splits)

text \<open>
  C26. Jobs are isolated. After a job's index was built, builds and teardowns for other jobs and
  sweeps within its time to live do not change what a question about it returns: at most
  \<open>top_k\<close> of the job's own indexable chunks, best score first, however many entries the other
  jobs have.
\<close>

theorem query_is_job_scoped:
  assumes "index_ok idx" "build emb t job_id chunks idx = (Inr n, idx1)"
    and "list_all (spares ttl job_id \<lparr>ji_job_id = job_id, ji_entries = es, ji_created_at = t\<rparr>) ops"
    and "encode_entries emb chunks = Inr es"
    and "index_query emb job_id question k (index_run emb ttl ops idx1) = Inr res"
  shows "index_query emb job_id question k idx1 = Inr res \<and>
    length res = min (nat k) (length (filter indexable chunks)) \<and>
    set (map fst res) \<subseteq> set (filter indexable chunks) \<and>
    sorted_wrt (\<lambda>x y. snd y \<le> snd x) res"
proof -
  let ?i = "\<lparr>ji_job_id = job_id, ji_entries = es, ji_created_at = t\<rparr>"
  have idx1: "idx1 = dset job_id ?i idx" using assms(2,4) by (simp add: build_def)
  have slot: "dget idx1 job_id = Some ?i" unfolding idx1 by simp
  have "index_ok idx1" unfolding idx1 using assms(1) by (intro dset_ok) simp_all
  then have kept: "dget (index_run emb ttl ops idx1) job_id = Some ?i"
    using slot assms(3) by (rule index_run_spares)
  have same: "index_query emb job_id question k idx1 = Inr res"
    using assms(5) unfolding index_query_def kept slot by simp
  have texts: "map fst es = filter indexable chunks" using assms(4) by (rule encode_entries_texts)
  show ?thesis
  proof (cases "es = []")
    case True
    then show ?thesis using same texts unfolding index_query_def slot by auto
  next
    case False
    then obtain qv where res: "res = take (nat (max 0 k))
        (sort_desc snd (map (\<lambda>(c, v). (c, job_cosine qv v)) es))"
      using same unfolding index_query_def slot by auto
    let ?s = "sort_desc snd (map (\<lambda>(c, v). (c, job_cosine qv v)) es)"
    have "length es = length (filter indexable chunks)" using texts by (metis length_map)
    then have "length res = min (nat k) (length (filter indexable chunks))"
      unfolding res by (simp add: min.commute)
    moreover have "set (map fst res) \<subseteq> set (filter indexable chunks)"
    proof -
      have "set (map fst res) \<subseteq> fst ` set ?s" unfolding res using set_take_subset by fastforce
      also have "\<dots> = set (map fst es)" by (force simp: image_iff)
      finally show ?thesis by (simp only: texts)
    qed
    moreover have "sorted (map (\<lambda>x. - snd x) ?s)" by (simp add: sort_desc_def)
    then have "sorted_wrt (\<lambda>x y. snd y \<le> snd x) ?s" by (simp add: sorted_wrt_map)
    then have "sorted_wrt (\<lambda>x y. snd y \<le> snd x) res" unfolding res by (rule sorted_wrt_take)
    ultimately show ?thesis using same by blast
  qed
qed

section \<open>Witnesses\<close>

definition sample_embedder :: embedder where
  "sample_embedder = \<lparr>em_encode = (\<lambda>t. Inr (if t = ''telnet'' then [1, 0] else [0, 1]))\<rparr>"

definition sample_index :: "pyfloat \<Rightarrow> string \<Rightarrow> job_index" where
  "sample_index t j =
     \<lparr>ji_job_id = j, ji_entries = [(''ssh'', [0, 1]), (''telnet'', [1, 0])], ji_created_at = t\<rparr>"

lemma sample_sub: "fsub 5000 0 = 5000" "fsub 5000 4000 = 1000" "fsub 50 10 = 40"
  by code_simp+

lemma sample_indexable: "indexable ''ssh''" "indexable ''telnet''" "\<not> indexable '' ''" "indexable ''x''"
  by code_simp+

theorem sweep_removes_expired_witness:
  "sweep 3600 5000 [(''a'', sample_index 0 ''a''), (''b'', sample_index 4000 ''b'')] =
     ([''a''], [(''b'', sample_index 4000 ''b'')]) \<and>
   sweep 3600 5000 [(''b'', sample_index 4000 ''b'')] = ([], [(''b'', sample_index 4000 ''b'')])"
proof -
  have run: "sweep 3600 5000 [(''a'', sample_index 0 ''a''), (''b'', sample_index 4000 ''b'')] =
      ([''a''], [(''b'', sample_index 4000 ''b'')])"
    by (simp add: sweep_def teardown_def expired_def sample_index_def sample_sub)
  moreover have "index_ok [(''a'', sample_index 0 ''a''), (''b'', sample_index 4000 ''b'')]"
    by (simp add: index_ok_def sample_index_def)
  ultimately show ?thesis using sweep_removes_expired by blast
qed

theorem query_is_job_scoped_witness:
  "\<exists>res. index_query sample_embedder ''a'' ''telnet'' 1 [(''a'', sample_index 10 ''a'')] = Inr res \<and>
    length res = 1 \<and> set (map fst res) \<subseteq> {''ssh'', ''telnet''}"
proof -
  let ?es = "[(''ssh'', [0, 1]), (''telnet'', [1, 0])]" and ?ops = "[(20, OpBuild ''b'' [''x'']), (50, OpSweep)]"
  have entries: "encode_entries sample_embedder [''ssh'', '' '', ''telnet''] = Inr ?es"
    by (simp add: sample_embedder_def sample_indexable)
  have build: "build sample_embedder 10 ''a'' [''ssh'', '' '', ''telnet''] [] =
      (Inr 2, [(''a'', sample_index 10 ''a'')])"
    unfolding build_def entries by (simp add: sample_index_def)
  have spared: "list_all (spares 3600 ''a'' \<lparr>ji_job_id = ''a'', ji_entries = ?es, ji_created_at = 10\<rparr>) ?ops"
    by (simp add: spares_def expired_def sample_sub)
  have "dget (index_run sample_embedder 3600 ?ops [(''a'', sample_index 10 ''a'')]) ''a'' =
      Some (sample_index 10 ''a'')"
    using spared by (intro index_run_spares) (simp_all add: index_ok_def sample_index_def)
  then obtain res where "index_query sample_embedder ''a'' ''telnet'' 1
      (index_run sample_embedder 3600 ?ops [(''a'', sample_index 10 ''a'')]) = Inr res"
    by (auto simp: index_query_def sample_index_def sample_embedder_def)
  from query_is_job_scoped [OF _ build spared entries this] show ?thesis
    by (intro exI [of _ res]) (simp add: index_ok_def sample_indexable)
qed

end
