(* ===== verification/Notifier.thy ===== *)
theory Notifier
  imports Gateway
begin

text \<open>
  Live progress (\<open>services/notifier\<close>): the one-slot mailboxes and the hub that fans out to
  them (\<open>hub.py\<close>), the tracker that folds events into snapshots (\<open>progress.py\<close>), the consumer
  callback and the authorization of a socket (\<open>consumer.py\<close>, \<open>app.py\<close>). The lemmas show that a
  mailbox is a latest-wins queue that accounts for every message, that a subscriber is only
  ever handed the newest snapshot of its own job, and what a snapshot counts.
\<close>

section \<open>hub.py: mailboxes\<close>

record 'm mailbox =
  mb_latest :: "'m option"
  mb_has_value :: bool
  mb_event :: bool
  mb_dropped :: nat

definition new_mailbox :: "'m mailbox" where
  "new_mailbox = \<lparr>mb_latest = None, mb_has_value = False, mb_event = False, mb_dropped = 0\<rparr>"

definition mb_offer :: "'m \<Rightarrow> 'm mailbox \<Rightarrow> 'm mailbox" where
  "mb_offer message mb =
     mb\<lparr>mb_dropped := (if mb_has_value mb then mb_dropped mb + 1 else mb_dropped mb),
        mb_latest := Some message, mb_has_value := True, mb_event := True\<rparr>"

text \<open>\<open>None\<close> while \<open>get\<close> still waits for the event.\<close>

definition mb_get :: "'m mailbox \<Rightarrow> ('m option \<times> 'm mailbox) option" where
  "mb_get mb =
     (if mb_event mb then Some (mb_latest mb, mb\<lparr>mb_event := False, mb_has_value := False\<rparr>) else None)"

definition mb_peek :: "'m mailbox \<Rightarrow> 'm option" where
  "mb_peek mb = (if mb_has_value mb then mb_latest mb else None)"

section \<open>hub.py: the hub\<close>

text \<open>
  Mailboxes are objects shared between the hub and the sockets: \<open>hb_boxes\<close> is the heap they
  live in, \<open>hb_subs\<close> the sets of subscribers as lists of references without repetition.
\<close>

record 'm hub =
  hb_subs :: "(string, nat list) dict"
  hb_last :: "(string, 'm) dict"
  hb_boxes :: "(nat, 'm mailbox) dict"
  hb_next :: nat

definition new_hub :: "'m hub" where
  "new_hub = \<lparr>hb_subs = [], hb_last = [], hb_boxes = [], hb_next = 0\<rparr>"

definition subs_of :: "string \<Rightarrow> 'm hub \<Rightarrow> nat list" where
  "subs_of job_id h = (case dget (hb_subs h) job_id of None \<Rightarrow> [] | Some ids \<Rightarrow> ids)"

definition offer_to :: "'m \<Rightarrow> nat \<Rightarrow> (nat, 'm mailbox) dict \<Rightarrow> (nat, 'm mailbox) dict" where
  "offer_to message i boxes =
     (case dget boxes i of None \<Rightarrow> boxes | Some mb \<Rightarrow> dset i (mb_offer message mb) boxes)"

definition subscribe :: "string \<Rightarrow> 'm hub \<Rightarrow> nat \<times> 'm hub" where
  "subscribe job_id h =
     (let i = hb_next h;
          boxes = dset i new_mailbox (hb_boxes h);
          boxes = (case dget (hb_last h) job_id of None \<Rightarrow> boxes | Some m \<Rightarrow> offer_to m i boxes)
      in (i, h\<lparr>hb_next := i + 1, hb_boxes := boxes,
               hb_subs := dset job_id (push_new i (subs_of job_id h)) (hb_subs h)\<rparr>))"

definition unsubscribe :: "string \<Rightarrow> nat \<Rightarrow> 'm hub \<Rightarrow> 'm hub" where
  "unsubscribe job_id i h =
     (let ids = subs_of job_id h in
      if ids = [] then h
      else
        let ids = filter (\<lambda>k. k \<noteq> i) ids
        in h\<lparr>hb_subs := (if ids = [] then ddel job_id (hb_subs h) else dset job_id ids (hb_subs h))\<rparr>)"

definition publish :: "string \<Rightarrow> 'm \<Rightarrow> 'm hub \<Rightarrow> nat \<times> 'm hub" where
  "publish job_id message h =
     (let h = h\<lparr>hb_last := dset job_id message (hb_last h)\<rparr>;
          ids = subs_of job_id h
      in if ids = [] then (0, h)
         else (length ids, h\<lparr>hb_boxes := foldl (\<lambda>boxes i. offer_to message i boxes) (hb_boxes h) ids\<rparr>))"

definition subscriber_count :: "string \<Rightarrow> 'm hub \<Rightarrow> nat" where
  "subscriber_count job_id h = length (subs_of job_id h)"

text \<open>A socket reads its mailbox; nothing happens while it waits.\<close>

definition receive :: "nat \<Rightarrow> 'm hub \<Rightarrow> 'm option \<times> 'm hub" where
  "receive i h =
     (case dget (hb_boxes h) i of
        None \<Rightarrow> (None, h)
      | Some mb \<Rightarrow>
          (case mb_get mb of
             None \<Rightarrow> (None, h)
           | Some (m, mb) \<Rightarrow> (m, h\<lparr>hb_boxes := dset i mb (hb_boxes h)\<rparr>)))"

section \<open>progress.py\<close>

record job_state =
  js_extracted :: nat
  js_analyzed :: nat
  js_matched :: nat
  js_total_events :: nat
  js_status :: string
  js_last_stage :: string

definition new_job_state :: job_state where
  "new_job_state =
     \<lparr>js_extracted = 0, js_analyzed = 0, js_matched = 0, js_total_events = 0,
      js_status = ''in_progress'', js_last_stage = ''uploaded''\<rparr>"

definition STAGE_BY_TOPIC :: "(string, string) dict" where
  "STAGE_BY_TOPIC =
     [(FIRMWARE_UPLOADED, ''uploaded''), (FIRMWARE_TRIAGED, ''triaged''),
      (FIRMWARE_EXTRACTED, ''extracted''), (FIRMWARE_ANALYZED, ''analyzed''),
      (FIRMWARE_MATCHED, ''matched''), (FIRMWARE_COMPLETED, ''completed''),
      (FIRMWARE_DLQ, ''error'')]"

type_synonym job_states = "(string, job_state) dict"

definition state_of :: "string \<Rightarrow> job_states \<Rightarrow> job_state" where
  "state_of job_id jobs = (case dget jobs job_id of None \<Rightarrow> new_job_state | Some st \<Rightarrow> st)"

text \<open>\<open>None\<close> for no client, a missing key or a value that is no integer.\<close>

definition redis_int :: "string \<Rightarrow> redis option \<Rightarrow> int option \<times> redis option" where
  "redis_int key r =
     (case r of
        None \<Rightarrow> (None, None)
      | Some r \<Rightarrow>
          (case r_get key r of (raw, r) \<Rightarrow>
             ((case raw of None \<Rightarrow> None | Some s \<Rightarrow> py_int s), Some r)))"

definition percent_of :: "int \<Rightarrow> int \<Rightarrow> pyfloat" where
  "percent_of matched tot =
     (if tot = 0 then 0 else py_round (fmul (fl (of_int matched / of_int tot)) 100) 1)"

definition snapshot_payload :: "string \<Rightarrow> job_state \<Rightarrow> int option \<Rightarrow> int option \<Rightarrow> payload" where
  "snapshot_payload job_id st redis_matched redis_total =
     (let matched = (case redis_matched of None \<Rightarrow> int (js_matched st) | Some n \<Rightarrow> n);
          tot = (case redis_total of None \<Rightarrow> int (js_extracted st) | Some n \<Rightarrow> n)
      in [(''job_id'', JStr job_id), (''stage'', JStr (js_last_stage st)), (''status'', JStr (js_status st)),
          (''matched'', JInt matched), (''total'', JInt tot), (''total_final'', JBool (redis_total \<noteq> None)),
          (''progress'', JStr (int_str matched @ ''/'' @ int_str tot)),
          (''percent'', JFloat (percent_of matched tot)),
          (''counts'', JObj
             [(''extracted'', JInt (int (js_extracted st))), (''analyzed'', JInt (int (js_analyzed st))),
              (''matched'', JInt (int (js_matched st)))])])"

record tracker =
  tk_redis :: "redis option"
  tk_jobs :: job_states

definition snapshot :: "string \<Rightarrow> tracker \<Rightarrow> payload \<times> tracker" where
  "snapshot job_id tk =
     (let st = state_of job_id (tk_jobs tk);
          (m, r) = redis_int (matched_children job_id) (tk_redis tk);
          (t, r) = redis_int (total_children job_id) r
      in (snapshot_payload job_id st m t, \<lparr>tk_redis = r, tk_jobs = dset job_id st (tk_jobs tk)\<rparr>))"

definition fold_event :: "string \<Rightarrow> job_state \<Rightarrow> job_state" where
  "fold_event topic st =
     (let st = st\<lparr>js_total_events := js_total_events st + 1,
                  js_last_stage := (case dget STAGE_BY_TOPIC topic of None \<Rightarrow> topic | Some s \<Rightarrow> s)\<rparr>
      in if topic = FIRMWARE_EXTRACTED then st\<lparr>js_extracted := js_extracted st + 1\<rparr>
         else if topic = FIRMWARE_ANALYZED then st\<lparr>js_analyzed := js_analyzed st + 1\<rparr>
         else if topic = FIRMWARE_MATCHED then st\<lparr>js_matched := js_matched st + 1\<rparr>
         else if topic = FIRMWARE_COMPLETED then st\<lparr>js_status := ''complete''\<rparr>
         else if topic = FIRMWARE_DLQ then st\<lparr>js_status := ''error''\<rparr>
         else st)"

text \<open>Job ids are strings in every contract; another truthy value is outside the model.\<close>

definition event_job :: "payload \<Rightarrow> string option" where
  "event_job payload =
     (case jget payload ''job_id'' of JStr j \<Rightarrow> if j \<noteq> [] then Some j else None | _ \<Rightarrow> None)"

definition update_progress :: "string \<Rightarrow> payload \<Rightarrow> tracker \<Rightarrow> payload option \<times> tracker" where
  "update_progress topic payload tk =
     (case event_job payload of
        None \<Rightarrow> (None, tk)
      | Some job_id \<Rightarrow>
          (let st = fold_event topic (state_of job_id (tk_jobs tk));
               (snap, tk) = snapshot job_id (tk\<lparr>tk_jobs := dset job_id st (tk_jobs tk)\<rparr>)
           in (Some snap, tk)))"

section \<open>consumer.py, app.py\<close>

text \<open>
  The callback of the consumer folds an event and publishes the snapshot; the loop decodes
  each message and survives what it cannot decode.
\<close>

record notifier =
  nt_tracker :: tracker
  nt_hub :: "payload hub"

definition on_event :: "string \<Rightarrow> payload \<Rightarrow> notifier \<Rightarrow> notifier" where
  "on_event topic payload n =
     (case update_progress topic payload (nt_tracker n) of
        (None, tk) \<Rightarrow> n\<lparr>nt_tracker := tk\<rparr>
      | (Some snap, tk) \<Rightarrow>
          n\<lparr>nt_tracker := tk,
            nt_hub := (case jget snap ''job_id'' of
                         JStr j \<Rightarrow> snd (publish j snap (nt_hub n)) | _ \<Rightarrow> nt_hub n)\<rparr>)"

definition notifier_poll :: "env \<Rightarrow> poll \<Rightarrow> notifier \<Rightarrow> notifier" where
  "notifier_poll E p n =
     (case p of
        PollNone \<Rightarrow> n
      | PollError eof \<Rightarrow> n
      | PollMsg msg \<Rightarrow>
          (case km_value msg of
             None \<Rightarrow> n
           | Some raw \<Rightarrow>
               (case e_loads E raw of
                  Inr (JObj payload) \<Rightarrow> on_event (km_topic msg) payload n
                | _ \<Rightarrow> n)))"

definition notifier_run :: "env \<Rightarrow> poll list \<Rightarrow> notifier \<Rightarrow> notifier" where
  "notifier_run E ps n = foldl (\<lambda>n p. notifier_poll E p n) n ps"

text \<open>\<open>Inl\<close> is an exception other than \<open>AuthError\<close>, which leaves the socket handler.\<close>

definition authorize_socket :: "jwt_env \<Rightarrow> environ \<Rightarrow> string option \<Rightarrow> bool result" where
  "authorize_socket W os token =
     (if \<not> auth_enabled os then Inr True
      else case rbind (verify_token W os token) (\<lambda>claims. require_permission claims ''view'') of
        Inl (AuthError m) \<Rightarrow> Inr False
      | Inl e \<Rightarrow> Inl e
      | Inr role \<Rightarrow> Inr True)"

definition open_socket ::
  "jwt_env \<Rightarrow> environ \<Rightarrow> string option \<Rightarrow> string \<Rightarrow> notifier \<Rightarrow> nat option result \<times> notifier" where
  "open_socket W os token job_id n =
     (case authorize_socket W os token of
        Inl e \<Rightarrow> (Inl e, n)
      | Inr False \<Rightarrow> (Inr None, n)
      | Inr True \<Rightarrow>
          (case subscribe job_id (nt_hub n) of (i, h) \<Rightarrow> (Inr (Some i), n\<lparr>nt_hub := h\<rparr>)))"

section \<open>A mailbox is a latest-wins queue\<close>

datatype 'm mb_op = Offer 'm | Take

fun mb_run :: "'m mb_op list \<Rightarrow> 'm mailbox \<Rightarrow> 'm option list \<times> 'm mailbox" where
  "mb_run [] mb = ([], mb)"
| "mb_run (Offer m # ops) mb = mb_run ops (mb_offer m mb)"
| "mb_run (Take # ops) mb =
     (case mb_get mb of
        None \<Rightarrow> mb_run ops mb
      | Some (m, mb) \<Rightarrow> (case mb_run ops mb of (out, mb) \<Rightarrow> (m # out, mb)))"

text \<open>The specification keeps every unread message; a read takes the last and discards the rest.\<close>

fun unread_run :: "'m mb_op list \<Rightarrow> 'm list \<Rightarrow> 'm option list \<times> 'm list" where
  "unread_run [] q = ([], q)"
| "unread_run (Offer m # ops) q = unread_run ops (q @ [m])"
| "unread_run (Take # ops) q =
     (if q = [] then unread_run ops []
      else case unread_run ops [] of (out, q') \<Rightarrow> (Some (last q) # out, q'))"

definition mb_sim :: "'m mailbox \<Rightarrow> 'm list \<Rightarrow> bool" where
  "mb_sim mb q \<longleftrightarrow> mb_event mb = mb_has_value mb \<and> mb_has_value mb = (q \<noteq> []) \<and>
     (q \<noteq> [] \<longrightarrow> mb_latest mb = Some (last q))"

fun offers :: "'m mb_op list \<Rightarrow> nat" where
  "offers [] = 0"
| "offers (Offer m # ops) = offers ops + 1"
| "offers (Take # ops) = offers ops"

lemma mb_run_sim:
  "mb_sim mb q \<Longrightarrow>
    fst (mb_run ops mb) = fst (unread_run ops q) \<and> mb_sim (snd (mb_run ops mb)) (snd (unread_run ops q)) \<and>
    mb_dropped mb + offers ops + (if mb_has_value mb then 1 else 0) =
      mb_dropped (snd (mb_run ops mb)) + length (fst (mb_run ops mb)) +
      (if mb_has_value (snd (mb_run ops mb)) then 1 else 0)"
proof (induction ops arbitrary: mb q)
  case (Cons op ops)
  show ?case
  proof (cases op)
    case (Offer m)
    have "mb_sim (mb_offer m mb) (q @ [m])" by (simp add: mb_sim_def mb_offer_def)
    from Cons.IH [OF this] Offer show ?thesis by (simp add: mb_offer_def split: if_splits)
  next
    case Take
    show ?thesis
    proof (cases "q = []")
      case True
      then have "mb_get mb = None" using Cons.prems by (simp add: mb_sim_def mb_get_def)
      with Cons.IH [OF Cons.prems] True Take show ?thesis by simp
    next
      case False
      let ?mb = "mb\<lparr>mb_event := False, mb_has_value := False\<rparr>"
      have get: "mb_get mb = Some (Some (last q), ?mb)" "mb_has_value mb"
        using Cons.prems False by (simp_all add: mb_sim_def mb_get_def)
      have "mb_sim ?mb []" by (simp add: mb_sim_def)
      from Cons.IH [OF this] get Take False show ?thesis
        by (cases "mb_run ops ?mb"; cases "unread_run ops []") (simp split: if_splits)
    qed
  qed
qed simp

text \<open>
  C27. A mailbox refines a queue of unread messages in which a read takes the newest message and
  discards the older ones: over every sequence of offers and reads it returns the same messages
  and offers the same one to \<open>peek\<close>. No message is lost uncounted: the offers are the messages
  returned, the ones counted as dropped and the one still waiting.
\<close>

theorem mailbox_latest_wins:
  fixes ops :: "'m mb_op list"
  defines "r \<equiv> mb_run ops new_mailbox" and "spec \<equiv> unread_run ops []"
  shows "fst r = fst spec \<and>
    mb_peek (snd r) = (if snd spec = [] then None else Some (last (snd spec))) \<and>
    offers ops = length (fst r) + mb_dropped (snd r) + (if mb_peek (snd r) = None then 0 else 1)"
proof -
  have "mb_sim (new_mailbox :: 'm mailbox) []" by (simp add: mb_sim_def new_mailbox_def)
  from mb_run_sim [OF this, of ops] show ?thesis
    unfolding r_def spec_def by (auto simp: mb_sim_def mb_peek_def new_mailbox_def)
qed

section \<open>What a subscriber is handed\<close>

datatype 'm hub_op = HSubscribe string | HUnsubscribe string nat | HPublish string 'm | HReceive nat

fun hub_step :: "'m hub_op \<Rightarrow> 'm hub \<Rightarrow> 'm hub" where
  "hub_step (HSubscribe j) h = snd (subscribe j h)"
| "hub_step (HUnsubscribe j i) h = unsubscribe j i h"
| "hub_step (HPublish j m) h = snd (publish j m h)"
| "hub_step (HReceive i) h = snd (receive i h)"

definition hub_run :: "'m hub_op list \<Rightarrow> 'm hub \<Rightarrow> 'm hub" where
  "hub_run ops h = foldl (\<lambda>h p. hub_step p h) h ops"

text \<open>An unread mailbox holds the last snapshot published for the job of its subscriber.\<close>

definition box_ok :: "'m option \<Rightarrow> 'm mailbox \<Rightarrow> bool" where
  "box_ok newest mb \<longleftrightarrow> mb_event mb = mb_has_value mb \<and> (mb_has_value mb \<longrightarrow> newest \<noteq> None \<and> mb_latest mb = newest)"

definition hub_inv :: "'m hub \<Rightarrow> bool" where
  "hub_inv h \<longleftrightarrow>
     (\<forall>j. distinct (subs_of j h)) \<and>
     (\<forall>j i. i \<in> set (subs_of j h) \<longrightarrow>
        i < hb_next h \<and> (\<exists>mb. dget (hb_boxes h) i = Some mb \<and> box_ok (dget (hb_last h) j) mb)) \<and>
     (\<forall>j j' i. i \<in> set (subs_of j h) \<longrightarrow> i \<in> set (subs_of j' h) \<longrightarrow> j = j')"

lemma hub_invD:
  assumes "hub_inv h" "i \<in> set (subs_of j h)"
  obtains mb where "dget (hb_boxes h) i = Some mb" "box_ok (dget (hb_last h) j) mb" "i < hb_next h"
  using assms unfolding hub_inv_def by blast

lemma hub_inv_new: "hub_inv new_hub"
  by (simp add: hub_inv_def new_hub_def subs_of_def)

lemma offer_to_dget:
  "dget (offer_to m i boxes) k =
     (if k = i then map_option (mb_offer m) (dget boxes i) else dget boxes k)"
  by (auto simp: offer_to_def split: option.splits)

lemma offer_all_dget:
  "distinct ids \<Longrightarrow> dget (foldl (\<lambda>boxes i. offer_to m i boxes) boxes ids) k =
     (if k \<in> set ids then map_option (mb_offer m) (dget boxes k) else dget boxes k)"
  by (induction ids arbitrary: boxes) (auto simp: offer_to_dget)

lemma box_ok_offer [simp]: "box_ok (Some m) (mb_offer m mb)"
  by (simp add: box_ok_def mb_offer_def)

lemma subs_of_subscribe:
  "subs_of k (snd (subscribe j h)) = (if k = j then push_new (hb_next h) (subs_of j h) else subs_of k h)"
  by (simp add: subscribe_def Let_def subs_of_def)

lemma subs_of_unsubscribe:
  "subs_of k (unsubscribe j i h) = (if k = j then filter (\<lambda>x. x \<noteq> i) (subs_of j h) else subs_of k h)"
  by (auto simp: unsubscribe_def Let_def subs_of_def split: option.splits)

lemma publish_parts:
  "subs_of k (snd (publish j m h)) = subs_of k h"
  "hb_last (snd (publish j m h)) = dset j m (hb_last h)"
  "hb_next (snd (publish j m h)) = hb_next h"
  "fst (publish j m h) = length (subs_of j h)"
  "distinct (subs_of j h) \<Longrightarrow> dget (hb_boxes (snd (publish j m h))) i =
     (if i \<in> set (subs_of j h) then map_option (mb_offer m) (dget (hb_boxes h) i) else dget (hb_boxes h) i)"
  by (simp_all add: publish_def Let_def subs_of_def offer_all_dget split: option.splits)

lemma receive_parts:
  "subs_of k (snd (receive i h)) = subs_of k h" "hb_last (snd (receive i h)) = hb_last h"
  "hb_next (snd (receive i h)) = hb_next h"
  by (simp_all add: receive_def subs_of_def split: option.splits prod.splits)

lemma hub_inv_subscribe: "hub_inv h \<Longrightarrow> hub_inv (snd (subscribe j h))"
proof -
  assume inv: "hub_inv h"
  let ?h = "snd (subscribe j h)" and ?n = "hb_next h"
  have fresh: "?n \<notin> set (subs_of k h)" for k using inv by (auto simp: hub_inv_def)
  have boxes: "dget (hb_boxes ?h) i = (if i = ?n
      then Some (case dget (hb_last h) j of None \<Rightarrow> new_mailbox | Some m \<Rightarrow> mb_offer m new_mailbox)
      else dget (hb_boxes h) i)" for i
    by (simp add: subscribe_def Let_def offer_to_dget split: option.splits)
  have rest: "hb_last ?h = hb_last h" "hb_next ?h = ?n + 1"
    by (simp_all add: subscribe_def Let_def)
  have "box_ok (dget (hb_last h) j) (case dget (hb_last h) j of None \<Rightarrow> new_mailbox | Some m \<Rightarrow> mb_offer m new_mailbox)"
    by (cases "dget (hb_last h) j") (simp_all add: box_ok_def new_mailbox_def mb_offer_def)
  with inv fresh show "hub_inv ?h"
    unfolding hub_inv_def subs_of_subscribe boxes rest
    by (auto simp: less_Suc_eq)
qed

lemma hub_inv_step: "hub_inv h \<Longrightarrow> hub_inv (hub_step p h)"
proof (cases p)
  case (HSubscribe j)
  then show "hub_inv h \<Longrightarrow> ?thesis" by (simp add: hub_inv_subscribe)
next
  case (HUnsubscribe j i)
  have "hb_boxes (unsubscribe j i h) = hb_boxes h" "hb_last (unsubscribe j i h) = hb_last h"
    "hb_next (unsubscribe j i h) = hb_next h"
    by (simp_all add: unsubscribe_def Let_def)
  with HUnsubscribe show "hub_inv h \<Longrightarrow> ?thesis"
    by (auto simp: hub_inv_def subs_of_unsubscribe)
next
  case (HPublish j m)
  assume inv: "hub_inv h"
  then have dist: "distinct (subs_of j h)" by (simp add: hub_inv_def)
  have alone: "i \<notin> set (subs_of j h)" if "i \<in> set (subs_of k h)" "k \<noteq> j" for i k
    using inv that by (auto simp: hub_inv_def)
  have "\<exists>mb. dget (hb_boxes (snd (publish j m h))) i = Some mb \<and>
      box_ok (dget (hb_last (snd (publish j m h))) k) mb" if i: "i \<in> set (subs_of k h)" for i k
  proof -
    obtain mb where mb: "dget (hb_boxes h) i = Some mb" "box_ok (dget (hb_last h) k) mb"
      using hub_invD [OF inv i] .
    show ?thesis
    proof (cases "k = j")
      case True
      with mb(1) i show ?thesis by (simp add: publish_parts dist)
    next
      case False
      with mb alone [OF i] show ?thesis by (simp add: publish_parts dist)
    qed
  qed
  with inv show ?thesis
    unfolding HPublish hub_inv_def hub_step.simps publish_parts(1,3) by blast
next
  case (HReceive i)
  assume inv: "hub_inv h"
  have "\<exists>mb'. dget (hb_boxes (snd (receive i h))) k = Some mb' \<and> box_ok newest mb'"
    if "dget (hb_boxes h) k = Some mb" "box_ok newest mb" for k mb newest
    using that by (auto simp: receive_def mb_get_def box_ok_def split: option.splits)
  with inv HReceive show ?thesis
    by (fastforce simp: hub_inv_def receive_parts)
qed

lemma hub_inv_run: "hub_inv h \<Longrightarrow> hub_inv (hub_run ops h)"
  unfolding hub_run_def by (induction ops arbitrary: h) (simp_all add: hub_inv_step)

text \<open>
  Whatever happened before in a hub - subscriptions, publications, reads, clients leaving -
  a subscriber of a job either waits or is handed the newest snapshot published for that job;
  and a publication reaches exactly the subscribers of its job, whose number it returns: each
  of them is handed the new snapshot next, all other mailboxes are as before.
\<close>

theorem subscriber_gets_newest:
  fixes ops :: "'m hub_op list"
  defines "h \<equiv> hub_run ops new_hub"
  assumes "i \<in> set (subs_of j h)"
  shows "fst (receive i h) \<in> {None, dget (hb_last h) j} \<and>
    fst (publish j m h) = subscriber_count j h \<and>
    fst (receive i (snd (publish j m h))) = Some m \<and>
    (\<forall>k. k \<notin> set (subs_of j h) \<longrightarrow> dget (hb_boxes (snd (publish j m h))) k = dget (hb_boxes h) k)"
proof -
  have inv: "hub_inv h" unfolding h_def by (intro hub_inv_run hub_inv_new)
  then have dist: "distinct (subs_of j h)" by (simp add: hub_inv_def)
  obtain mb where mb: "dget (hb_boxes h) i = Some mb" "box_ok (dget (hb_last h) j) mb"
    using hub_invD [OF inv assms(2)] .
  then have "fst (receive i h) \<in> {None, dget (hb_last h) j}"
    by (auto simp: receive_def mb_get_def box_ok_def)
  moreover have "dget (hb_boxes (snd (publish j m h))) i = Some (mb_offer m mb)"
    using mb(1) assms(2) by (simp add: publish_parts dist)
  then have "fst (receive i (snd (publish j m h))) = Some m"
    by (simp add: receive_def mb_get_def mb_offer_def)
  ultimately show ?thesis by (simp add: publish_parts dist subscriber_count_def)
qed

section \<open>What a snapshot counts\<close>

definition track :: "(string \<times> payload) list \<Rightarrow> tracker \<Rightarrow> tracker" where
  "track evs tk = foldl (\<lambda>tk (t, p). snd (update_progress t p tk)) tk evs"

definition events_of :: "string \<Rightarrow> (string \<times> payload) list \<Rightarrow> string list" where
  "events_of j evs = map fst (filter (\<lambda>(t, p). event_job p = Some j) evs)"

lemma tk_jobs_snapshot:
  "state_of k (tk_jobs (snd (snapshot j tk))) = state_of k (tk_jobs tk)"
  by (simp add: snapshot_def Let_def state_of_def split: prod.splits)

lemma state_of_update:
  "state_of k (tk_jobs (snd (update_progress t p tk))) =
     (if event_job p = Some k then fold_event t (state_of k (tk_jobs tk)) else state_of k (tk_jobs tk))"
proof (cases "event_job p")
  case (Some j)
  then show ?thesis
    using tk_jobs_snapshot [of k j "tk\<lparr>tk_jobs := dset j (fold_event t (state_of j (tk_jobs tk))) (tk_jobs tk)\<rparr>"]
    by (auto simp: update_progress_def Let_def state_of_def split: prod.splits)
qed (simp add: update_progress_def)

lemma state_of_track:
  "state_of j (tk_jobs (track evs tk)) = foldl (\<lambda>st t. fold_event t st) (state_of j (tk_jobs tk)) (events_of j evs)"
proof (induction evs arbitrary: tk)
  case (Cons e evs)
  obtain t p where e: "e = (t, p)" by fastforce
  have "track (e # evs) tk = track evs (snd (update_progress t p tk))" by (simp add: track_def e)
  then show ?case by (simp add: Cons.IH state_of_update events_of_def e)
qed (simp add: track_def events_of_def)

lemma fold_event_counts:
  "js_extracted (fold_event t st) = js_extracted st + (if t = FIRMWARE_EXTRACTED then 1 else 0)"
  "js_analyzed (fold_event t st) = js_analyzed st + (if t = FIRMWARE_ANALYZED then 1 else 0)"
  "js_matched (fold_event t st) = js_matched st + (if t = FIRMWARE_MATCHED then 1 else 0)"
  "js_total_events (fold_event t st) = js_total_events st + 1"
  by (simp_all add: fold_event_def Let_def topic_defs)

lemma fold_events_counts:
  "js_extracted (foldl (\<lambda>st t. fold_event t st) st ts) = js_extracted st + count_list ts FIRMWARE_EXTRACTED"
  "js_analyzed (foldl (\<lambda>st t. fold_event t st) st ts) = js_analyzed st + count_list ts FIRMWARE_ANALYZED"
  "js_matched (foldl (\<lambda>st t. fold_event t st) st ts) = js_matched st + count_list ts FIRMWARE_MATCHED"
  "js_total_events (foldl (\<lambda>st t. fold_event t st) st ts) = js_total_events st + length ts"
  by (induction ts arbitrary: st) (simp_all add: fold_event_counts)

lemma percent_range:
  assumes "0 \<le> m" "m \<le> t"
  shows "0 \<le> percent_of m t" "percent_of m t \<le> 100"
proof -
  let ?p = "fmul (fl (of_int m / of_int t)) 100"
  have q: "(0 :: rat) \<le> of_int m / of_int t" "of_int m / of_int t \<le> (1 :: rat)"
    using assms by (auto simp: divide_le_eq_1)
  have hundred: "fl 100 = 100" using fl_of_int [of 100] by simp
  have "?p \<le> fl 100" unfolding fmul_def using fl_le_1 [OF q(2)] by (intro fl_mono) simp
  then have "rne (?p * 10 ^ 1) \<le> 1000" by (intro rne_le) (simp add: hundred)
  then have "py_round ?p 1 \<le> fl 100" unfolding py_round_def by (intro fl_mono) simp
  then show "percent_of m t \<le> 100" by (simp add: percent_of_def hundred)
  have "0 \<le> rne (?p * 10 ^ 1)"
    using fl_nonneg [OF q(1)] by (intro rne_ge) (simp add: fmul_def)
  then show "0 \<le> percent_of m t" by (simp add: percent_of_def py_round_def)
qed

text \<open>
  Without Redis, the snapshot of a job after any stream of events counts exactly the events
  of that job in the stream, per stage, however the events of other jobs are interleaved; the
  percentage is within bounds as long as no more matches than extractions were seen.
\<close>

theorem progress_counts_events:
  fixes evs :: "(string \<times> payload) list" and j :: string
  defines "ts \<equiv> events_of j evs"
    and "snap \<equiv> fst (snapshot j (track evs \<lparr>tk_redis = None, tk_jobs = []\<rparr>))"
  assumes "count_list ts FIRMWARE_MATCHED \<le> count_list ts FIRMWARE_EXTRACTED"
  shows "jget snap ''matched'' = JInt (int (count_list ts FIRMWARE_MATCHED)) \<and>
    jget snap ''total'' = JInt (int (count_list ts FIRMWARE_EXTRACTED)) \<and>
    jget (json_obj (jget snap ''counts'')) ''analyzed'' = JInt (int (count_list ts FIRMWARE_ANALYZED)) \<and>
    (\<exists>x. jget snap ''percent'' = JFloat x \<and> 0 \<le> x \<and> x \<le> 100)"
proof -
  let ?tk = "track evs \<lparr>tk_redis = None, tk_jobs = []\<rparr>"
  have none: "tk_redis (track evs tk) = None" if "tk_redis tk = None" for tk
    using that
  proof (induction evs arbitrary: tk)
    case (Cons e evs)
    obtain t p where e: "e = (t, p)" by fastforce
    have "tk_redis (snd (update_progress t p tk)) = None"
      using Cons.prems by (simp add: update_progress_def snapshot_def Let_def redis_int_def split: option.splits)
    then show ?case using Cons.IH by (simp add: track_def e)
  qed (simp add: track_def)
  have st: "state_of j (tk_jobs ?tk) = foldl (\<lambda>st t. fold_event t st) new_job_state ts"
    unfolding state_of_track ts_def by (simp add: state_of_def)
  have snap: "snap = snapshot_payload j (state_of j (tk_jobs ?tk)) None None"
    unfolding snap_def snapshot_def by (simp add: none redis_int_def Let_def)
  show ?thesis
    unfolding snap st snapshot_payload_def
    using percent_range [of "int (count_list ts FIRMWARE_MATCHED)" "int (count_list ts FIRMWARE_EXTRACTED)"] assms(3)
    by (simp add: Let_def jget_def fold_events_counts new_job_state_def)
qed

text \<open>
  The records the router dead-letters carry no job id, so a snapshot never reports the
  \<open>error\<close> status that the tracker has for them.
\<close>

lemma dead_letters_are_not_tracked:
  assumes "env_ok E" "build_dlq_record E t raw err = Inr d"
  shows "update_progress FIRMWARE_DLQ d tk = (None, tk)"
  using assms by (auto simp: build_dlq_record_eq update_progress_def event_job_def jget_def)

section \<open>Witnesses\<close>

theorem subscriber_gets_newest_witness:
  "fst (receive 0 (snd (publish ''j'' (2 :: nat) (hub_run [HPublish ''j'' 1, HSubscribe ''j''] new_hub)))) = Some 2"
proof -
  have "0 \<in> set (subs_of ''j'' (hub_run [HPublish ''j'' (1 :: nat), HSubscribe ''j''] new_hub))"
    by (simp add: hub_run_def subs_of_subscribe publish_parts new_hub_def push_new_def)
  from subscriber_gets_newest [OF this] show ?thesis by blast
qed

theorem progress_counts_events_witness:
  "jget (fst (snapshot ''j'' (track
      [(FIRMWARE_EXTRACTED, [(''job_id'', JStr ''j'')]), (FIRMWARE_EXTRACTED, [(''job_id'', JStr ''k'')]),
       (FIRMWARE_MATCHED, [(''job_id'', JStr ''j'')])] \<lparr>tk_redis = None, tk_jobs = []\<rparr>))) ''matched'' = JInt 1"
proof -
  let ?evs = "[(FIRMWARE_EXTRACTED, [(''job_id'', JStr ''j'')]), (FIRMWARE_EXTRACTED, [(''job_id'', JStr ''k'')]),
       (FIRMWARE_MATCHED, [(''job_id'', JStr ''j'')])]"
  have ts: "events_of ''j'' ?evs = [FIRMWARE_EXTRACTED, FIRMWARE_MATCHED]"
    by (simp add: events_of_def event_job_def jget_def)
  have "count_list (events_of ''j'' ?evs) FIRMWARE_MATCHED \<le> count_list (events_of ''j'' ?evs) FIRMWARE_EXTRACTED"
    unfolding ts by (simp add: topic_defs)
  from conjunct1 [OF progress_counts_events [OF this]] show ?thesis
    unfolding ts by (simp add: topic_defs)
qed

end
