(* ===== verification/Pipeline.thy ===== *)
theory Pipeline
  imports Unpack Matcher "HOL-Library.Countable"
begin

text \<open>
  The worker as a whole: the five stage handlers of \<open>services/router/handlers\<close>, registered for
  their topics as the package's imports do, in one \<open>run\<close> of the router (\<open>runner.py\<close>) over one
  state. The lemmas show what the stages can send to each other, that the whole worker reports
  a job at most once, what a report can miss, and that a single-blob image passes all stages.
\<close>

section \<open>handlers/__init__.py: the registry of the worker\<close>

datatype stage = Triage | Unpack | Analysis | CveMatch | Aggregate

definition REGISTRATIONS :: "(string \<times> stage) list" where
  "REGISTRATIONS =
     [(FIRMWARE_UPLOADED, Triage), (FIRMWARE_TRIAGED, Unpack), (FIRMWARE_EXTRACTED, Analysis),
      (FIRMWARE_ANALYZED, CveMatch), (FIRMWARE_MATCHED, Aggregate)]"

text \<open>What the process-wide singletons of the stages hold.\<close>

record worker =
  wk_env :: env
  wk_digests :: digests
  wk_extractor :: extractor
  wk_uuid :: "nat \<Rightarrow> string"
  wk_workdir :: string
  wk_log2 :: "pyfloat \<Rightarrow> pyfloat"
  wk_thresholds :: family_thresholds
  wk_repo :: corpus_repo
  wk_embedder :: embedder
  wk_narrator :: "narrator option"
  wk_repr :: "json \<Rightarrow> string"

fun stage_body :: "worker \<Rightarrow> stage \<Rightarrow> 'z unpack_state_scheme handler" where
  "stage_body W Triage = handle_triage (wk_env W) (wk_digests W)"
| "stage_body W Unpack = handle_unpack (wk_env W) (wk_extractor W) (wk_uuid W) (wk_workdir W)"
| "stage_body W Analysis = handle_analysis (wk_env W) (wk_log2 W)"
| "stage_body W CveMatch =
     handle_cve_match (wk_env W) (wk_thresholds W) (wk_repo W) (wk_embedder W) (wk_narrator W) (wk_repr W)"
| "stage_body W Aggregate = handle_aggregate (wk_env W) (wk_narrator W)"

definition worker_run ::
  "worker \<Rightarrow> string \<Rightarrow> poll list \<Rightarrow> kmsg list \<times> 'z unpack_state_scheme \<Rightarrow>
   nat result \<times> kmsg list \<times> 'z unpack_state_scheme" where
  "worker_run W services_env polls st =
     (case register_all REGISTRATIONS [] of
        Inl e \<Rightarrow> (Inl e, st)
      | Inr reg \<Rightarrow> run (wk_env W) reg (stage_body W) services_env polls st)"

lemma registry_ok [simp]: "register_all REGISTRATIONS [] = Inr REGISTRATIONS"
  by (simp add: REGISTRATIONS_def register_def topic_defs)

section \<open>Stages that leave the reports alone\<close>

text \<open>The messages produced in between are on topics of \<open>T\<close>; no report or job row changed.\<close>

definition tame :: "string set \<Rightarrow> 'z report_state_scheme \<Rightarrow> 'z report_state_scheme \<Rightarrow> bool" where
  "tame T s s' \<longleftrightarrow> as_docs s' = as_docs s \<and> as_jobs s' = as_jobs s \<and>
     (\<exists>ms. rs_log s' = rs_log s @ ms \<and> km_topic ` set ms \<subseteq> T)"

definition stays :: "string set \<Rightarrow> ('z report_state_scheme, 'a) eff \<Rightarrow> bool" where
  "stays T m \<longleftrightarrow> (\<forall>s. tame T s (snd (m s)))"

named_theorems stays_rules \<open>compositional rules for what a computation may produce\<close>

lemma tame_refl [simp]: "tame T s s"
  by (simp add: tame_def)

lemma tame_trans: "tame T s t \<Longrightarrow> tame T t u \<Longrightarrow> tame T s u"
  unfolding tame_def by (elim conjE exE, intro conjI exI) (simp, simp, simp, auto)

lemma tame_mono: "tame T s t \<Longrightarrow> T \<subseteq> T' \<Longrightarrow> tame T' s t"
  by (fastforce simp: tame_def)

lemma tame_redis [simp]: "tame T s (s\<lparr>rs_redis := r\<rparr>)"
  by (simp add: tame_def)

lemma staysI: "(\<And>s. tame T s (snd (m s))) \<Longrightarrow> stays T m"
  by (simp add: stays_def)

lemma staysD: "stays T m \<Longrightarrow> tame T s (snd (m s))"
  by (simp add: stays_def)

lemma stays_pure [stays_rules]:
  "stays T (ret x)" "stays T (raise e)" "stays T (lift_result r)" "stays T (gets f)"
  by (simp_all add: stays_def eff_simps)

lemma stays_ebind [stays_rules]: "stays T m \<Longrightarrow> (\<And>x. stays T (f x)) \<Longrightarrow> stays T (ebind m f)"
  unfolding stays_def ebind_def by (auto split: sum.splits prod.splits) (metis snd_conv tame_trans)+

lemma stays_on_redis [stays_rules]: "stays T (on_redis f)" "stays T (on_redis_result g)"
  by (simp_all add: stays_def on_redis_def on_redis_result_def split: prod.splits)

lemma stays_produce: "km_topic m \<in> T \<Longrightarrow> stays T (produce m)"
  by (auto simp: stays_def tame_def produce_def split: list.splits bool.splits)

lemma stays_emit [stays_rules]: "t \<in> T \<Longrightarrow> stays T (emit E t p)"
  unfolding emit_def by (intro stays_rules stays_produce) simp

lemma stays_emit_dlq [stays_rules]: "FIRMWARE_DLQ \<in> T \<Longrightarrow> stays T (emit_dlq E c p e)"
  unfolding emit_dlq_def by (intro stays_rules)

lemma stays_produce_dlq: "FIRMWARE_DLQ \<in> T \<Longrightarrow> stays T (produce_dlq E msg exc)"
  unfolding produce_dlq_def Let_def by (intro stays_rules stays_produce) simp

lemma stays_triage: "stays {FIRMWARE_TRIAGED, FIRMWARE_DLQ} (handle_triage E D c p)"
proof -
  have "stays {} (triage E D p)"
    unfolding triage_def by (auto intro!: stays_rules split: option.split if_split prod.split)
  then have "stays {FIRMWARE_TRIAGED, FIRMWARE_DLQ} (triage E D p)"
    by (auto simp: stays_def intro: tame_mono)
  then show ?thesis
    unfolding handle_triage_def by (auto intro!: stays_rules)
qed

lemma stays_analysis: "stays {FIRMWARE_ANALYZED} (handle_analysis E l c p)"
  unfolding handle_analysis_def by (intro stays_rules) simp

lemma stays_cve_match: "stays {FIRMWARE_MATCHED} (handle_cve_match E T repo emb narr rep c p)"
proof -
  have "stays {FIRMWARE_MATCHED} (modify (\<lambda>s. s\<lparr>as_artifacts := f (as_artifacts s)\<rparr>))" for f
    by (simp add: stays_def modify_def tame_def)
  then show ?thesis unfolding handle_cve_match_def by (intro stays_rules) simp_all
qed

lemma stays_fan_out: "stays {FIRMWARE_EXTRACTED} (fan_out E j sb)"
proof -
  have "stays {FIRMWARE_EXTRACTED} (modify (\<lambda>s. s\<lparr>is_blobs := f (is_blobs s)\<rparr>))" for f
    by (simp add: stays_def modify_def tame_def)
  then show ?thesis unfolding fan_out_def by (intro stays_rules) simp_all
qed

lemma stays_extract_job: "stays {FIRMWARE_EXTRACTED} (extract_job ex uuid wd p (fan_out E j))"
proof -
  have counters: "tame T s (s\<lparr>us_total := t\<rparr>)" "tame T s (s\<lparr>us_dirs := t\<rparr>)" "tame T s (s\<lparr>us_uuids := t\<rparr>)"
    "tame T s (s\<lparr>us_total := t, us_dirs := t'\<rparr>)"
    for T and s :: "'z unpack_state_scheme" and t t'
    by (simp_all add: tame_def)
  have rec: "tame {FIRMWARE_EXTRACTED} s (snd (recurse k ex uuid wd n (fan_out E j) parent cur s))"
    for k n parent cur and s :: "'z unpack_state_scheme"
    by (rule recurse_rel)
      (rule tame_refl, erule (1) tame_trans, rule staysD [OF stays_fan_out], (rule counters)+)
  have "stays {FIRMWARE_EXTRACTED} (walk ex uuid wd n (fan_out E j) data :: ('z unpack_state_scheme, unit) eff)"
    for n data
    unfolding walk_def
    by (intro stays_ebind staysI rec) (simp add: modify_def counters)
  then show ?thesis unfolding extract_job_def Let_def by (intro stays_rules)
qed

lemma stays_unpack: "stays {FIRMWARE_EXTRACTED, FIRMWARE_DLQ} (handle_unpack E ex uuid wd c p)"
proof -
  let ?T = "{FIRMWARE_EXTRACTED, FIRMWARE_DLQ}"
  have job: "tame ?T s (snd (extract_job ex uuid wd p (fan_out E j) s))"
    for j and s :: "'z unpack_state_scheme"
    using staysD [OF stays_extract_job] by (rule tame_mono) simp
  have dlq: "tame ?T s (snd (emit_dlq E c p e s))" for e and s :: "'z unpack_state_scheme"
    by (intro staysD stays_rules) simp
  have mark: "tame ?T s (snd (ebind (on_redis (r_set k ''1'' False None)) (\<lambda>_. ret ()) s))"
    for k and s :: "'z unpack_state_scheme"
    by (intro staysD stays_rules)
  show ?thesis
    unfolding handle_unpack_def
  proof (intro stays_ebind stays_pure staysI)
    fix j and s :: "'z unpack_state_scheme"
    obtain r t where rt: "extract_job ex uuid wd p (fan_out E j) s = (r, t)" by fastforce
    have st: "tame ?T s t" using job [of s j] by (simp add: rt)
    show "tame ?T s (snd (case extract_job ex uuid wd p (fan_out E j) s of
        (Inr (), s) \<Rightarrow> ebind (on_redis (r_set (extraction_complete j) ''1'' False None)) (\<lambda>_. ret ()) s
      | (Inl exc, s) \<Rightarrow>
          (case exc of
             ExtractionError layer msg \<Rightarrow> emit_dlq E c p (layer @ '': '' @ msg) s
           | ZipBombError layer msg \<Rightarrow> emit_dlq E c p (layer @ '': '' @ msg) s
           | _ \<Rightarrow> (Inl exc, s))))"
      using st tame_trans [OF st dlq] tame_trans [OF st mark] by (simp add: rt split: sum.split exn.split unit.split)
  qed
qed

section \<open>A step of the worker\<close>

text \<open>
  Processing a message, except by the aggregator, produces only on the next topic of the
  pipeline or on the dead-letter topic; the aggregator produces only \<open>firmware.completed\<close>.
\<close>

lemma stays_mono: "stays T m \<Longrightarrow> T \<subseteq> T' \<Longrightarrow> stays T' m"
  unfolding stays_def by (blast intro: tame_mono)

lemma stays_stage:
  assumes "dget REGISTRATIONS t = Some h" "h \<noteq> Aggregate"
  shows "stays {the (dget NEXT_TOPIC t), FIRMWARE_DLQ} (stage_body W h c p)"
proof -
  consider "t = FIRMWARE_UPLOADED" "h = Triage" | "t = FIRMWARE_TRIAGED" "h = Unpack"
    | "t = FIRMWARE_EXTRACTED" "h = Analysis" | "t = FIRMWARE_ANALYZED" "h = CveMatch"
    using assms by (auto simp: REGISTRATIONS_def split: if_splits)
  then show ?thesis
    by cases (simp only: stage_body.simps, rule stays_mono,
      rule stays_triage stays_unpack stays_analysis stays_cve_match, simp add: NEXT_TOPIC_def topic_defs)+
qed

lemma process_message_frame:
  assumes refl: "\<And>r. R s (s\<lparr>rs_redis := r\<rparr>)" "R s s"
    and body: "\<And>h c p r. get_handler reg (km_topic m) = Some h \<Longrightarrow>
      R s (snd (body h c p (s\<lparr>rs_redis := r\<rparr>)))"
  shows "R s (snd (process_message E reg body m s))"
  using assms by (auto simp: process_message_eq Let_def split: option.splits sum.splits if_splits)

lemma poll_step_snd:
  "poll_step E reg body (PollMsg m) (cs, s) =
     (cs @ [m], (case process_message E reg body m s of
                   (Inr _, t) \<Rightarrow> t | (Inl exc, t) \<Rightarrow> snd (produce_dlq E m exc t)))"
  by (simp add: poll_step_def catch_def ret_def split: prod.splits sum.splits)

lemma aggregate_frame:
  assumes "env_ok E"
  shows "(\<exists>ms. rs_log (snd (handle_aggregate E narr c p s)) = rs_log s @ ms \<and>
    km_topic ` set ms \<subseteq> {FIRMWARE_COMPLETED})"
proof -
  have "snd (handle_aggregate E narr c p s) = snd (aggregate E narr p s)"
    by (simp add: handle_aggregate_def ebind_def ret_def split: prod.splits sum.splits)
  then show ?thesis
    using aggregate_log_cases [OF assms, of narr p s] by (auto simp: Let_def completed_msg_def)
qed

text \<open>What a step of the worker on a message does to the log and to the reports.\<close>

definition successor :: "kmsg \<Rightarrow> kmsg \<Rightarrow> bool" where
  "successor m m' \<longleftrightarrow> km_topic m' = FIRMWARE_DLQ \<or> dget NEXT_TOPIC (km_topic m) = Some (km_topic m')"

lemma next_topic_stage: "dget REGISTRATIONS t = Some h \<Longrightarrow> \<exists>u. dget NEXT_TOPIC t = Some u \<and> (u = FIRMWARE_COMPLETED \<longleftrightarrow> h = Aggregate)"
  by (auto simp: REGISTRATIONS_def NEXT_TOPIC_def topic_defs split: if_splits)

lemma stage_log:
  assumes "env_ok (wk_env W)" "dget REGISTRATIONS (km_topic m) = Some h"
  shows "\<exists>ms. rs_log (snd (stage_body W h c p s)) = rs_log s @ ms \<and> (\<forall>m' \<in> set ms. successor m m')"
proof (cases "h = Aggregate")
  case True
  moreover have "km_topic m = FIRMWARE_MATCHED"
    using assms(2) True by (auto simp: REGISTRATIONS_def split: if_splits)
  moreover have "dget NEXT_TOPIC FIRMWARE_MATCHED = Some FIRMWARE_COMPLETED"
    by (simp add: NEXT_TOPIC_def topic_defs)
  moreover obtain ms where "rs_log (snd (handle_aggregate (wk_env W) (wk_narrator W) c p s)) = rs_log s @ ms"
    "km_topic ` set ms \<subseteq> {FIRMWARE_COMPLETED}"
    using aggregate_frame [OF assms(1), of "wk_narrator W" c p s] by blast
  ultimately show ?thesis by (intro exI [of _ ms]) (auto simp: successor_def image_subset_iff)
next
  case False
  from staysD [OF stays_stage [OF assms(2) False]] next_topic_stage [OF assms(2)] show ?thesis
    by (fastforce simp: tame_def successor_def)
qed

lemma poll_step_log:
  assumes "env_ok (wk_env W)"
  shows "\<exists>ms. rs_log (snd (poll_step (wk_env W) REGISTRATIONS (stage_body W) (PollMsg m) (cs, s))) = rs_log s @ ms \<and>
    (\<forall>m' \<in> set ms. successor m m')"
proof -
  let ?R = "\<lambda>s t. \<exists>ms. rs_log t = rs_log s @ ms \<and> (\<forall>m' \<in> set ms. successor m m')"
  obtain r t where rt: "process_message (wk_env W) REGISTRATIONS (stage_body W) m s = (r, t)" by fastforce
  have "?R s (snd (process_message (wk_env W) REGISTRATIONS (stage_body W) m s))"
  proof (rule process_message_frame [where R = ?R])
    fix h c p r
    assume "get_handler REGISTRATIONS (km_topic m) = Some h"
    then show "?R s (snd (stage_body W h c p (s\<lparr>rs_redis := r\<rparr>)))"
      using stage_log [OF assms, of m h c p "s\<lparr>rs_redis := r\<rparr>"] by (simp add: get_handler_def)
  qed simp_all
  then obtain ms where ms: "rs_log t = rs_log s @ ms" "\<forall>m' \<in> set ms. successor m m'" by (auto simp: rt)
  have "tame {FIRMWARE_DLQ} t (snd (produce_dlq (wk_env W) m e t))" for e
    by (intro staysD stays_produce_dlq) simp
  then obtain d where d: "rs_log (snd (produce_dlq (wk_env W) m e t)) = rs_log t @ d e"
    "\<forall>m' \<in> set (d e). successor m m'" for e
    unfolding tame_def successor_def by (metis image_subset_iff singletonD)
  show ?thesis
  proof (cases r)
    case (Inl e)
    then show ?thesis using ms d by (intro exI [of _ "ms @ d e"]) (auto simp: poll_step_snd rt)
  qed (use ms in \<open>simp add: poll_step_snd rt\<close>)
qed

lemma run_loop_log:
  assumes "env_ok (wk_env W)"
  shows "\<exists>ms. rs_log (snd (run_loop (wk_env W) REGISTRATIONS (stage_body W) polls (cs, s))) = rs_log s @ ms \<and>
    (\<forall>m' \<in> set ms. \<exists>m. PollMsg m \<in> set polls \<and> successor m m')"
proof (induction polls arbitrary: cs s)
  case (Cons p polls)
  obtain cs' t where t: "poll_step (wk_env W) REGISTRATIONS (stage_body W) p (cs, s) = (cs', t)" by fastforce
  have "\<exists>ms. rs_log t = rs_log s @ ms \<and> (\<forall>m' \<in> set ms. \<exists>m. p = PollMsg m \<and> successor m m')"
  proof (cases p)
    case (PollMsg m)
    then show ?thesis using poll_step_log [OF assms, of m cs s] t by simp
  qed (use t in \<open>simp_all add: poll_step_def\<close>)
  then obtain ms where ms: "rs_log t = rs_log s @ ms" "\<forall>m' \<in> set ms. \<exists>m. p = PollMsg m \<and> successor m m'"
    by blast
  from Cons.IH [of cs' t] obtain ms' where
    "rs_log (snd (run_loop (wk_env W) REGISTRATIONS (stage_body W) polls (cs', t))) = rs_log t @ ms'"
    "\<forall>m' \<in> set ms'. \<exists>m. PollMsg m \<in> set polls \<and> successor m m'" by blast
  with ms t show ?case by (intro exI [of _ "ms @ ms'"]) (fastforce simp: run_loop_def)
qed (simp add: run_loop_def)

text \<open>
  C4. The stages form the pipeline of \<open>topology.py\<close>: whatever a worker polls, every message it
  produces is a dead letter or is on the topic that follows the topic of a message it polled;
  and a worker that subscribes to every service starts, since each topic has its handler.
\<close>

theorem worker_stage_order:
  assumes "env_ok (wk_env W)" and "worker_run W services polls (cs, s) = (r, cs', s')"
  shows "(\<exists>ms. rs_log s' = rs_log s @ ms \<and>
      (\<forall>m' \<in> set ms. km_topic m' = FIRMWARE_DLQ \<or>
        (\<exists>m. PollMsg m \<in> set polls \<and> dget NEXT_TOPIC (km_topic m) = Some (km_topic m')))) \<and>
    (services = ''all'' \<longrightarrow> r = Inr 0)"
proof
  have "\<exists>ms. rs_log s' = rs_log s @ ms \<and> (\<forall>m' \<in> set ms. \<exists>m. PollMsg m \<in> set polls \<and> successor m m')"
    using assms(2) run_loop_log [OF assms(1), of polls cs s]
    by (auto simp: worker_run_def run_def split: sum.splits if_splits)
  then show "\<exists>ms. rs_log s' = rs_log s @ ms \<and> (\<forall>m' \<in> set ms. km_topic m' = FIRMWARE_DLQ \<or>
      (\<exists>m. PollMsg m \<in> set polls \<and> dget NEXT_TOPIC (km_topic m) = Some (km_topic m')))"
    unfolding successor_def by blast
  have "resolve_subscriptions ''all'' = Inr (map fst REGISTRATIONS)" by code_simp
  then show "services = ''all'' \<longrightarrow> r = Inr 0"
    using assms(2) by (auto simp: worker_run_def run_def registered_topics_def filter_empty_conv)
qed

section \<open>Reports of the whole worker\<close>

lemma agg_inv_tame:
  assumes "tame T s t" "FIRMWARE_COMPLETED \<notin> T" "agg_inv j s"
  shows "agg_inv j t"
proof -
  obtain ms where ms: "as_docs t = as_docs s" "rs_log t = rs_log s @ ms" "km_topic ` set ms \<subseteq> T"
    using assms(1) by (auto simp: tame_def)
  then have "filter (\<lambda>m. km_topic m = FIRMWARE_COMPLETED \<and> km_key m = Some j) ms = []"
    using assms(2) by (auto simp: filter_empty_conv)
  with ms assms(3) show ?thesis by (simp add: agg_inv_def completed_count_def)
qed

lemma agg_inv_stage:
  assumes "env_ok (wk_env W)" "dget REGISTRATIONS t = Some h" "agg_inv j s"
  shows "agg_inv j (snd (stage_body W h c p s))"
proof (cases "h = Aggregate")
  case True
  have "snd (handle_aggregate (wk_env W) (wk_narrator W) c p s) = snd (aggregate (wk_env W) (wk_narrator W) p s)"
    by (simp add: handle_aggregate_def ebind_def ret_def split: prod.splits sum.splits)
  with True show ?thesis by (simp add: agg_inv_aggregate [OF assms(1,3)])
next
  case False
  have "FIRMWARE_COMPLETED \<notin> {the (dget NEXT_TOPIC t), FIRMWARE_DLQ}"
    using next_topic_stage [OF assms(2)] False by (auto simp: topic_defs)
  then show ?thesis by (rule agg_inv_tame [OF staysD [OF stays_stage [OF assms(2) False]] _ assms(3)])
qed

lemma agg_inv_poll:
  assumes "env_ok (wk_env W)" "agg_inv j (snd st)"
  shows "agg_inv j (snd (poll_step (wk_env W) REGISTRATIONS (stage_body W) p st))"
proof (cases p)
  case (PollMsg m)
  obtain cs s where st: "st = (cs, s)" by fastforce
  obtain r t where rt: "process_message (wk_env W) REGISTRATIONS (stage_body W) m s = (r, t)" by fastforce
  have redis: "agg_inv j (s\<lparr>rs_redis := r\<rparr>)" for r
    using assms(2) st by (simp add: agg_inv_def)
  have "agg_inv j s \<longrightarrow> agg_inv j (snd (process_message (wk_env W) REGISTRATIONS (stage_body W) m s))"
  proof (rule process_message_frame [where R = "\<lambda>s t. agg_inv j s \<longrightarrow> agg_inv j t"])
    fix h c p r
    assume "get_handler REGISTRATIONS (km_topic m) = Some h"
    then show "agg_inv j s \<longrightarrow> agg_inv j (snd (stage_body W h c p (s\<lparr>rs_redis := r\<rparr>)))"
      using agg_inv_stage [OF assms(1) _ redis] by (simp add: get_handler_def)
  qed (simp_all add: redis)
  then have t: "agg_inv j t" using assms(2) st rt by simp
  have "tame {FIRMWARE_DLQ} t (snd (produce_dlq (wk_env W) m e t))" for e
    by (intro staysD stays_produce_dlq) simp
  then have "agg_inv j (snd (produce_dlq (wk_env W) m e t))" for e
    by (rule agg_inv_tame [OF _ _ t]) (simp add: topic_defs)
  with t show ?thesis by (simp add: PollMsg st poll_step_snd rt split: sum.split)
qed (use assms in \<open>simp_all add: poll_step_def\<close>)

text \<open>
  C3. Over any stream of messages, valid or not, of every stage, in any order and with any
  redelivery, with any outcome of the produce calls, the worker announces the completion of a
  job at most once, and only if the report of the job is final.
\<close>

theorem worker_completes_once:
  assumes "env_ok (wk_env W)" and "completed_count j (rs_log s) = 0"
    and "worker_run W services polls (cs, s) = (r, cs', s')"
  shows "completed_count j (rs_log s') \<le> 1 \<and>
    (completed_count j (rs_log s') = 1 \<longrightarrow> is_complete j (as_docs s'))"
proof -
  have loop: "agg_inv j (snd (run_loop (wk_env W) REGISTRATIONS (stage_body W) polls st))"
    if "agg_inv j (snd st)" for st
    unfolding run_loop_def using that
    by (induction polls arbitrary: st) (simp_all add: agg_inv_poll [OF assms(1)])
  have "agg_inv j s" using assms(2) by (simp add: agg_inv_def)
  then have "agg_inv j s'"
    using assms(3) loop [of "(cs, s)"] by (auto simp: worker_run_def run_def split: sum.splits if_splits)
  then show ?thesis by (auto simp: agg_inv_def split: if_splits)
qed

section \<open>An image without an archive goes all the way\<close>

text \<open>The worker is fed its own messages, in the order of the log.\<close>

fun drain ::
  "worker \<Rightarrow> nat \<Rightarrow> nat \<Rightarrow> kmsg list \<times> 'z unpack_state_scheme \<Rightarrow> kmsg list \<times> 'z unpack_state_scheme" where
  "drain W 0 i st = st"
| "drain W (Suc n) i st =
     (if i < length (rs_log (snd st))
      then drain W n (i + 1) (poll_step (wk_env W) REGISTRATIONS (stage_body W) (PollMsg (rs_log (snd st) ! i)) st)
      else st)"

text \<open>The JSON codec gives back what a contract has accepted.\<close>

definition codec_ok :: "env \<Rightarrow> bool" where
  "codec_ok E \<longleftrightarrow> (\<forall>t p q. validate_payload (e_coerce E) t p = Inr q \<longrightarrow>
     e_loads E (e_dumps E (JObj q)) = Inr (JObj q))"

lemma live_bloom_add [simp]: "r_live k (bloom_add r_setbit bk ps r) = r_live k r"
proof -
  have set: "r_live k (snd (r_setbit bk p v r)) = r_live k r" for p v r
    by (auto simp: r_setbit_def Let_def r_live_def r_overdue_iff)
  then show ?thesis unfolding bloom_add_def by (induction ps arbitrary: r) simp_all
qed

lemma claim_live_key:
  "r_live i (snd (claim_message r_set t k DEFAULT_TTL_SECONDS r)) =
     (if i = idempotency_key t k \<and> r_live i r = None then Some ''1'' else r_live i r)"
  by (auto simp: claim_redis)

lemma worker_poll:
  assumes "km_value m = Some raw" "e_loads (wk_env W) raw = Inr x"
    and "validate_payload (e_coerce (wk_env W)) (km_topic m) x = Inr p"
    and "dget REGISTRATIONS (km_topic m) = Some h" "km_key m = Some k" "k \<noteq> []"
    and "r_live (idempotency_key (km_topic m) k) (rs_redis s) = None"
    and "stage_body W h \<lparr>cx_source = km_topic m, cx_key = k\<rparr> p
      (s\<lparr>rs_redis := snd (claim_message r_set (km_topic m) k DEFAULT_TTL_SECONDS (rs_redis s))\<rparr>) = (Inr (), s')"
  shows "poll_step (wk_env W) REGISTRATIONS (stage_body W) (PollMsg m) (cs, s) = (cs @ [m], s')"
  using assms by (simp add: poll_step_snd process_message_eq get_handler_def message_key_def Let_def claim_redis)

lemma triage_run:
  assumes "env_ok E" "sha256_is_hex64 (e_sha256 E data) = Some (e_sha256 E data)"
    and p: "str_field p ''job_id'' = Inr j" "str_field p ''s3_key'' = Inr key"
    and blob: "dget (is_blobs s) key = Some data" "precheck (take HEADER_BYTES data) (length data) = None"
    and new: "\<not> seen E D data (rs_redis s)" and "rs_faults s = []" "j \<noteq> []"
  shows "\<exists>r q. validate_payload (e_coerce E) FIRMWARE_TRIAGED (JObj q) = Inr q \<and>
    str_field q ''job_id'' = Inr j \<and> jget q ''s3_key'' = JNull \<and> (\<forall>k. r_live k r = r_live k (rs_redis s)) \<and>
    handle_triage E D c p s = (Inr (), s\<lparr>rs_redis := r, rs_log := rs_log s @
      [\<lparr>km_topic = FIRMWARE_TRIAGED, km_key = Some j, km_value = Some (e_dumps E (JObj q))\<rparr>]\<rparr>)"
proof -
  let ?r = "bloom_add r_setbit bloom_key (bit_positions D BLOOM_M_BITS BLOOM_K (e_sha256 E data)) (rs_redis s)"
  let ?q = "[(''job_id'', JStr j), (''sha256'', JStr (e_sha256 E data)), (''is_duplicate'', JBool False),
       (''size_bytes'', JInt (int (length data)))]"
  have key: "encode_key (partition_key FIRMWARE_TRIAGED ?q) = Inr (Some j)"
    using assms(9) by (simp add: encode_key_def partition_key_def jget_def SUB_BLOB_KEYED_TOPICS_def topic_defs)
  have v: "validate_payload (e_coerce E) FIRMWARE_TRIAGED (JObj ?q) = Inr ?q"
    using assms(1,2) by (simp add: validate_payload_Inr FirmwareTriaged_def env_ok_def coercers_ok_def ge_ok_def)
  have "handle_triage E D c p s = (Inr (), s\<lparr>rs_redis := ?r, rs_log := rs_log s @
      [\<lparr>km_topic = FIRMWARE_TRIAGED, km_key = Some j, km_value = Some (e_dumps E (JObj ?q))\<rparr>]\<rparr>)"
    using new assms(8)
    by (simp add: handle_triage_def ebind_def lift_result_def p triage_eq [OF p(2) blob(1)] blob(2)
        emit_def triaged_validates [OF assms(1,2)] key produce_def)
  then show ?thesis
    using v by (intro exI [of _ ?r] exI [of _ ?q]) (simp add: str_field_def jindex_def jget_def)
qed

definition leaf :: "worker \<Rightarrow> bytes \<Rightarrow> nat \<Rightarrow> sub_blob" where
  "leaf W data n = \<lparr>sb_id = wk_uuid W n, sb_data = data, sb_parent = None\<rparr>"

definition extracted_msg :: "env \<Rightarrow> string \<Rightarrow> sub_blob \<Rightarrow> kmsg" where
  "extracted_msg E j sb =
     \<lparr>km_topic = FIRMWARE_EXTRACTED, km_key = Some (sb_id sb),
      km_value = Some (e_dumps E (JObj (extracted_payload j sb)))\<rparr>"

lemma unpack_run:
  assumes "env_ok (wk_env W)" "str_field q ''job_id'' = Inr j" "jget q ''s3_key'' = JNull"
    and blob: "dget (is_blobs s) (default_src_key j) = Some data"
    and leaf: "\<forall>dest. wk_extractor W dest data = Inr None"
    and uuid: "wk_uuid W (us_uuids s) \<noteq> []"
    and "r_live (total_children j) (rs_redis s) = None" "rs_faults s = []"
  shows "\<exists>r. (\<forall>k. r_live k r = (if k = extraction_complete j then Some ''1''
                    else if k = total_children j then Some (int_str 1) else r_live k (rs_redis s))) \<and>
    handle_unpack (wk_env W) (wk_extractor W) (wk_uuid W) (wk_workdir W) c q s =
      (Inr (), s\<lparr>rs_redis := r,
        rs_log := rs_log s @ [extracted_msg (wk_env W) j (leaf W data (us_uuids s))],
        is_blobs := put_bytes (sub_blob_s3_key j (leaf W data (us_uuids s))) data (is_blobs s),
        us_total := 0, us_dirs := 1, us_uuids := us_uuids s + 1\<rparr>)"
proof -
  have n: "fake.counter (total_children j) (rs_redis s) = Some 0"
  proof -
    have "py_int ''0'' = Some 0" by code_simp
    then show ?thesis by (simp add: assms(7))
  qed
  obtain rd where rd: "r_incrby (total_children j) 1 (rs_redis s) = (Inr 1, rd)"
  proof -
    have "fst (r_incrby (total_children j) 1 (rs_redis s)) = Inr 1" by (simp add: fake.kincr_value n)
    then show ?thesis using that by (metis prod.collapse)
  qed
  have live: "r_live k rd = (if k = total_children j then Some (int_str 1) else r_live k (rs_redis s))" for k
    using fake.kincr_live [of k "total_children j" 1 "rs_redis s"] rd by simp
  let ?s1 = "s\<lparr>us_total := 0, us_dirs := 1, us_uuids := us_uuids s + 1\<rparr>"
  let ?sb = "leaf W data (us_uuids s)"
  have depth: "check_depth 0 = Inr ()"
    by (simp add: check_depth_def RECURSION_DEPTH_CAP_def)
  have walk: "walk (wk_extractor W) (wk_uuid W) (wk_workdir W) (length data) (fan_out (wk_env W) j) data s =
      fan_out (wk_env W) j ?sb ?s1"
    by (simp add: walk_def ebind_def lift_result_def modify_def depth next_extract_dir_def leaf new_uuid_def leaf_def)
  have src: "get_blob (default_src_key j) (is_blobs s) = Inr data"
    using blob by (simp add: get_blob_def)
  have job: "extract_job (wk_extractor W) (wk_uuid W) (wk_workdir W) q (fan_out (wk_env W) j) s =
      fan_out (wk_env W) j ?sb ?s1"
    by (simp only: extract_job_def ebind_def lift_result_def gets_def assms(2,3) Let_def src walk
        prod.case sum.case json.case)
  have fan: "fan_out (wk_env W) j ?sb ?s1 =
      (Inr (), ?s1\<lparr>is_blobs := put_bytes (sub_blob_s3_key j ?sb) data (is_blobs s), rs_redis := rd,
        rs_log := rs_log s @ [extracted_msg (wk_env W) j ?sb], rs_faults := []\<rparr>)"
    using uuid assms(8)
    by (simp add: fan_out_def ebind_def modify_def on_redis_result_def rd emit_extracted [OF assms(1)]
        produce_def extracted_msg_def leaf_def)
  obtain r where set: "r_set (extraction_complete j) ''1'' False None rd = (True, r)"
    using fake.kset_fst [of "extraction_complete j" "''1''" False None rd] that
    by (cases "r_set (extraction_complete j) ''1'' False None rd") simp
  have "handle_unpack (wk_env W) (wk_extractor W) (wk_uuid W) (wk_workdir W) c q s =
      (Inr (), s\<lparr>rs_redis := r,
        rs_log := rs_log s @ [extracted_msg (wk_env W) j ?sb],
        is_blobs := put_bytes (sub_blob_s3_key j ?sb) data (is_blobs s),
        us_total := 0, us_dirs := 1, us_uuids := us_uuids s + 1\<rparr>)"
    using assms(8) by (simp add: handle_unpack_def ebind_def lift_result_def assms(2) job [unfolded fan] on_redis_def set ret_def
        case_unit_Unity)
  moreover have "r_live k r = (if k = extraction_complete j then Some ''1''
      else if k = total_children j then Some (int_str 1) else r_live k (rs_redis s))" for k
    using fake.kset_live [where j = k and k = "extraction_complete j" and v = "''1''" and nx = False and px = None and s = rd]
    by (simp add: set live)
  ultimately show ?thesis by blast
qed

text \<open>The fragments of a job hold components as the matcher writes them.\<close>

definition fragments_ok :: "string \<Rightarrow> artifacts \<Rightarrow> bool" where
  "fragments_ok j arts \<longleftrightarrow>
     list_all (\<lambda>(k, doc). starts_with (sbom_fragment_prefix j) k \<longrightarrow>
       list_all sbom_ok (json_list (jget doc ''components''))) arts"

lemma fragments_ok_put:
  assumes "fragments_ok j arts" "list_all sbom_ok (json_list (jget doc ''components''))"
  shows "fragments_ok j (put_json k doc arts)"
proof -
  have "set (dset k doc arts) \<subseteq> insert (k, doc) (set arts)" by (induction arts) auto
  then show ?thesis
    using assms unfolding fragments_ok_def put_json_def list_all_iff by (auto dest!: subsetD)
qed

lemma final_sbom_exists:
  assumes "env_ok E" "fragments_ok j arts"
  shows "\<exists>doc. final_sbom E j arts = Some (JObj doc)"
proof -
  let ?cs = "concat (map (\<lambda>(_, doc). json_list (jget doc ''components'')) (list_json (sbom_fragment_prefix j) arts))"
  have "list_all sbom_ok ?cs"
    using assms(2) by (auto simp: fragments_ok_def list_all_iff list_json_def)
  moreover have "set (job_components j arts) \<subseteq> set ?cs"
    unfolding job_components_def
    using merge_sbom_components_spec [of "list_json (sbom_fragment_prefix j) arts"]
    by (auto dest: list_emb_set)
  ultimately have "list_all sbom_ok (job_components j arts)" by (auto simp: list_all_iff)
  from build_sbom_fragment_eq [OF assms(1) this, of j] show ?thesis
    by (auto simp: build_sbom_fragment_def final_sbom_def split: option.splits json.splits)
qed

lemma match_run:
  assumes "env_ok E" "validate_payload (e_coerce E) FIRMWARE_ANALYZED x = Inr d"
    and "\<forall>t. \<exists>v. em_encode emb t = Inr v"
    and "str_field d ''job_id'' = Inr j" "str_field d ''sub_blob_id'' = Inr b" "b \<noteq> []"
    and n: "fake.counter (matched_children j) (rs_redis s) = Some n"
    and "rs_faults s = []" "fragments_ok j (as_artifacts s)"
  shows "\<exists>out r arts. match_sub_blob (e_coerce E) T (mem_repo rows) emb narr rep DEFAULT_TOP_K d = Inr out \<and>
    validate_payload (e_coerce E) FIRMWARE_MATCHED (JObj (mo_matched_payload out)) = Inr (mo_matched_payload out) \<and>
    str_field (mo_matched_payload out) ''job_id'' = Inr j \<and> str_field (mo_matched_payload out) ''sub_blob_id'' = Inr b \<and>
    (\<forall>k. r_live k r = (if k = matched_children j then Some (int_str (n + 1)) else r_live k (rs_redis s))) \<and>
    fragments_ok j arts \<and>
    handle_cve_match E T (mem_repo rows) emb narr rep c d s =
      (Inr (), s\<lparr>rs_redis := r, rs_log := rs_log s @ [matched_msg E b (mo_matched_payload out)], as_artifacts := arts\<rparr>)"
proof -
  have C: "coercers_ok (e_coerce E)" using assms(1) by (simp add: env_ok_def)
  from handle_cve_match_run [OF assms(1-6) n, of T rows narr rep c] obtain out where
    out: "match_sub_blob (e_coerce E) T (mem_repo rows) emb narr rep DEFAULT_TOP_K d = Inr out"
    "handle_cve_match E T (mem_repo rows) emb narr rep c d s =
      produce (matched_msg E b (mo_matched_payload out))
        (s\<lparr>as_artifacts := put_json (sbom_fragment_key j b) (fragment_doc E j (mo_sbom_components out)) (as_artifacts s),
           rs_redis := snd (r_incrby (matched_children j) 1 (rs_redis s))\<rparr>)" by blast
  have live: "r_live k (snd (r_incrby (matched_children j) 1 (rs_redis s))) =
      (if k = matched_children j then Some (int_str (n + 1)) else r_live k (rs_redis s))" for k
    by (simp add: fake.kincr_live fake.kincr_value n)
  have frag: "fragments_ok j (put_json (sbom_fragment_key j b) (fragment_doc E j (mo_sbom_components out)) (as_artifacts s))"
    using match_sub_blob_sbom [OF out(1)] by (intro fragments_ok_put assms(9)) (simp add: fragment_doc_def jget_def)
  have out_ok: "validate_payload (e_coerce E) FIRMWARE_MATCHED (JObj (mo_matched_payload out)) = Inr (mo_matched_payload out)"
    "str_field (mo_matched_payload out) ''job_id'' = Inr j" "str_field (mo_matched_payload out) ''sub_blob_id'' = Inr b"
  proof -
    obtain job' b' vcs g where g: "str_field d ''job_id'' = Inr job'" "str_field d ''sub_blob_id'' = Inr b'"
      "version_candidates d = Inr vcs" "map (offered T (mem_repo rows) emb rep DEFAULT_TOP_K) vcs = map Inr (map g vcs)"
      using offered_candidates [OF assms(3,2)] by metis
    have jb: "job' = j" "b' = b" using assms(4,5) g by simp_all
    from mem_scored.match_output [OF C g, of narr] out(1) have
      p: "mo_matched_payload out = matched_payload job' b' (map (to_match_dict narr) (ranked (concat (map g vcs))))"
      and v: "validate_payload (e_coerce E) FIRMWARE_MATCHED (JObj (mo_matched_payload out)) = Inr (mo_matched_payload out)"
      by auto
    show "validate_payload (e_coerce E) FIRMWARE_MATCHED (JObj (mo_matched_payload out)) = Inr (mo_matched_payload out)"
      by (rule v)
    show "str_field (mo_matched_payload out) ''job_id'' = Inr j" "str_field (mo_matched_payload out) ''sub_blob_id'' = Inr b"
      by (simp_all add: p jb matched_payload_def str_field_def jindex_def)
  qed
  show ?thesis
    using assms(8) live frag out out_ok
    by (intro exI [of _ out] exI [of _ "snd (r_incrby (matched_children j) 1 (rs_redis s))"]
        exI [of _ "put_json (sbom_fragment_key j b) (fragment_doc E j (mo_sbom_components out)) (as_artifacts s)"])
      (simp add: produce_def)
qed

definition job_keys :: "string \<Rightarrow> string \<Rightarrow> string list" where
  "job_keys j b =
     [idempotency_key FIRMWARE_UPLOADED j, idempotency_key FIRMWARE_TRIAGED j,
      idempotency_key FIRMWARE_EXTRACTED b, idempotency_key FIRMWARE_ANALYZED b,
      idempotency_key FIRMWARE_MATCHED b, total_children j, extraction_complete j,
      completed_children j, matched_children j]"

lemma claim_seen: "seen E D data (snd (claim_message r_set t k ttl r)) = seen E D data r"
proof -
  have "rd_bits (snd (claim_message r_set t k ttl r)) = rd_bits r"
    by (simp add: claim_message_def r_set_def r_expired_def Let_def split: option.splits)
  then show ?thesis by (simp add: seen_def bloom_contains_def r_getbit_def r_bitmap_def)
qed

lemma drain_next:
  assumes "rs_log s = ms @ [m]" "poll_step (wk_env W) REGISTRATIONS (stage_body W) (PollMsg m) (cs, s) = st"
  shows "drain W (Suc n) (length ms) (cs, s) = drain W n (Suc (length ms)) st"
  using assms by simp

lemma idempotency_keys [simp]:
  "idempotency_key t k \<noteq> total_children j" "idempotency_key t k \<noteq> extraction_complete j"
  "idempotency_key t k \<noteq> completed_children j" "idempotency_key t k \<noteq> matched_children j"
  "total_children j \<noteq> idempotency_key t k" "extraction_complete j \<noteq> idempotency_key t k"
  "completed_children j \<noteq> idempotency_key t k" "matched_children j \<noteq> idempotency_key t k"
  by (simp_all add: redis_key_defs)

lemma idempotency_topics [simp]:
  "idempotency_key FIRMWARE_UPLOADED j \<noteq> idempotency_key FIRMWARE_TRIAGED k"
  "idempotency_key FIRMWARE_UPLOADED j \<noteq> idempotency_key FIRMWARE_EXTRACTED k"
  "idempotency_key FIRMWARE_UPLOADED j \<noteq> idempotency_key FIRMWARE_ANALYZED k"
  "idempotency_key FIRMWARE_UPLOADED j \<noteq> idempotency_key FIRMWARE_MATCHED k"
  "idempotency_key FIRMWARE_TRIAGED j \<noteq> idempotency_key FIRMWARE_EXTRACTED k"
  "idempotency_key FIRMWARE_TRIAGED j \<noteq> idempotency_key FIRMWARE_ANALYZED k"
  "idempotency_key FIRMWARE_TRIAGED j \<noteq> idempotency_key FIRMWARE_MATCHED k"
  "idempotency_key FIRMWARE_EXTRACTED j \<noteq> idempotency_key FIRMWARE_ANALYZED k"
  "idempotency_key FIRMWARE_EXTRACTED j \<noteq> idempotency_key FIRMWARE_MATCHED k"
  "idempotency_key FIRMWARE_ANALYZED j \<noteq> idempotency_key FIRMWARE_MATCHED k"
  by (simp_all add: redis_key_defs topic_defs)

lemmas idempotency_topics_sym [simp] = idempotency_topics [symmetric]

lemma registered_stages [simp]:
  "dget REGISTRATIONS FIRMWARE_UPLOADED = Some Triage" "dget REGISTRATIONS FIRMWARE_TRIAGED = Some Unpack"
  "dget REGISTRATIONS FIRMWARE_EXTRACTED = Some Analysis" "dget REGISTRATIONS FIRMWARE_ANALYZED = Some CveMatch"
  "dget REGISTRATIONS FIRMWARE_MATCHED = Some Aggregate"
  by (simp_all add: REGISTRATIONS_def topic_defs)

text \<open>The last stage, on the state the others leave for a job with one child.\<close>

lemma gate_of_counters:
  assumes "r_live (total_children j) r = Some (int_str n)" "r_live (extraction_complete j) r = Some ''1''"
    and "r_live (matched_children j) r = Some (int_str i)" "0 < n" "n \<le> i"
  shows "gate_open j r"
proof -
  have "py_int [] = None" by code_simp
  then have "int_str i \<noteq> []" using py_int_int_str [of i] by (metis option.distinct(1))
  then show ?thesis using assms by (simp add: gate_open_def TRUTHY_def)
qed

lemma aggregate_run:
  assumes "env_ok E" "str_field p ''job_id'' = Inr j" "str_field p ''sub_blob_id'' = Inr b"
    and counters: "r_live (total_children j) (rs_redis s) = Some (int_str n)"
      "r_live (extraction_complete j) (rs_redis s) = Some ''1''"
      "r_live (matched_children j) (rs_redis s) = Some (int_str n)" "0 < n"
    and "dget (as_docs s) j = None" "fragments_ok j (as_artifacts s)" "rs_faults s = []"
  shows "\<exists>s' rep. handle_aggregate E narr c p s = (Inr (), s') \<and>
    rs_log s' = rs_log s @ [completed_msg E j] \<and> is_complete j (as_docs s') \<and>
    get_json (report_key j) (as_artifacts s') = Some rep \<and>
    jget rep ''findings'' = JList (map (\<lambda>m. JObj (dset ''sub_blob_id'' (JStr b) (json_obj m)))
      (json_list (jget p ''cve_matches'')))"
proof -
  obtain doc where doc: "final_sbom E j (as_artifacts s) = Some (JObj doc)"
    using final_sbom_exists [OF assms(1,9)] by blast
  note gate = gate_of_counters [OF counters order_refl]
  have open_job: "\<not> is_complete j (as_docs s)" "slots_of j (as_docs s) = []"
    using assms(8) by (simp_all add: is_complete_def slots_of_def)
  from aggregate_wins [OF assms(1-3) gate open_job(1) doc assms(10), of narr] obtain s' rep where
    s': "aggregate E narr p s = (Inr (Some (completed_payload j)), s')"
    "rs_log s' = rs_log s @ [completed_msg E j]" "is_complete j (as_docs s')"
    "get_json (report_key j) (as_artifacts s') = Some rep"
    "rep = build_report E narr j
      (slot_findings (dset b (JList (json_list (jget p ''cve_matches''))) (slots_of j (as_docs s))))
      (job_components j (as_artifacts s))" by blast
  have "jget rep ''findings'' = JList (map (\<lambda>m. JObj (dset ''sub_blob_id'' (JStr b) (json_obj m)))
      (json_list (jget p ''cve_matches'')))"
    by (simp add: s'(5) open_job(2) build_report_def slot_findings_def jget_def)
  with s' show ?thesis by (simp add: handle_aggregate_def ret_def)
qed

text \<open>One step of the worker per stage, as far as the next stages depend on it.\<close>

abbreviation claimed :: "string \<Rightarrow> string \<Rightarrow> redis \<Rightarrow> redis" where
  "claimed t k r \<equiv> snd (claim_message r_set t k DEFAULT_TTL_SECONDS r)"

lemma poll_uploaded:
  assumes "env_ok (wk_env W)" "sha256_is_hex64 (e_sha256 (wk_env W) data) = Some (e_sha256 (wk_env W) data)"
    and "km_topic m = FIRMWARE_UPLOADED" "km_key m = Some j" "j \<noteq> []"
      "km_value m = Some raw" "e_loads (wk_env W) raw = Inr x"
      "validate_payload (e_coerce (wk_env W)) FIRMWARE_UPLOADED x = Inr p"
    and p: "str_field p ''job_id'' = Inr j" "str_field p ''s3_key'' = Inr key"
    and blob: "dget (is_blobs s) key = Some data" "precheck (take HEADER_BYTES data) (length data) = None"
      "\<not> seen (wk_env W) (wk_digests W) data (rs_redis s)"
    and "r_live (idempotency_key FIRMWARE_UPLOADED j) (rs_redis s) = None" "rs_faults s = []"
  shows "\<exists>r q. poll_step (wk_env W) REGISTRATIONS (stage_body W) (PollMsg m) (cs, s) =
      (cs @ [m], s\<lparr>rs_redis := r, rs_log := rs_log s @
        [\<lparr>km_topic = FIRMWARE_TRIAGED, km_key = Some j, km_value = Some (e_dumps (wk_env W) (JObj q))\<rparr>]\<rparr>) \<and>
    validate_payload (e_coerce (wk_env W)) FIRMWARE_TRIAGED (JObj q) = Inr q \<and>
    str_field q ''job_id'' = Inr j \<and> jget q ''s3_key'' = JNull \<and>
    (\<forall>k. k \<noteq> idempotency_key FIRMWARE_UPLOADED j \<longrightarrow> r_live k r = r_live k (rs_redis s))"
proof -
  let ?s0 = "s\<lparr>rs_redis := claimed FIRMWARE_UPLOADED j (rs_redis s)\<rparr>"
  let ?c = "\<lparr>cx_source = km_topic m, cx_key = j\<rparr>"
  have new: "\<not> seen (wk_env W) (wk_digests W) data (rs_redis ?s0)" using blob(3) by (simp add: claim_seen)
  have b: "dget (is_blobs ?s0) key = Some data" "rs_faults ?s0 = []" using blob(1) assms(15) by simp_all
  from triage_run [OF assms(1,2) p b(1) blob(2) new b(2) assms(5), of ?c] obtain r q where
    q: "validate_payload (e_coerce (wk_env W)) FIRMWARE_TRIAGED (JObj q) = Inr q"
      "str_field q ''job_id'' = Inr j" "jget q ''s3_key'' = JNull" "\<forall>k. r_live k r = r_live k (rs_redis ?s0)"
    and run: "handle_triage (wk_env W) (wk_digests W) ?c p ?s0 = (Inr (), ?s0\<lparr>rs_redis := r, rs_log := rs_log ?s0 @
      [\<lparr>km_topic = FIRMWARE_TRIAGED, km_key = Some j, km_value = Some (e_dumps (wk_env W) (JObj q))\<rparr>]\<rparr>)" by blast
  have "poll_step (wk_env W) REGISTRATIONS (stage_body W) (PollMsg m) (cs, s) =
      (cs @ [m], ?s0\<lparr>rs_redis := r, rs_log := rs_log ?s0 @
        [\<lparr>km_topic = FIRMWARE_TRIAGED, km_key = Some j, km_value = Some (e_dumps (wk_env W) (JObj q))\<rparr>]\<rparr>)"
    by (rule worker_poll [where h = Triage, OF assms(6,7) _ _ assms(4,5)]) (use run assms(3,8,14) in simp_all)
  then show ?thesis using q by (intro exI [of _ r] exI [of _ q]) (simp add: claim_live_key)
qed

lemma poll_triaged:
  assumes "env_ok (wk_env W)" "codec_ok (wk_env W)"
    and q: "validate_payload (e_coerce (wk_env W)) FIRMWARE_TRIAGED (JObj q) = Inr q"
      "str_field q ''job_id'' = Inr j" "jget q ''s3_key'' = JNull" "j \<noteq> []"
    and "m = \<lparr>km_topic = FIRMWARE_TRIAGED, km_key = Some j, km_value = Some (e_dumps (wk_env W) (JObj q))\<rparr>"
    and "dget (is_blobs s) (default_src_key j) = Some data" "\<forall>dest. wk_extractor W dest data = Inr None"
    and "wk_uuid W (us_uuids s) \<noteq> []" "r_live (total_children j) (rs_redis s) = None" "rs_faults s = []"
    and "r_live (idempotency_key FIRMWARE_TRIAGED j) (rs_redis s) = None"
  shows "\<exists>r. poll_step (wk_env W) REGISTRATIONS (stage_body W) (PollMsg m) (cs, s) =
      (cs @ [m], s\<lparr>rs_redis := r,
        rs_log := rs_log s @ [extracted_msg (wk_env W) j (leaf W data (us_uuids s))],
        is_blobs := put_bytes (sub_blob_s3_key j (leaf W data (us_uuids s))) data (is_blobs s),
        us_total := 0, us_dirs := 1, us_uuids := us_uuids s + 1\<rparr>) \<and>
    r_live (extraction_complete j) r = Some ''1'' \<and> r_live (total_children j) r = Some (int_str 1) \<and>
    (\<forall>k. k \<notin> {idempotency_key FIRMWARE_TRIAGED j, extraction_complete j, total_children j} \<longrightarrow>
      r_live k r = r_live k (rs_redis s))"
proof -
  let ?s0 = "s\<lparr>rs_redis := claimed FIRMWARE_TRIAGED j (rs_redis s)\<rparr>"
  let ?c = "\<lparr>cx_source = km_topic m, cx_key = j\<rparr>"
  have b: "dget (is_blobs ?s0) (default_src_key j) = Some data" "wk_uuid W (us_uuids ?s0) \<noteq> []"
    "r_live (total_children j) (rs_redis ?s0) = None" "rs_faults ?s0 = []"
    using assms(8,10-12) by (simp_all add: claim_live_key)
  from unpack_run [OF assms(1) q(2,3) b(1) assms(9) b(2-4), of ?c] obtain r where
    r: "\<forall>k. r_live k r = (if k = extraction_complete j then Some ''1''
        else if k = total_children j then Some (int_str 1) else r_live k (rs_redis ?s0))"
    and run: "handle_unpack (wk_env W) (wk_extractor W) (wk_uuid W) (wk_workdir W) ?c q ?s0 =
      (Inr (), ?s0\<lparr>rs_redis := r,
        rs_log := rs_log ?s0 @ [extracted_msg (wk_env W) j (leaf W data (us_uuids ?s0))],
        is_blobs := put_bytes (sub_blob_s3_key j (leaf W data (us_uuids ?s0))) data (is_blobs ?s0),
        us_total := 0, us_dirs := 1, us_uuids := us_uuids ?s0 + 1\<rparr>)" by blast
  have loads: "e_loads (wk_env W) (e_dumps (wk_env W) (JObj q)) = Inr (JObj q)"
    using assms(2) q(1) unfolding codec_ok_def by blast
  have "poll_step (wk_env W) REGISTRATIONS (stage_body W) (PollMsg m) (cs, s) =
      (cs @ [m], ?s0\<lparr>rs_redis := r,
        rs_log := rs_log ?s0 @ [extracted_msg (wk_env W) j (leaf W data (us_uuids ?s0))],
        is_blobs := put_bytes (sub_blob_s3_key j (leaf W data (us_uuids ?s0))) data (is_blobs ?s0),
        us_total := 0, us_dirs := 1, us_uuids := us_uuids ?s0 + 1\<rparr>)"
    by (rule worker_poll [where h = Unpack, OF _ loads _ _ _ q(4)]) (use run q(1) assms(7,13) in simp_all)
  then show ?thesis using r by (intro exI [of _ r]) (simp add: claim_live_key)
qed

lemma poll_extracted:
  fixes s :: "'z unpack_state_scheme" and sb :: sub_blob
  assumes "env_ok (wk_env W)" "codec_ok (wk_env W)" "log2_ok (wk_log2 W)"
    and "m = extracted_msg (wk_env W) j sb" "sb_id sb \<noteq> []"
    and "dget (is_blobs s) (sub_blob_s3_key j sb) = Some data"
    and "r_live (completed_children j) (rs_redis s) = None" "rs_faults s = []"
    and "r_live (idempotency_key FIRMWARE_EXTRACTED (sb_id sb)) (rs_redis s) = None"
  shows "\<exists>r out. poll_step (wk_env W) REGISTRATIONS (stage_body W) (PollMsg m) (cs, s) =
      (cs @ [m], s\<lparr>rs_redis := r, rs_log := rs_log s @
        [\<lparr>km_topic = FIRMWARE_ANALYZED, km_key = Some (sb_id sb),
          km_value = Some (e_dumps (wk_env W) (JObj out))\<rparr>]\<rparr>) \<and>
    analyze (wk_log2 W) j (sb_id sb) (take MAX_ANALYZE_BYTES data) = Inr out \<and>
    validate_payload (e_coerce (wk_env W)) FIRMWARE_ANALYZED (JObj out) = Inr out \<and>
    (\<forall>k. k \<notin> {idempotency_key FIRMWARE_EXTRACTED (sb_id sb), completed_children j} \<longrightarrow>
      r_live k r = r_live k (rs_redis s))"
proof -
  let ?b = "sb_id sb" and ?q = "extracted_payload j sb"
  let ?s0 = "s\<lparr>rs_redis := claimed FIRMWARE_EXTRACTED ?b (rs_redis s)\<rparr>"
  let ?c = "\<lparr>cx_source = km_topic m, cx_key = ?b\<rparr>"
  have f: "str_field ?q ''job_id'' = Inr j" "str_field ?q ''sub_blob_id'' = Inr ?b"
    "str_field ?q ''s3_key'' = Inr (sub_blob_s3_key j sb)"
    by (simp_all add: extracted_payload_def str_field_def jindex_def)
  have "py_int ''0'' = Some 0" by code_simp
  then have n: "fake.counter (completed_children j) (rs_redis ?s0) = Some 0"
    using assms(7) by (simp add: claim_live_key)
  have b: "dget (is_blobs ?s0) (sub_blob_s3_key j sb) = Some data" "rs_faults ?s0 = []" using assms(6,8) by simp_all
  from handle_analysis_run [OF assms(1,3) f b(1) n b(2) assms(5), of ?c] obtain out where
    out: "analyze (wk_log2 W) j ?b (take MAX_ANALYZE_BYTES data) = Inr out"
      "validate_payload (e_coerce (wk_env W)) FIRMWARE_ANALYZED (JObj out) = Inr out"
    and run: "handle_analysis (wk_env W) (wk_log2 W) ?c ?q ?s0 =
      (Inr (), ?s0\<lparr>rs_redis := snd (r_incrby (completed_children j) 1 (rs_redis ?s0)),
                 rs_log := rs_log ?s0 @ [\<lparr>km_topic = FIRMWARE_ANALYZED, km_key = Some ?b,
                              km_value = Some (e_dumps (wk_env W) (JObj out))\<rparr>]\<rparr>)" by blast
  have v: "validate_payload (e_coerce (wk_env W)) FIRMWARE_EXTRACTED (JObj ?q) = Inr ?q"
    by (rule extracted_validates [OF assms(1)])
  have loads: "e_loads (wk_env W) (e_dumps (wk_env W) (JObj ?q)) = Inr (JObj ?q)"
    using assms(2) v unfolding codec_ok_def by blast
  have poll: "poll_step (wk_env W) REGISTRATIONS (stage_body W) (PollMsg m) (cs, s) =
      (cs @ [m], ?s0\<lparr>rs_redis := snd (r_incrby (completed_children j) 1 (rs_redis ?s0)),
                 rs_log := rs_log ?s0 @ [\<lparr>km_topic = FIRMWARE_ANALYZED, km_key = Some ?b,
                              km_value = Some (e_dumps (wk_env W) (JObj out))\<rparr>]\<rparr>)"
    by (rule worker_poll [where h = Analysis, OF _ loads _ _ _ assms(5)])
      (use run v assms(4,9) in \<open>simp_all add: extracted_msg_def\<close>)
  have "r_live k (snd (r_incrby (completed_children j) 1 (rs_redis ?s0))) = r_live k (rs_redis s)"
    if "k \<notin> {idempotency_key FIRMWARE_EXTRACTED ?b, completed_children j}" for k
    using that by (simp add: fake.incr_other claim_live_key)
  with poll out show ?thesis
    by (intro exI [of _ "snd (r_incrby (completed_children j) 1 (rs_redis ?s0))"] exI [of _ out]) simp
qed

lemma poll_analyzed:
  assumes "env_ok (wk_env W)" "codec_ok (wk_env W)"
    and repo: "wk_repo W = mem_repo rows" "\<forall>t. \<exists>v. em_encode (wk_embedder W) t = Inr v"
    and d: "validate_payload (e_coerce (wk_env W)) FIRMWARE_ANALYZED (JObj d) = Inr d"
      "str_field d ''job_id'' = Inr j" "str_field d ''sub_blob_id'' = Inr b" "b \<noteq> []"
    and "m = \<lparr>km_topic = FIRMWARE_ANALYZED, km_key = Some b, km_value = Some (e_dumps (wk_env W) (JObj d))\<rparr>"
    and "r_live (matched_children j) (rs_redis s) = None" "rs_faults s = []" "fragments_ok j (as_artifacts s)"
    and "r_live (idempotency_key FIRMWARE_ANALYZED b) (rs_redis s) = None"
  shows "\<exists>r out arts. poll_step (wk_env W) REGISTRATIONS (stage_body W) (PollMsg m) (cs, s) =
      (cs @ [m], s\<lparr>rs_redis := r, rs_log := rs_log s @ [matched_msg (wk_env W) b (mo_matched_payload out)],
        as_artifacts := arts\<rparr>) \<and>
    match_sub_blob (e_coerce (wk_env W)) (wk_thresholds W) (mem_repo rows) (wk_embedder W) (wk_narrator W)
      (wk_repr W) DEFAULT_TOP_K d = Inr out \<and>
    validate_payload (e_coerce (wk_env W)) FIRMWARE_MATCHED (JObj (mo_matched_payload out)) = Inr (mo_matched_payload out) \<and>
    str_field (mo_matched_payload out) ''job_id'' = Inr j \<and> str_field (mo_matched_payload out) ''sub_blob_id'' = Inr b \<and>
    fragments_ok j arts \<and> r_live (matched_children j) r = Some (int_str 1) \<and>
    (\<forall>k. k \<notin> {idempotency_key FIRMWARE_ANALYZED b, matched_children j} \<longrightarrow> r_live k r = r_live k (rs_redis s))"
proof -
  let ?s0 = "s\<lparr>rs_redis := claimed FIRMWARE_ANALYZED b (rs_redis s)\<rparr>"
  let ?c = "\<lparr>cx_source = km_topic m, cx_key = b\<rparr>"
  have "py_int ''0'' = Some 0" by code_simp
  then have s0: "fake.counter (matched_children j) (rs_redis ?s0) = Some 0" "rs_faults ?s0 = []"
    "fragments_ok j (as_artifacts ?s0)"
    using assms(10-12) by (simp_all add: claim_live_key)
  from match_run [OF assms(1) d(1) repo(2) d(2-4) s0, of "wk_thresholds W" rows "wk_narrator W" "wk_repr W" ?c]
  obtain out r arts where
    out: "match_sub_blob (e_coerce (wk_env W)) (wk_thresholds W) (mem_repo rows) (wk_embedder W) (wk_narrator W)
        (wk_repr W) DEFAULT_TOP_K d = Inr out"
      "validate_payload (e_coerce (wk_env W)) FIRMWARE_MATCHED (JObj (mo_matched_payload out)) = Inr (mo_matched_payload out)"
      "str_field (mo_matched_payload out) ''job_id'' = Inr j" "str_field (mo_matched_payload out) ''sub_blob_id'' = Inr b"
      "\<forall>k. r_live k r = (if k = matched_children j then Some (int_str (0 + 1)) else r_live k (rs_redis ?s0))"
      "fragments_ok j arts"
    and run: "handle_cve_match (wk_env W) (wk_thresholds W) (mem_repo rows) (wk_embedder W) (wk_narrator W)
        (wk_repr W) ?c d ?s0 =
      (Inr (), ?s0\<lparr>rs_redis := r, rs_log := rs_log ?s0 @ [matched_msg (wk_env W) b (mo_matched_payload out)],
        as_artifacts := arts\<rparr>)" by blast
  have loads: "e_loads (wk_env W) (e_dumps (wk_env W) (JObj d)) = Inr (JObj d)"
    using assms(2) d(1) unfolding codec_ok_def by blast
  have "poll_step (wk_env W) REGISTRATIONS (stage_body W) (PollMsg m) (cs, s) =
      (cs @ [m], ?s0\<lparr>rs_redis := r, rs_log := rs_log ?s0 @ [matched_msg (wk_env W) b (mo_matched_payload out)],
        as_artifacts := arts\<rparr>)"
    by (rule worker_poll [where h = CveMatch, OF _ loads _ _ _ d(4)]) (use run d(1) assms(9,13) repo(1) in simp_all)
  then show ?thesis
    using out by (intro exI [of _ r] exI [of _ out] exI [of _ arts]) (simp add: claim_live_key)
qed

lemma poll_matched:
  assumes "env_ok (wk_env W)" "codec_ok (wk_env W)"
    and p: "validate_payload (e_coerce (wk_env W)) FIRMWARE_MATCHED (JObj p) = Inr p"
      "str_field p ''job_id'' = Inr j" "str_field p ''sub_blob_id'' = Inr b" "b \<noteq> []"
    and "m = matched_msg (wk_env W) b p"
    and counters: "r_live (total_children j) (rs_redis s) = Some (int_str 1)"
      "r_live (extraction_complete j) (rs_redis s) = Some ''1''"
      "r_live (matched_children j) (rs_redis s) = Some (int_str 1)"
    and "dget (as_docs s) j = None" "fragments_ok j (as_artifacts s)" "rs_faults s = []"
    and "r_live (idempotency_key FIRMWARE_MATCHED b) (rs_redis s) = None"
  shows "\<exists>s' rep. poll_step (wk_env W) REGISTRATIONS (stage_body W) (PollMsg m) (cs, s) = (cs @ [m], s') \<and>
    rs_log s' = rs_log s @ [completed_msg (wk_env W) j] \<and> is_complete j (as_docs s') \<and>
    get_json (report_key j) (as_artifacts s') = Some rep \<and>
    jget rep ''findings'' = JList (map (\<lambda>m. JObj (dset ''sub_blob_id'' (JStr b) (json_obj m)))
      (json_list (jget p ''cve_matches'')))"
proof -
  let ?s0 = "s\<lparr>rs_redis := claimed FIRMWARE_MATCHED b (rs_redis s)\<rparr>"
  let ?c = "\<lparr>cx_source = km_topic m, cx_key = b\<rparr>"
  have s0: "r_live (total_children j) (rs_redis ?s0) = Some (int_str 1)"
    "r_live (extraction_complete j) (rs_redis ?s0) = Some ''1''"
    "r_live (matched_children j) (rs_redis ?s0) = Some (int_str 1)"
    "dget (as_docs ?s0) j = None" "fragments_ok j (as_artifacts ?s0)" "rs_faults ?s0 = []"
    using assms(8-13) by (simp_all add: claim_live_key)
  from aggregate_run [OF assms(1) p(2,3) s0(1-3) _ s0(4-6), of "wk_narrator W" ?c] obtain s' rep where
    s': "rs_log s' = rs_log s @ [completed_msg (wk_env W) j]" "is_complete j (as_docs s')"
      "get_json (report_key j) (as_artifacts s') = Some rep"
      "jget rep ''findings'' = JList (map (\<lambda>m. JObj (dset ''sub_blob_id'' (JStr b) (json_obj m)))
        (json_list (jget p ''cve_matches'')))"
    and run: "handle_aggregate (wk_env W) (wk_narrator W) ?c p ?s0 = (Inr (), s')" by auto
  have loads: "e_loads (wk_env W) (e_dumps (wk_env W) (JObj p)) = Inr (JObj p)"
    using assms(2) p(1) unfolding codec_ok_def by blast
  have "poll_step (wk_env W) REGISTRATIONS (stage_body W) (PollMsg m) (cs, s) = (cs @ [m], s')"
    by (rule worker_poll [where h = Aggregate, OF _ loads _ _ _ p(4)])
      (use run p(1) assms(7,14) in \<open>simp_all add: matched_msg_def\<close>)
  with s' show ?thesis by blast
qed

text \<open>From the upload to the fan-out of its only sub-blob.\<close>

lemma upload_to_extracted:
  fixes W :: worker and s :: "'z unpack_state_scheme"
  assumes env: "env_ok (wk_env W)" "codec_ok (wk_env W)"
    and upload: "rs_log s = pre @ [m]" "km_topic m = FIRMWARE_UPLOADED" "km_key m = Some j" "j \<noteq> []"
      "km_value m = Some raw" "e_loads (wk_env W) raw = Inr x"
      "validate_payload (e_coerce (wk_env W)) FIRMWARE_UPLOADED x = Inr p"
      "str_field p ''job_id'' = Inr j" "str_field p ''s3_key'' = Inr (default_src_key j)"
    and blob: "dget (is_blobs s) (default_src_key j) = Some data"
      "precheck (take HEADER_BYTES data) (length data) = None" "\<not> seen (wk_env W) (wk_digests W) data (rs_redis s)"
      "sha256_is_hex64 (e_sha256 (wk_env W) data) = Some (e_sha256 (wk_env W) data)"
    and leaf: "\<forall>dest. wk_extractor W dest data = Inr None" "wk_uuid W (us_uuids s) = b" "b \<noteq> []"
    and fresh: "\<forall>k \<in> set (job_keys j b). r_live k (rs_redis s) = None"
      "rs_faults s = []"
  shows "\<exists>m1 t. drain W (Suc (Suc n)) (length pre) (cs, s) = drain W n (length (pre @ [m, m1])) (cs @ [m, m1], t) \<and>
    km_topic m1 = FIRMWARE_TRIAGED \<and>
    rs_log t = (pre @ [m, m1]) @ [extracted_msg (wk_env W) j (leaf W data (us_uuids s))] \<and>
    dget (is_blobs t) (sub_blob_s3_key j (leaf W data (us_uuids s))) = Some data \<and>
    as_docs t = as_docs s \<and> as_artifacts t = as_artifacts s \<and> rs_faults t = [] \<and>
    r_live (total_children j) (rs_redis t) = Some (int_str 1) \<and>
    r_live (extraction_complete j) (rs_redis t) = Some ''1'' \<and>
    list_all (\<lambda>k. r_live k (rs_redis t) = None)
      [idempotency_key FIRMWARE_EXTRACTED b, idempotency_key FIRMWARE_ANALYZED b,
       idempotency_key FIRMWARE_MATCHED b, completed_children j, matched_children j]"
proof -
  have keys: "r_live k (rs_redis s) = None" if "k \<in> set (job_keys j b)" for k using fresh(1) that by blast
  have free: "r_live (idempotency_key FIRMWARE_UPLOADED j) (rs_redis s) = None"
    "r_live (idempotency_key FIRMWARE_TRIAGED j) (rs_redis s) = None"
    "r_live (idempotency_key FIRMWARE_EXTRACTED b) (rs_redis s) = None"
    "r_live (idempotency_key FIRMWARE_ANALYZED b) (rs_redis s) = None"
    "r_live (idempotency_key FIRMWARE_MATCHED b) (rs_redis s) = None"
    "r_live (total_children j) (rs_redis s) = None" "r_live (completed_children j) (rs_redis s) = None"
    "r_live (matched_children j) (rs_redis s) = None"
    by (simp_all add: keys job_keys_def)
  let ?sb = "leaf W data (us_uuids s)"
  have sb: "sb_id ?sb = b" by (simp add: leaf_def leaf(2))
  obtain r1 q where s1: "poll_step (wk_env W) REGISTRATIONS (stage_body W) (PollMsg m) (cs, s) =
      (cs @ [m], s\<lparr>rs_redis := r1, rs_log := rs_log s @
        [\<lparr>km_topic = FIRMWARE_TRIAGED, km_key = Some j, km_value = Some (e_dumps (wk_env W) (JObj q))\<rparr>]\<rparr>)"
    and q: "validate_payload (e_coerce (wk_env W)) FIRMWARE_TRIAGED (JObj q) = Inr q"
      "str_field q ''job_id'' = Inr j" "jget q ''s3_key'' = JNull"
    and r1: "\<forall>k. k \<noteq> idempotency_key FIRMWARE_UPLOADED j \<longrightarrow> r_live k r1 = r_live k (rs_redis s)"
    using poll_uploaded [OF env(1) blob(4) upload(2-9) blob(1-3) free(1) fresh(2)] by blast
  define m1 where "m1 = \<lparr>km_topic = FIRMWARE_TRIAGED, km_key = Some j, km_value = Some (e_dumps (wk_env W) (JObj q))\<rparr>"
  define t1 where "t1 = s\<lparr>rs_redis := r1, rs_log := pre @ [m, m1]\<rparr>"
  have d1: "drain W (Suc (Suc n)) (length pre) (cs, s) = drain W (Suc n) (length (pre @ [m])) (cs @ [m], t1)"
    using drain_next [OF upload(1) s1, of "Suc n"] by (simp add: t1_def m1_def upload(1))
  have l1: "rs_log t1 = (pre @ [m]) @ [m1]" by (simp add: t1_def)
  have a1: "dget (is_blobs t1) (default_src_key j) = Some data" "us_uuids t1 = us_uuids s"
    "wk_uuid W (us_uuids t1) \<noteq> []" "rs_faults t1 = []"
    "r_live (total_children j) (rs_redis t1) = None"
    "r_live (idempotency_key FIRMWARE_TRIAGED j) (rs_redis t1) = None"
    using blob(1) leaf(2,3) fresh(2) r1 free by (simp_all add: t1_def)
  obtain r2 where s2: "poll_step (wk_env W) REGISTRATIONS (stage_body W) (PollMsg m1) (cs @ [m], t1) =
      ((cs @ [m]) @ [m1], t1\<lparr>rs_redis := r2, rs_log := rs_log t1 @ [extracted_msg (wk_env W) j ?sb],
        is_blobs := put_bytes (sub_blob_s3_key j ?sb) data (is_blobs t1),
        us_total := 0, us_dirs := 1, us_uuids := us_uuids t1 + 1\<rparr>)"
    and r2: "r_live (extraction_complete j) r2 = Some ''1''" "r_live (total_children j) r2 = Some (int_str 1)"
      "\<forall>k. k \<notin> {idempotency_key FIRMWARE_TRIAGED j, extraction_complete j, total_children j} \<longrightarrow>
        r_live k r2 = r_live k (rs_redis t1)"
    using poll_triaged [OF env(1,2) q upload(4) m1_def a1(1) leaf(1) a1(3,5,4,6), of "cs @ [m]"]
    by (auto simp only: a1(2))
  define m2 where "m2 = extracted_msg (wk_env W) j ?sb"
  define t2 where "t2 = t1\<lparr>rs_redis := r2, rs_log := (pre @ [m, m1]) @ [m2],
    is_blobs := put_bytes (sub_blob_s3_key j ?sb) data (is_blobs t1),
    us_total := 0, us_dirs := 1, us_uuids := us_uuids t1 + 1\<rparr>"
  have d2: "drain W (Suc n) (length (pre @ [m])) (cs @ [m], t1) = drain W n (length (pre @ [m, m1])) (cs @ [m, m1], t2)"
    using drain_next [OF l1 s2, of n] by (simp add: t2_def m2_def l1)
  have "list_all (\<lambda>k. r_live k (rs_redis t2) = None)
      [idempotency_key FIRMWARE_EXTRACTED b, idempotency_key FIRMWARE_ANALYZED b,
       idempotency_key FIRMWARE_MATCHED b, completed_children j, matched_children j]"
    using r1 r2(3) free by (simp add: t2_def t1_def)
  with d1 d2 r2(1,2) fresh(2) show ?thesis
    by (intro exI [of _ m1] exI [of _ t2]) (simp add: t2_def t1_def m1_def m2_def put_bytes_def)
qed

text \<open>From the only sub-blob of a job to the completion of the job.\<close>

lemma extracted_to_completed:
  fixes W :: worker and s :: "'z unpack_state_scheme"
  assumes env: "env_ok (wk_env W)" "codec_ok (wk_env W)" "log2_ok (wk_log2 W)"
    and repo: "wk_repo W = mem_repo rows" "\<forall>t. \<exists>v. em_encode (wk_embedder W) t = Inr v"
    and sb: "rs_log s = pre @ [extracted_msg (wk_env W) j sb]" "sb_id sb = b" "b \<noteq> []"
      "dget (is_blobs s) (sub_blob_s3_key j sb) = Some data"
    and counters: "r_live (total_children j) (rs_redis s) = Some (int_str 1)"
      "r_live (extraction_complete j) (rs_redis s) = Some ''1''"
    and fresh: "list_all (\<lambda>k. r_live k (rs_redis s) = None)
        [idempotency_key FIRMWARE_EXTRACTED b, idempotency_key FIRMWARE_ANALYZED b,
         idempotency_key FIRMWARE_MATCHED b, completed_children j, matched_children j]"
      "dget (as_docs s) j = None" "fragments_ok j (as_artifacts s)" "rs_faults s = []"
  shows "\<exists>t analyzed out rep. snd (drain W 3 (length pre) (cs, s)) = t \<and>
    analyze (wk_log2 W) j b (take MAX_ANALYZE_BYTES data) = Inr analyzed \<and>
    match_sub_blob (e_coerce (wk_env W)) (wk_thresholds W) (mem_repo rows) (wk_embedder W) (wk_narrator W) (wk_repr W)
      DEFAULT_TOP_K analyzed = Inr out \<and>
    map km_topic (rs_log t) = map km_topic pre @
      [FIRMWARE_EXTRACTED, FIRMWARE_ANALYZED, FIRMWARE_MATCHED, FIRMWARE_COMPLETED] \<and>
    is_complete j (as_docs t) \<and> get_json (report_key j) (as_artifacts t) = Some rep \<and>
    jget rep ''findings'' = JList (map (\<lambda>f. JObj (dset ''sub_blob_id'' (JStr b) (json_obj f)))
      (json_list (jget (mo_matched_payload out) ''cve_matches'')))"
proof -
  define m2 where "m2 = extracted_msg (wk_env W) j sb"
  have ids: "sb_id sb \<noteq> []" "r_live (completed_children j) (rs_redis s) = None"
    "r_live (idempotency_key FIRMWARE_EXTRACTED (sb_id sb)) (rs_redis s) = None"
    using sb(2,3) fresh(1) by simp_all
  obtain r3 an where s3: "poll_step (wk_env W) REGISTRATIONS (stage_body W) (PollMsg m2) (cs, s) =
      (cs @ [m2], s\<lparr>rs_redis := r3, rs_log := rs_log s @
        [\<lparr>km_topic = FIRMWARE_ANALYZED, km_key = Some (sb_id sb),
          km_value = Some (e_dumps (wk_env W) (JObj an))\<rparr>]\<rparr>)"
    and an: "analyze (wk_log2 W) j (sb_id sb) (take MAX_ANALYZE_BYTES data) = Inr an"
      "validate_payload (e_coerce (wk_env W)) FIRMWARE_ANALYZED (JObj an) = Inr an"
    and r3: "\<forall>k. k \<notin> {idempotency_key FIRMWARE_EXTRACTED (sb_id sb), completed_children j} \<longrightarrow>
        r_live k r3 = r_live k (rs_redis s)"
    using poll_extracted [OF env(1-3) m2_def ids(1) sb(4) ids(2) fresh(4) ids(3), of cs] by blast
  have anf: "str_field an ''job_id'' = Inr j" "str_field an ''sub_blob_id'' = Inr b"
    using analyze_accepted [OF _ env(3), of "e_coerce (wk_env W)" j b "take MAX_ANALYZE_BYTES data"] env(1) an(1)
    by (auto simp: env_ok_def sb(2) str_field_def jindex_def jget_def split: option.splits)
  define m3 where "m3 = \<lparr>km_topic = FIRMWARE_ANALYZED, km_key = Some b,
    km_value = Some (e_dumps (wk_env W) (JObj an))\<rparr>"
  define t3 where "t3 = s\<lparr>rs_redis := r3, rs_log := (pre @ [m2]) @ [m3]\<rparr>"
  have d3: "drain W 3 (length pre) (cs, s) =
      drain W 2 (length (pre @ [m2])) (cs @ [m2], t3)"
    using drain_next [OF sb(1) [folded m2_def] s3, of 2] by (simp add: t3_def m3_def sb m2_def [symmetric])
  have l3: "rs_log t3 = (pre @ [m2]) @ [m3]" by (simp add: t3_def)
  have a3: "r_live (matched_children j) (rs_redis t3) = None" "rs_faults t3 = []" "fragments_ok j (as_artifacts t3)"
    "r_live (idempotency_key FIRMWARE_ANALYZED b) (rs_redis t3) = None"
    using fresh r3 by (simp_all add: t3_def sb(2))
  obtain r4 out arts where s4: "poll_step (wk_env W) REGISTRATIONS (stage_body W) (PollMsg m3) (cs @ [m2], t3) =
      ((cs @ [m2]) @ [m3], t3\<lparr>rs_redis := r4,
        rs_log := rs_log t3 @ [matched_msg (wk_env W) b (mo_matched_payload out)], as_artifacts := arts\<rparr>)"
    and out: "match_sub_blob (e_coerce (wk_env W)) (wk_thresholds W) (mem_repo rows) (wk_embedder W)
        (wk_narrator W) (wk_repr W) DEFAULT_TOP_K an = Inr out"
      "validate_payload (e_coerce (wk_env W)) FIRMWARE_MATCHED (JObj (mo_matched_payload out)) = Inr (mo_matched_payload out)"
      "str_field (mo_matched_payload out) ''job_id'' = Inr j" "str_field (mo_matched_payload out) ''sub_blob_id'' = Inr b"
      "fragments_ok j arts"
    and r4: "r_live (matched_children j) r4 = Some (int_str 1)"
      "\<forall>k. k \<notin> {idempotency_key FIRMWARE_ANALYZED b, matched_children j} \<longrightarrow> r_live k r4 = r_live k (rs_redis t3)"
    using poll_analyzed [OF env(1,2) repo an(2) anf sb(3) m3_def a3, of "cs @ [m2]"] by blast
  define m4 where "m4 = matched_msg (wk_env W) b (mo_matched_payload out)"
  define t4 where "t4 = t3\<lparr>rs_redis := r4, rs_log := (pre @ [m2, m3]) @ [m4], as_artifacts := arts\<rparr>"
  have d4: "drain W 2 (length (pre @ [m2])) (cs @ [m2], t3) =
      drain W 1 (length (pre @ [m2, m3])) (cs @ [m2, m3], t4)"
    using drain_next [OF l3 s4, of 1] by (simp add: t4_def m4_def l3 numeral_2_eq_2)
  have l4: "rs_log t4 = (pre @ [m2, m3]) @ [m4]" by (simp add: t4_def)
  have a4: "r_live (total_children j) (rs_redis t4) = Some (int_str 1)"
    "r_live (extraction_complete j) (rs_redis t4) = Some ''1''"
    "r_live (matched_children j) (rs_redis t4) = Some (int_str 1)"
    "dget (as_docs t4) j = None" "fragments_ok j (as_artifacts t4)" "rs_faults t4 = []"
    "r_live (idempotency_key FIRMWARE_MATCHED b) (rs_redis t4) = None"
    using fresh counters r3 r4 out(5) by (simp_all add: t4_def t3_def sb(2))
  obtain t5 rep where s5: "poll_step (wk_env W) REGISTRATIONS (stage_body W) (PollMsg m4) (cs @ [m2, m3], t4) =
      ((cs @ [m2, m3]) @ [m4], t5)"
    and t5: "rs_log t5 = rs_log t4 @ [completed_msg (wk_env W) j]" "is_complete j (as_docs t5)"
      "get_json (report_key j) (as_artifacts t5) = Some rep"
      "jget rep ''findings'' = JList (map (\<lambda>f. JObj (dset ''sub_blob_id'' (JStr b) (json_obj f)))
        (json_list (jget (mo_matched_payload out) ''cve_matches'')))"
    using poll_matched [OF env(1,2) out(2-4) sb(3) m4_def a4, of "cs @ [m2, m3]"] by blast
  have "drain W 1 (length (pre @ [m2, m3])) (cs @ [m2, m3], t4) = (cs @ [m2, m3, m4], t5)"
    using drain_next [OF l4 s5, of 0] by simp
  with d3 d4 have "snd (drain W 3 (length pre) (cs, s)) = t5" by simp
  moreover have "map km_topic (rs_log t5) = map km_topic pre @
      [FIRMWARE_EXTRACTED, FIRMWARE_ANALYZED, FIRMWARE_MATCHED, FIRMWARE_COMPLETED]"
    by (simp add: t5(1) l4 m2_def m3_def m4_def extracted_msg_def matched_msg_def completed_msg_def)
  ultimately show ?thesis
    using an(1) out(1) t5 by (intro exI [of _ t5] exI [of _ an] exI [of _ out] exI [of _ rep]) (simp add: sb(2))
qed

text \<open>
  C5. End to end: in a fresh state of the job, an accepted upload that is not an archive goes
  through all five stages of a worker that is fed its own messages: the log grows by exactly
  one message per stage, the job completes, and the findings of its report are what the
  matcher finds for the analysis of the uploaded bytes, attributed to their sub-blob.
\<close>

theorem single_image_completes:
  fixes W :: worker and s :: "'z unpack_state_scheme"
  assumes env: "env_ok (wk_env W)" "codec_ok (wk_env W)" "log2_ok (wk_log2 W)"
    and repo: "wk_repo W = mem_repo rows" "\<forall>t. \<exists>v. em_encode (wk_embedder W) t = Inr v"
    and upload: "rs_log s = pre @ [m]" "km_topic m = FIRMWARE_UPLOADED" "km_key m = Some j" "j \<noteq> []"
      "km_value m = Some raw" "e_loads (wk_env W) raw = Inr x"
      "validate_payload (e_coerce (wk_env W)) FIRMWARE_UPLOADED x = Inr p"
      "str_field p ''job_id'' = Inr j" "str_field p ''s3_key'' = Inr (default_src_key j)"
    and blob: "dget (is_blobs s) (default_src_key j) = Some data"
      "precheck (take HEADER_BYTES data) (length data) = None" "\<not> seen (wk_env W) (wk_digests W) data (rs_redis s)"
      "sha256_is_hex64 (e_sha256 (wk_env W) data) = Some (e_sha256 (wk_env W) data)"
    and leaf: "\<forall>dest. wk_extractor W dest data = Inr None" "wk_uuid W (us_uuids s) = b" "b \<noteq> []"
    and fresh: "\<forall>k \<in> set (job_keys j b). r_live k (rs_redis s) = None" "dget (as_docs s) j = None"
      "fragments_ok j (as_artifacts s)" "rs_faults s = []"
  shows "\<exists>s' analyzed out rep.
    snd (drain W 5 (length pre) (cs, s)) = s' \<and>
    analyze (wk_log2 W) j b (take MAX_ANALYZE_BYTES data) = Inr analyzed \<and>
    match_sub_blob (e_coerce (wk_env W)) (wk_thresholds W) (mem_repo rows) (wk_embedder W) (wk_narrator W) (wk_repr W)
      DEFAULT_TOP_K analyzed = Inr out \<and>
    map km_topic (rs_log s') = map km_topic pre @ [FIRMWARE_UPLOADED, FIRMWARE_TRIAGED, FIRMWARE_EXTRACTED,
      FIRMWARE_ANALYZED, FIRMWARE_MATCHED, FIRMWARE_COMPLETED] \<and>
    is_complete j (as_docs s') \<and> get_json (report_key j) (as_artifacts s') = Some rep \<and>
    jget rep ''findings'' = JList (map (\<lambda>f. JObj (dset ''sub_blob_id'' (JStr b) (json_obj f)))
      (json_list (jget (mo_matched_payload out) ''cve_matches'')))"
proof -
  obtain m1 t where t: "drain W (Suc (Suc 3)) (length pre) (cs, s) = drain W 3 (length (pre @ [m, m1])) (cs @ [m, m1], t)"
    "km_topic m1 = FIRMWARE_TRIAGED"
    "rs_log t = (pre @ [m, m1]) @ [extracted_msg (wk_env W) j (leaf W data (us_uuids s))]"
    "dget (is_blobs t) (sub_blob_s3_key j (leaf W data (us_uuids s))) = Some data"
    "as_docs t = as_docs s" "as_artifacts t = as_artifacts s" "rs_faults t = []"
    "r_live (total_children j) (rs_redis t) = Some (int_str 1)"
    "r_live (extraction_complete j) (rs_redis t) = Some ''1''"
    "list_all (\<lambda>k. r_live k (rs_redis t) = None)
      [idempotency_key FIRMWARE_EXTRACTED b, idempotency_key FIRMWARE_ANALYZED b,
       idempotency_key FIRMWARE_MATCHED b, completed_children j, matched_children j]"
    using upload_to_extracted [OF env(1,2) upload blob leaf fresh(1,4), of 3 cs] by blast
  have sb: "sb_id (leaf W data (us_uuids s)) = b" by (simp add: leaf_def leaf(2))
  show ?thesis
    using extracted_to_completed [OF env repo t(3) sb leaf(3) t(4,8,9,10), of "cs @ [m, m1]"] fresh(2,3) t(1,2,5-7) upload(2)
    by simp
qed

section \<open>What a report can miss\<close>

text \<open>No call of the aggregator changes what Redis shows, nor spoils a fragment.\<close>

lemma fragments_ok_reports:
  assumes "fragments_ok i arts"
  shows "fragments_ok i (put_json (report_key j) rep (put_json (sbom_key j) doc arts))"
proof -
  have put: "fragments_ok i (put_json k doc arts)"
    if "fragments_ok i arts" "\<not> starts_with (sbom_fragment_prefix i) k" for k doc arts
  proof -
    have "set (dset k doc arts) \<subseteq> insert (k, doc) (set arts)" by (induction arts) auto
    then show ?thesis using that unfolding fragments_ok_def put_json_def list_all_iff by (auto dest!: subsetD)
  qed
  have "\<not> starts_with (sbom_fragment_prefix i) (sbom_key j)" "\<not> starts_with (sbom_fragment_prefix i) (report_key j)"
    by (simp_all add: sbom_fragment_prefix_def sbom_key_def report_key_def starts_with_def)
  with assms show ?thesis by (intro put)
qed

lemma aggregate_fragments:
  assumes "str_field p ''job_id'' = Inr j" "str_field p ''sub_blob_id'' = Inr b" "env_ok E"
    and "fragments_ok i (as_artifacts s)"
  shows "fragments_ok i (as_artifacts (snd (aggregate E narr p s)))"
proof -
  from aggregate_eq [OF assms(1,2), of s E narr] obtain r where ag: "aggregate E narr p s =
    (let s1 = s\<lparr>as_docs := record_sub_blob (e_now E) j b (json_list (jget p ''cve_matches'')) (as_docs s),
                rs_redis := r\<rparr>
     in if \<not> gate_open j (rs_redis s) then (Inr None, s1)
        else (case finalize_job E narr j s1 of
                (Inl e, s2) \<Rightarrow> (Inl e, s2)
              | (Inr None, s2) \<Rightarrow> (Inr None, s2)
              | (Inr (Some completed), s2) \<Rightarrow>
                  ebind (emit E FIRMWARE_COMPLETED completed) (\<lambda>_. ret (Some completed)) s2))" by blast
  let ?s1 = "s\<lparr>as_docs := record_sub_blob (e_now E) j b (json_list (jget p ''cve_matches'')) (as_docs s), rs_redis := r\<rparr>"
  have fin: "fragments_ok i (as_artifacts (snd (finalize_job E narr j ?s1)))"
  proof (cases "\<exists>doc. final_sbom E j (as_artifacts ?s1) = Some (JObj doc)")
    case True
    then obtain doc where doc: "final_sbom E j (as_artifacts ?s1) = Some (JObj doc)" by blast
    show ?thesis
    proof (cases "is_complete j (as_docs ?s1)")
      case False
      show ?thesis
        using assms(4) by (simp add: finalize_job_wins [OF assms(3) False doc] fragments_ok_reports)
    qed (use assms(4) in \<open>simp add: finalize_job_lost [OF _ doc]\<close>)
  qed (use assms(4) in \<open>simp add: finalize_job_invalid\<close>)
  obtain x t where xt: "finalize_job E narr j ?s1 = (x, t)" by fastforce
  have emit: "as_artifacts (snd (ebind (emit E FIRMWARE_COMPLETED c) (\<lambda>_. ret (Some c)) t)) = as_artifacts t" for c
    by (auto simp: emit_def ebind_def ret_def lift_result_def produce_def split: sum.splits list.splits bool.splits)
  show ?thesis
    using fin assms(4) by (auto simp: ag Let_def xt emit split: sum.splits option.splits)
qed

text \<open>Once a job is complete, a further slot changes neither the log nor any artifact.\<close>

lemma aggregate_late:
  assumes "str_field p ''job_id'' = Inr j" "str_field p ''sub_blob_id'' = Inr b" "env_ok E"
    and "is_complete j (as_docs s)" "fragments_ok j (as_artifacts s)"
  shows "\<exists>s'. aggregate E narr p s = (Inr None, s') \<and> rs_log s' = rs_log s \<and> as_artifacts s' = as_artifacts s"
proof -
  from aggregate_eq [OF assms(1,2), of s E narr] obtain r where
    ag: "aggregate E narr p s =
    (let s1 = s\<lparr>as_docs := record_sub_blob (e_now E) j b (json_list (jget p ''cve_matches'')) (as_docs s),
                rs_redis := r\<rparr>
     in if \<not> gate_open j (rs_redis s) then (Inr None, s1)
        else (case finalize_job E narr j s1 of
                (Inl e, s2) \<Rightarrow> (Inl e, s2)
              | (Inr None, s2) \<Rightarrow> (Inr None, s2)
              | (Inr (Some completed), s2) \<Rightarrow>
                  ebind (emit E FIRMWARE_COMPLETED completed) (\<lambda>_. ret (Some completed)) s2))" by blast
  let ?s1 = "s\<lparr>as_docs := record_sub_blob (e_now E) j b (json_list (jget p ''cve_matches'')) (as_docs s), rs_redis := r\<rparr>"
  obtain doc where "final_sbom E j (as_artifacts ?s1) = Some (JObj doc)"
    using final_sbom_exists [OF assms(3,5)] by auto
  moreover have "is_complete j (as_docs ?s1)" using assms(4) by (simp add: mem_reports.record_complete)
  ultimately have "finalize_job E narr j ?s1 = (Inr None, ?s1)" by (intro finalize_job_lost)
  then show ?thesis by (simp add: ag Let_def)
qed

text \<open>
  C6. The gate counts matches, not recorded slots: when both children of a job are matched
  before the first of the two events is aggregated, the job completes with the findings of the
  first child only, and aggregating the second one changes neither the report nor the SBOM nor
  the log any more.
\<close>

theorem early_gate_loses_findings:
  assumes "env_ok E" and emb: "\<forall>t. \<exists>v. em_encode emb t = Inr v"
    and d: "validate_payload (e_coerce E) FIRMWARE_ANALYZED x = Inr d" "str_field d ''job_id'' = Inr j"
      "str_field d ''sub_blob_id'' = Inr b" "b \<noteq> []"
    and d': "validate_payload (e_coerce E) FIRMWARE_ANALYZED x' = Inr d'" "str_field d' ''job_id'' = Inr j"
      "str_field d' ''sub_blob_id'' = Inr b'" "b' \<noteq> []"
    and counters: "r_live (total_children j) (rs_redis s) = Some (int_str 2)"
      "r_live (extraction_complete j) (rs_redis s) = Some ''1''" "r_live (matched_children j) (rs_redis s) = None"
    and fresh: "dget (as_docs s) j = None" "fragments_ok j (as_artifacts s)" "rs_faults s = []"
  shows "\<exists>s1 s2 s3 s4 out out' rep.
    match_sub_blob (e_coerce E) T (mem_repo rows) emb narr rpr DEFAULT_TOP_K d = Inr out \<and>
    match_sub_blob (e_coerce E) T (mem_repo rows) emb narr rpr DEFAULT_TOP_K d' = Inr out' \<and>
    handle_cve_match E T (mem_repo rows) emb narr rpr c1 d s = (Inr (), s1) \<and>
    handle_cve_match E T (mem_repo rows) emb narr rpr c2 d' s1 = (Inr (), s2) \<and>
    rs_log s2 = rs_log s @ [matched_msg E b (mo_matched_payload out), matched_msg E b' (mo_matched_payload out')] \<and>
    handle_aggregate E narr c3 (mo_matched_payload out) s2 = (Inr (), s3) \<and>
    rs_log s3 = rs_log s2 @ [completed_msg E j] \<and>
    get_json (report_key j) (as_artifacts s3) = Some rep \<and>
    jget rep ''findings'' = JList (map (\<lambda>m. JObj (dset ''sub_blob_id'' (JStr b) (json_obj m)))
      (json_list (jget (mo_matched_payload out) ''cve_matches''))) \<and>
    handle_aggregate E narr c4 (mo_matched_payload out') s3 = (Inr (), s4) \<and>
    rs_log s4 = rs_log s3 \<and> as_artifacts s4 = as_artifacts s3"
proof -
  have "py_int ''0'' = Some 0" by code_simp
  then have n0: "fake.counter (matched_children j) (rs_redis s) = Some 0" using counters(3) by simp
  obtain out r1 arts1 where m1: "match_sub_blob (e_coerce E) T (mem_repo rows) emb narr rpr DEFAULT_TOP_K d = Inr out"
    and out: "str_field (mo_matched_payload out) ''job_id'' = Inr j"
      "str_field (mo_matched_payload out) ''sub_blob_id'' = Inr b" "fragments_ok j arts1"
      "\<forall>k. r_live k r1 = (if k = matched_children j then Some (int_str (0 + 1)) else r_live k (rs_redis s))"
    and run1: "handle_cve_match E T (mem_repo rows) emb narr rpr c1 d s =
      (Inr (), s\<lparr>rs_redis := r1, rs_log := rs_log s @ [matched_msg E b (mo_matched_payload out)], as_artifacts := arts1\<rparr>)"
    using match_run [OF assms(1) d(1) emb d(2-4) n0 fresh(3,2), of T rows narr rpr c1]
    by blast
  let ?s1 = "s\<lparr>rs_redis := r1, rs_log := rs_log s @ [matched_msg E b (mo_matched_payload out)], as_artifacts := arts1\<rparr>"
  have s1: "fake.counter (matched_children j) (rs_redis ?s1) = Some 1" "rs_faults ?s1 = []" "fragments_ok j (as_artifacts ?s1)"
    using out(3,4) fresh(3) by simp_all
  obtain out' r2 arts2 where m2: "match_sub_blob (e_coerce E) T (mem_repo rows) emb narr rpr DEFAULT_TOP_K d' = Inr out'"
    and out': "str_field (mo_matched_payload out') ''job_id'' = Inr j"
      "str_field (mo_matched_payload out') ''sub_blob_id'' = Inr b'" "fragments_ok j arts2"
      "\<forall>k. r_live k r2 = (if k = matched_children j then Some (int_str (1 + 1)) else r_live k (rs_redis ?s1))"
    and run2: "handle_cve_match E T (mem_repo rows) emb narr rpr c2 d' ?s1 =
      (Inr (), ?s1\<lparr>rs_redis := r2, rs_log := rs_log ?s1 @ [matched_msg E b' (mo_matched_payload out')], as_artifacts := arts2\<rparr>)"
    using match_run [OF assms(1) d'(1) emb d'(2-4) s1, of T rows narr rpr c2]
    by blast
  let ?s2 = "?s1\<lparr>rs_redis := r2, rs_log := rs_log ?s1 @ [matched_msg E b' (mo_matched_payload out')], as_artifacts := arts2\<rparr>"
  have s2: "r_live (total_children j) (rs_redis ?s2) = Some (int_str 2)"
    "r_live (extraction_complete j) (rs_redis ?s2) = Some ''1''"
    "r_live (matched_children j) (rs_redis ?s2) = Some (int_str 2)"
    "dget (as_docs ?s2) j = None" "fragments_ok j (as_artifacts ?s2)" "rs_faults ?s2 = []"
    using out(4) out'(3,4) counters fresh by simp_all
  obtain s3 rep where s3: "handle_aggregate E narr c3 (mo_matched_payload out) ?s2 = (Inr (), s3)"
    "rs_log s3 = rs_log ?s2 @ [completed_msg E j]" "is_complete j (as_docs s3)"
    "get_json (report_key j) (as_artifacts s3) = Some rep"
    "jget rep ''findings'' = JList (map (\<lambda>m. JObj (dset ''sub_blob_id'' (JStr b) (json_obj m)))
      (json_list (jget (mo_matched_payload out) ''cve_matches'')))"
    using aggregate_run [OF assms(1) out(1,2) s2(1-3) _ s2(4-6), of narr c3] by auto
  have "s3 = snd (aggregate E narr (mo_matched_payload out) ?s2)"
    using s3(1) by (auto simp: handle_aggregate_def ebind_def ret_def split: prod.splits sum.splits)
  then have "fragments_ok j (as_artifacts s3)"
    using aggregate_fragments [OF out(1,2) assms(1) s2(5), of narr] by simp
  from aggregate_late [OF out'(1,2) assms(1) s3(3) this, of narr] obtain s4 where
    s4: "aggregate E narr (mo_matched_payload out') s3 = (Inr None, s4)" "rs_log s4 = rs_log s3"
      "as_artifacts s4 = as_artifacts s3" by blast
  have "handle_aggregate E narr c4 (mo_matched_payload out') s3 = (Inr (), s4)"
    by (simp add: handle_aggregate_def s4(1) ret_def)
  with m1 m2 run1 run2 s3 s4 show ?thesis
    by (intro exI [of _ ?s1] exI [of _ ?s2] exI [of _ s3] exI [of _ s4] exI [of _ out] exI [of _ out'] exI [of _ rep]) simp
qed

section \<open>Witnesses\<close>

text \<open>A codec with the round trip: a JSON value is written as a number in unary.\<close>

instance json :: countable by countable_datatype

definition unary_env :: env where
  "unary_env = sample_env\<lparr>e_dumps := \<lambda>v. replicate (to_nat v) CHR ''1'',
     e_loads := \<lambda>t. Inr (from_nat (length t))\<rparr>"

lemma unary_env_ok: "env_ok unary_env" "codec_ok unary_env"
  using sample_env_ok by (simp_all add: unary_env_def env_ok_def codec_ok_def)

definition sample_worker :: worker where
  "sample_worker =
     \<lparr>wk_env = unary_env, wk_digests = sample_digests, wk_extractor = (\<lambda>_ _. Inr None), wk_uuid = (\<lambda>_. ''b''),
      wk_workdir = ''/w'', wk_log2 = (\<lambda>_. 0), wk_thresholds = [], wk_repo = mem_repo sample_corpus,
      wk_embedder = sample_embedder, wk_narrator = None, wk_repr = (\<lambda>_. [])\<rparr>"

definition sample_upload :: payload where
  "sample_upload = [(''job_id'', JStr ''j''), (''s3_key'', JStr (default_src_key ''j'')),
     (''uploaded_by'', JStr ''u''), (''uploaded_at'', JStr ''t'')]"

definition sample_upload_msg :: kmsg where
  "sample_upload_msg = \<lparr>km_topic = FIRMWARE_UPLOADED, km_key = Some ''j'',
     km_value = Some (e_dumps unary_env (JObj sample_upload))\<rparr>"

definition sample_pipeline :: unpack_state where
  "sample_pipeline =
     \<lparr>rs_redis = redis_empty, rs_log = [sample_upload_msg], rs_faults = [], as_docs = [], as_artifacts = [],
      as_jobs = [], as_pg_up = True, is_blobs = [(default_src_key ''j'', sample_blob)],
      us_total = 0, us_dirs = 0, us_uuids = 0\<rparr>"

theorem single_image_completes_witness:
  "is_complete ''j'' (as_docs (snd (drain sample_worker 5 0 ([], sample_pipeline))))"
proof -
  have coerce: "e_coerce unary_env = strict_coercers" by (simp add: unary_env_def sample_env_def)
  have up: "validate_payload strict_coercers FIRMWARE_UPLOADED (JObj sample_upload) = Inr sample_upload"
    by (simp add: validate_payload_def FirmwareUploaded_def strict_coercers_def sample_upload_def)
  have new: "\<not> seen unary_env sample_digests sample_blob redis_empty"
    by (simp add: seen_def bloom_contains_def bit_positions_def BLOOM_K_def r_getbit_def
        r_bitmap_def redis_empty_def upt_rec Let_def)
  have live: "r_live k redis_empty = None" for k by (simp add: r_live_def redis_empty_def)
  have hex: "sha256_is_hex64 (replicate 64 CHR ''0'') = Some (replicate 64 CHR ''0'')" by code_simp
  have f: "str_field sample_upload ''job_id'' = Inr ''j''"
    "str_field sample_upload ''s3_key'' = Inr (default_src_key ''j'')"
    by (simp_all add: sample_upload_def str_field_def jindex_def)
  have "\<exists>s' analyzed out rep.
    snd (drain sample_worker 5 (length ([] :: kmsg list)) ([], sample_pipeline)) = s' \<and>
    analyze (wk_log2 sample_worker) ''j'' ''b'' (take MAX_ANALYZE_BYTES sample_blob) = Inr analyzed \<and>
    match_sub_blob (e_coerce (wk_env sample_worker)) (wk_thresholds sample_worker) (mem_repo sample_corpus)
      (wk_embedder sample_worker) (wk_narrator sample_worker) (wk_repr sample_worker)
      DEFAULT_TOP_K analyzed = Inr out \<and>
    map km_topic (rs_log s') = map km_topic ([] :: kmsg list) @ [FIRMWARE_UPLOADED, FIRMWARE_TRIAGED, FIRMWARE_EXTRACTED,
      FIRMWARE_ANALYZED, FIRMWARE_MATCHED, FIRMWARE_COMPLETED] \<and>
    is_complete ''j'' (as_docs s') \<and> get_json (report_key ''j'') (as_artifacts s') = Some rep \<and>
    jget rep ''findings'' = JList (map (\<lambda>f. JObj (dset ''sub_blob_id'' (JStr ''b'') (json_obj f)))
      (json_list (jget (mo_matched_payload out) ''cve_matches'')))"
    by (rule single_image_completes [where m = sample_upload_msg and raw = "e_dumps unary_env (JObj sample_upload)"
          and x = "JObj sample_upload" and p = sample_upload])
      (simp_all add: sample_worker_def sample_pipeline_def sample_upload_msg_def unary_env_ok log2_ok_def
        coerce up f sample_precheck new sample_embedder_total fragments_ok_def job_keys_def live,
       simp_all add: unary_env_def sample_env_def hex)
  then show ?thesis by auto
qed

theorem worker_stage_order_witness:
  "\<exists>ms. rs_log (snd (snd (worker_run sample_worker ''all'' [PollMsg sample_upload_msg] ([], sample_pipeline)))) =
     rs_log sample_pipeline @ ms \<and>
   (\<forall>m' \<in> set ms. km_topic m' = FIRMWARE_DLQ \<or>
     (\<exists>m. PollMsg m \<in> set [PollMsg sample_upload_msg] \<and> dget NEXT_TOPIC (km_topic m) = Some (km_topic m')))"
proof -
  obtain r cs' s' where run: "worker_run sample_worker ''all'' [PollMsg sample_upload_msg] ([], sample_pipeline) = (r, cs', s')"
    by (metis prod.exhaust)
  have "env_ok (wk_env sample_worker)" by (simp add: sample_worker_def unary_env_ok)
  from worker_stage_order [OF this run] show ?thesis by (simp add: run)
qed

theorem worker_completes_once_witness:
  "completed_count ''j'' (rs_log (snd (snd (worker_run sample_worker ''all''
     [PollMsg sample_upload_msg, PollMsg sample_upload_msg] ([], sample_pipeline))))) \<le> 1"
proof -
  obtain r cs' s' where run: "worker_run sample_worker ''all''
     [PollMsg sample_upload_msg, PollMsg sample_upload_msg] ([], sample_pipeline) = (r, cs', s')"
    by (metis prod.exhaust)
  have "env_ok (wk_env sample_worker)" by (simp add: sample_worker_def unary_env_ok)
  moreover have "completed_count ''j'' (rs_log sample_pipeline) = 0"
    by (simp add: completed_count_def sample_pipeline_def sample_upload_msg_def topic_defs)
  ultimately show ?thesis using worker_completes_once [OF _ _ run] by (simp add: run)
qed

definition sample_second :: payload where
  "sample_second = dset ''sub_blob_id'' (JStr ''c'') sample_analyzed"

definition sample_two_children :: report_state where
  "sample_two_children =
     \<lparr>rs_redis = \<lparr>rd_store = [(total_children ''j'', int_str 2), (extraction_complete ''j'', ''1'')],
                   rd_expiry = [], rd_bits = [], rd_now = 0\<rparr>,
      rs_log = [], rs_faults = [], as_docs = [], as_artifacts = [], as_jobs = [], as_pg_up = True\<rparr>"

theorem early_gate_loses_findings_witness:
  "\<exists>s1 s2 s3 s4 (out :: match_output) (out' :: match_output).
    handle_cve_match sample_env [] (mem_repo sample_corpus) sample_embedder None (\<lambda>_. [])
      \<lparr>cx_source = [], cx_key = []\<rparr> sample_analyzed sample_two_children = (Inr (), s1) \<and>
    handle_cve_match sample_env [] (mem_repo sample_corpus) sample_embedder None (\<lambda>_. [])
      \<lparr>cx_source = [], cx_key = []\<rparr> sample_second s1 = (Inr (), s2) \<and>
    handle_aggregate sample_env None \<lparr>cx_source = [], cx_key = []\<rparr> (mo_matched_payload out) s2 = (Inr (), s3) \<and>
    handle_aggregate sample_env None \<lparr>cx_source = [], cx_key = []\<rparr> (mo_matched_payload out') s3 = (Inr (), s4) \<and>
    rs_log s3 = rs_log s2 @ [completed_msg sample_env ''j''] \<and> rs_log s4 = rs_log s3 \<and>
    as_artifacts s4 = as_artifacts s3"
proof -
  let ?c = "\<lparr>cx_source = [], cx_key = []\<rparr> :: ctx"
  have coerce: "e_coerce sample_env = strict_coercers" by (simp add: sample_env_def)
  have v: "validate_payload (e_coerce sample_env) FIRMWARE_ANALYZED (JObj sample_analyzed) = Inr sample_analyzed"
    by (simp add: coerce sample_analyzed_valid)
  have v': "validate_payload (e_coerce sample_env) FIRMWARE_ANALYZED (JObj sample_second) = Inr sample_second"
    by (simp add: coerce validate_payload_Inr FirmwareAnalyzed_def sample_second_def sample_analyzed_def
        sample_candidate_def VersionCandidate_def HardeningFlags_def strict_coercers_def)
  have f: "str_field sample_analyzed ''job_id'' = Inr ''j''" "str_field sample_analyzed ''sub_blob_id'' = Inr ''b''"
    "str_field sample_second ''job_id'' = Inr ''j''" "str_field sample_second ''sub_blob_id'' = Inr ''c''"
    by (simp_all add: str_field_def jindex_def sample_second_def sample_analyzed_def)
  have s: "r_live (total_children ''j'') (rs_redis sample_two_children) = Some (int_str 2)"
    "r_live (extraction_complete ''j'') (rs_redis sample_two_children) = Some ''1''"
    "r_live (matched_children ''j'') (rs_redis sample_two_children) = None"
    "dget (as_docs sample_two_children) ''j'' = None" "fragments_ok ''j'' (as_artifacts sample_two_children)"
    "rs_faults sample_two_children = []"
    by (simp_all add: sample_two_children_def r_live_def r_overdue_def fragments_ok_def)
  have ne: "''b'' \<noteq> []" "''c'' \<noteq> []" by simp_all
  from early_gate_loses_findings [OF sample_env_ok sample_embedder_total v f(1,2) ne(1) v' f(3,4) ne(2) s,
      of "[]" sample_corpus None "\<lambda>_. []" ?c ?c ?c ?c]
  show ?thesis by blast
qed

end
