(* ===== verification/Sandbox.thy ===== *)
theory Sandbox
  imports Unpack
begin

text \<open>
  The supervision of an extraction process (\<open>services/ingestion/sandbox.py\<close>): the polling loop
  with its wall-clock and ratio watchdogs, the kill of the process group, the classification
  of the exit, and the extractor that runs \<open>binwalk\<close> under it (\<open>extract.py\<close>). What the process
  and the clock do is a parameter. The lemmas show that the supervision always ends, with the
  verdict of the first reading that calls for one, and when it kills.
\<close>

section \<open>sandbox.py\<close>

definition LAYER_SANDBOX_TIMEOUT :: string where
  "LAYER_SANDBOX_TIMEOUT = ''sandbox_timeout''"

definition WALL_CLOCK_TIMEOUT_SECONDS :: nat where
  "WALL_CLOCK_TIMEOUT_SECONDS = 60"

definition STATUS_OK :: string where "STATUS_OK = ''ok''"
definition STATUS_ERROR :: string where "STATUS_ERROR = ''error''"

record sandbox_result =
  sr_status :: string
  sr_returncode :: "int option"
  sr_stdout :: string
  sr_stderr :: string

definition result_ok :: "sandbox_result \<Rightarrow> bool" where
  "result_ok r \<longleftrightarrow> sr_status r = STATUS_OK \<and> sr_returncode r = Some 0"

text \<open>
  What the supervisor reads: the return code at the \<open>n\<close>-th poll of a process nobody has killed,
  the elapsed seconds and the size of the output directory in that iteration; whether a killed
  process is reaped within the five seconds of \<open>wait\<close>; and the output that \<open>communicate\<close>
  collects, \<open>None\<close> when a descendant keeps the pipes open for longer than five seconds.
\<close>

record child =
  ch_poll :: "nat \<Rightarrow> int option"
  ch_elapsed :: "nat \<Rightarrow> rat"
  ch_size :: "nat \<Rightarrow> nat"
  ch_reaped :: bool
  ch_output :: "(string \<times> string) option"

text \<open>The outcome carries the number of \<open>killpg\<close> calls made so far.\<close>

definition after_kill :: "child \<Rightarrow> exn \<Rightarrow> exn" where
  "after_kill c e = (if ch_reaped c then e else TimeoutExpired)"

partial_function (option) supervise ::
  "child \<Rightarrow> nat \<Rightarrow> nat \<Rightarrow> nat \<Rightarrow> nat \<Rightarrow> (int result \<times> nat) option" where
  "supervise c input_size timeout ratio_limit n =
     (case ch_poll c n of
        Some rc \<Rightarrow> Some (Inr rc, 0)
      | None \<Rightarrow>
          if of_nat timeout < ch_elapsed c n
          then Some (Inl (after_kill c (ExtractionError LAYER_SANDBOX_TIMEOUT ''wall clock exceeded'')), 1)
          else if 0 < input_size \<and> input_size * ratio_limit < ch_size c n
          then Some (Inl (after_kill c (ZipBombError LAYER_DECOMPRESSION_RATIO ''sandbox output exceeds limit'')), 1)
          else supervise c input_size timeout ratio_limit (n + 1))"

definition collect_exit :: "child \<Rightarrow> int \<Rightarrow> sandbox_result result" where
  "collect_exit c rc =
     (case ch_output c of
        None \<Rightarrow> Inl TimeoutExpired
      | Some (out, err) \<Rightarrow>
          Inr \<lparr>sr_status = (if rc = 0 then STATUS_OK else STATUS_ERROR), sr_returncode = Some rc,
               sr_stdout = out, sr_stderr = err\<rparr>)"

text \<open>The \<open>finally\<close> block kills again when \<open>poll\<close> still returns \<open>None\<close>: the process was not reaped.\<close>

definition run_sandboxed ::
  "child \<Rightarrow> nat \<Rightarrow> nat \<Rightarrow> nat \<Rightarrow> (sandbox_result result \<times> nat) option" where
  "run_sandboxed c input_size timeout ratio_limit =
     (case supervise c input_size timeout ratio_limit 0 of
        None \<Rightarrow> None
      | Some (Inr rc, kills) \<Rightarrow> Some (collect_exit c rc, kills)
      | Some (Inl e, kills) \<Rightarrow> Some (Inl e, if ch_reaped c then kills else kills + 1))"

section \<open>extract.py: binwalk in the sandbox\<close>

text \<open>
  The files that are in the output directory afterwards are collected whatever the result of
  the process was. The arguments \<open>spawn\<close> and \<open>produced\<close> are the process and the files it wrote.
\<close>

definition sandboxed_binwalk ::
  "(string \<Rightarrow> bytes \<Rightarrow> child) \<Rightarrow> (string \<Rightarrow> bytes \<Rightarrow> files) \<Rightarrow> string \<Rightarrow> bytes \<Rightarrow> files result option" where
  "sandboxed_binwalk spawn produced dest data =
     (case run_sandboxed (spawn dest data) (length data) WALL_CLOCK_TIMEOUT_SECONDS DECOMPRESSION_RATIO_LIMIT of
        None \<Rightarrow> None
      | Some (Inl e, kills) \<Rightarrow> Some (Inl e)
      | Some (Inr result, kills) \<Rightarrow> Some (Inr (produced dest data)))"

section \<open>The first reading that calls for a verdict\<close>

definition stops :: "child \<Rightarrow> nat \<Rightarrow> nat \<Rightarrow> nat \<Rightarrow> nat \<Rightarrow> bool" where
  "stops c input_size timeout ratio_limit n \<longleftrightarrow>
     ch_poll c n \<noteq> None \<or> of_nat timeout < ch_elapsed c n \<or>
     (0 < input_size \<and> input_size * ratio_limit < ch_size c n)"

definition verdict :: "child \<Rightarrow> nat \<Rightarrow> nat \<Rightarrow> sandbox_result result" where
  "verdict c timeout n =
     (case ch_poll c n of
        Some rc \<Rightarrow> collect_exit c rc
      | None \<Rightarrow> Inl (after_kill c
          (if of_nat timeout < ch_elapsed c n
           then ExtractionError LAYER_SANDBOX_TIMEOUT ''wall clock exceeded''
           else ZipBombError LAYER_DECOMPRESSION_RATIO ''sandbox output exceeds limit'')))"

lemma supervise_skip:
  "(\<And>m. m < n \<Longrightarrow> \<not> stops c isz timeout ratio m) \<Longrightarrow>
   supervise c isz timeout ratio 0 = supervise c isz timeout ratio n"
proof (induction n)
  case (Suc n)
  have "supervise c isz timeout ratio 0 = supervise c isz timeout ratio n"
    using Suc.prems by (intro Suc.IH) simp
  also have "\<dots> = supervise c isz timeout ratio (Suc n)"
    using Suc.prems [of n] by (subst supervise.simps) (auto simp: stops_def)
  finally show ?case .
qed simp

lemma run_sandboxed_first:
  assumes "stops c isz timeout ratio n" "\<And>m. m < n \<Longrightarrow> \<not> stops c isz timeout ratio m"
  shows "run_sandboxed c isz timeout ratio =
    Some (verdict c timeout n, if ch_poll c n = None then (if ch_reaped c then 1 else 2) else 0)"
proof -
  have "supervise c isz timeout ratio 0 = supervise c isz timeout ratio n"
    using assms(2) by (rule supervise_skip)
  then show ?thesis
    using assms(1)
    by (subst (asm) supervise.simps [of _ _ _ _ n])
      (auto simp: run_sandboxed_def verdict_def stops_def split: option.splits)
qed

text \<open>
  C28. Supervision ends whatever the process does, as long as the clock advances: the result is
  the verdict of the first poll at which the process has exited, the time is over or the output
  is too large, in this order of precedence; and the process group is killed exactly when the
  process itself had not exited by then.
\<close>

theorem sandbox_always_ends:
  assumes "\<exists>n. of_nat timeout < ch_elapsed c n"
  shows "\<exists>n. stops c isz timeout ratio n \<and> (\<forall>m. m < n \<longrightarrow> \<not> stops c isz timeout ratio m) \<and>
    (\<exists>kills. run_sandboxed c isz timeout ratio = Some (verdict c timeout n, kills) \<and>
      (0 < kills) = (ch_poll c n = None))"
proof -
  define n where "n = (LEAST n. stops c isz timeout ratio n)"
  from assms obtain k where "stops c isz timeout ratio k" by (auto simp: stops_def)
  then have n: "stops c isz timeout ratio n" unfolding n_def by (rule LeastI)
  have least: "\<not> stops c isz timeout ratio m" if "m < n" for m
    using that unfolding n_def by (rule not_less_Least)
  show ?thesis
    using n least run_sandboxed_first [OF n least] by (intro exI [of _ n]) auto
qed

text \<open>
  Nothing is killed once the leader has exited, even when a descendant still holds its pipes
  and \<open>communicate\<close> fails for that reason.
\<close>

lemma descendants_survive:
  assumes "ch_poll c 0 = Some rc" "ch_output c = None"
  shows "run_sandboxed c isz timeout ratio = Some (Inl TimeoutExpired, 0)"
  using run_sandboxed_first [of c isz timeout ratio 0] assms
  by (simp add: stops_def verdict_def collect_exit_def)

text \<open>A failed run of the extractor still hands on the files it left.\<close>

lemma binwalk_result_ignored:
  assumes "ch_poll (spawn dest data) 0 = Some rc" "ch_output (spawn dest data) = Some out"
  shows "sandboxed_binwalk spawn produced dest data = Some (Inr (produced dest data))"
  using run_sandboxed_first [of "spawn dest data" "length data" WALL_CLOCK_TIMEOUT_SECONDS DECOMPRESSION_RATIO_LIMIT 0] assms
  by (cases out) (simp add: stops_def verdict_def collect_exit_def sandboxed_binwalk_def)

section \<open>Witness\<close>

definition sample_child :: child where
  "sample_child = \<lparr>ch_poll = (\<lambda>n. None), ch_elapsed = of_nat, ch_size = (\<lambda>n. 10 * n), ch_reaped = True,
     ch_output = None\<rparr>"

theorem sandbox_always_ends_witness:
  "\<exists>n. stops sample_child 1 60 100 n \<and>
    (\<exists>kills. run_sandboxed sample_child 1 60 100 = Some (verdict sample_child 60 n, kills) \<and> 0 < kills)"
proof -
  have "\<exists>n. of_nat 60 < ch_elapsed sample_child n"
    by (rule exI [of _ 61]) (simp add: sample_child_def)
  from sandbox_always_ends [OF this, of 1 100] show ?thesis by (auto simp: sample_child_def)
qed

end
