(* ===== verification/CveApi.thy ===== *)
theory CveApi
  imports Gateway FeedbackLoop Matcher
begin

text \<open>
  The HTTP surface around reports: grounding context of the chat (\<open>services/cve_matching/rag.py\<close>),
  chat and feedback (\<open>services/gateway/cve_api.py\<close>), the feedback and configuration routes
  (\<open>services/integration/http.py\<close>), job list and report (\<open>services/integration/reports_api.py\<close>),
  and the Postgres feedback store (\<open>services/cve_matching/feedback.py\<close>). The lemmas show what the
  chat cites, that it survives every failing dependency, and what each role can change.
\<close>

section \<open>rag.py\<close>

record rag_context =
  rc_job_id :: string
  rc_chunks :: "string list"
  rc_sources :: "string list"
  rc_job_status :: json
  rc_finding_count :: nat

text \<open>The findings of a finalized report, or the matches a partial document has so far.\<close>

definition job_findings :: "payload \<Rightarrow> payload list" where
  "job_findings report =
     (if truthy (jget report ''findings'') then map json_obj (json_list (jget report ''findings''))
      else concat (map (\<lambda>(_, matches). map json_obj (json_list matches))
                     (json_obj (jget report ''sub_blobs''))))"

definition finding_ids :: "payload list \<Rightarrow> string list" where
  "finding_ids findings =
     concat (map (\<lambda>f. case jget f ''cve_id'' of JStr c \<Rightarrow> if c \<noteq> [] then [c] else [] | _ \<Rightarrow> []) findings)"

definition tier_line :: "(json \<Rightarrow> string) \<Rightarrow> payload \<Rightarrow> string" where
  "tier_line rep f =
     py_text rep (jget f ''cve_id'') @ '' ['' @ py_text rep (jget f ''confidence_tier'') @ '']''"

definition grounding_chunks :: "(json \<Rightarrow> string) \<Rightarrow> payload \<Rightarrow> string list" where
  "grounding_chunks rep report =
     (let findings = job_findings report
      in if findings = [] then []
         else
           (if truthy (jget report ''executive_summary'')
            then [''Report summary: '' @ py_text rep (jget report ''executive_summary'')] else []) @
           [''This job'' @ [CHR 39] @ ''s findings: '' @ join '', '' (map (tier_line rep) (take 20 findings))])"

definition hit_chunk :: "cve_record \<Rightarrow> string" where
  "hit_chunk r = cr_cve_id r @ '' ('' @ cr_cpe_string r @ ''): '' @ cr_description r"

text \<open>What the retrieval yields; any exception of the embedder or the corpus means nothing.\<close>

definition retrieve :: "corpus_repo \<Rightarrow> embedder \<Rightarrow> string \<Rightarrow> int \<Rightarrow> cve_record list" where
  "retrieve repo emb question top_k =
     (case rbind (em_encode emb question) (\<lambda>q. co_similar repo q top_k) of
        Inl e \<Rightarrow> [] | Inr hits \<Rightarrow> map fst hits)"

definition surface_first :: "string list \<Rightarrow> string list \<Rightarrow> string list" where
  "surface_first job_ids sources =
     foldl (\<lambda>sources c. if c \<in> set sources then sources else c # sources) sources job_ids"

text \<open>
  \<open>order\<close> is the iteration order of the Python set of the job's CVE ids; \<open>get\<close> the report store.
\<close>

definition build_context ::
  "(json \<Rightarrow> string) \<Rightarrow> (string list \<Rightarrow> string list) \<Rightarrow> (string \<Rightarrow> payload option result) \<Rightarrow>
   corpus_repo \<Rightarrow> embedder \<Rightarrow> string \<Rightarrow> string \<Rightarrow> int \<Rightarrow> rag_context" where
  "build_context rep order get repo emb job_id question top_k =
     (let report = (case get job_id of Inr (Some r) \<Rightarrow> r | _ \<Rightarrow> []);
          findings = (if report = [] then [] else job_findings report);
          hits = retrieve repo emb question top_k;
          sources = foldl (\<lambda>sources r. push_new (cr_cve_id r) sources) [] hits
      in \<lparr>rc_job_id = job_id,
          rc_chunks = (if report = [] then [] else grounding_chunks rep report) @ map hit_chunk hits,
          rc_sources = surface_first (order (dedup (finding_ids findings))) sources,
          rc_job_status = (if report = [] then JNull else jget report ''status''),
          rc_finding_count = length findings\<rparr>)"

section \<open>feedback.py: the Postgres store\<close>

text \<open>
  The table has \<open>feedback_id\<close> as its primary key; a database that is down or refuses the row
  makes the call return \<open>None\<close>.
\<close>

definition pg_submit :: "bool \<Rightarrow> string \<Rightarrow> string \<Rightarrow> feedback \<Rightarrow> (feedback list, string option) eff" where
  "pg_submit up uuid now fb rows =
     (case prepare_feedback uuid now fb of
        Inl e \<Rightarrow> (Inl e, rows)
      | Inr fb \<Rightarrow>
          if \<not> up \<or> fb_feedback_id fb \<in> set (map fb_feedback_id rows) then (Inr None, rows)
          else (Inr (Some (fb_feedback_id fb)), rows @ [fb]))"

definition pg_list_for_job :: "bool \<Rightarrow> string \<Rightarrow> feedback list \<Rightarrow> feedback list" where
  "pg_list_for_job up job_id rows = (if up then filter (\<lambda>f. fb_job_id f = job_id) rows else [])"

section \<open>reports_api.py: the job lister\<close>

text \<open>
  A row of the \<open>jobs\<close> table, its timestamps in ISO format; the query returns the 500 newest.
\<close>

record jobs_row =
  jr_job_id :: string
  jr_status :: string
  jr_uploaded_by :: string
  jr_created_at :: "string option"
  jr_completed_at :: "string option"

definition pg_job_row :: "jobs_row \<Rightarrow> payload" where
  "pg_job_row r =
     [(''job_id'', JStr (jr_job_id r)), (''status'', JStr (jr_status r)),
      (''uploaded_by'', JStr (jr_uploaded_by r)),
      (''created_at'', JStr (case jr_created_at r of None \<Rightarrow> [] | Some t \<Rightarrow> t)),
      (''completed_at'', case jr_completed_at r of None \<Rightarrow> JNull | Some t \<Rightarrow> JStr t)]"

definition pg_jobs_lister :: "jobs_row list result \<Rightarrow> payload list" where
  "pg_jobs_lister answer = (case answer of Inl e \<Rightarrow> [] | Inr rows \<Rightarrow> map pg_job_row rows)"

section \<open>cve_api.py, http.py, reports_api.py: the routes\<close>

text \<open>The process: libraries, stores and what the database answers.\<close>

record api_env =
  ae_jwt :: jwt_env
  ae_os :: environ
  ae_repr :: "json \<Rightarrow> string"
  ae_uuid :: "nat \<Rightarrow> string"
  ae_now :: string
  ae_order :: "string list \<Rightarrow> string list"
  ae_repo :: corpus_repo
  ae_embedder :: embedder
  ae_narrator :: "narrator option"
  ae_report :: "string \<Rightarrow> payload option result"
  ae_jobs :: "jobs_row list result"
  ae_resolver :: "string \<Rightarrow> string option"
  ae_db_up :: bool

record api_state =
  ap_feedback :: "feedback list"
  ap_thresholds :: family_thresholds
  ap_uuids :: nat

datatype api_answer =
    ChatAnswer string "string option" bool "string list" json
  | Feedback "string option" string
  | Thresholds "threshold_row list"
  | Recalibrated "string list" "threshold_row list"
  | Jobs "payload list"
  | Report payload

definition cve_chat ::
  "api_env \<Rightarrow> string option \<Rightarrow> string \<Rightarrow> string \<Rightarrow> int \<Rightarrow> (api_state, api_answer) eff" where
  "cve_chat A authorization job_id question top_k =
     ebind (lift_result (require (ae_jwt A) (ae_os A) ''view'' authorization)) (\<lambda>claims.
     if question = [] \<or> top_k < 1 \<or> 20 < top_k then raise (HTTPException 422)
     else
       let ctx = build_context (ae_repr A) (ae_order A) (ae_report A) (ae_repo A) (ae_embedder A)
                   job_id question top_k;
           answer = (case ae_narrator A of
                       None \<Rightarrow> None
                     | Some n \<Rightarrow> (case na_rag n question (rc_chunks ctx) of Inl e \<Rightarrow> None | Inr a \<Rightarrow> a))
       in ret (ChatAnswer job_id answer (rc_chunks ctx \<noteq> []) (rc_sources ctx) (rc_job_status ctx)))"

definition store_feedback ::
  "api_env \<Rightarrow> string \<Rightarrow> string \<Rightarrow> string \<Rightarrow> json \<Rightarrow> (api_state, api_answer) eff" where
  "store_feedback A job_id cve_id verdict claims s =
     (let fb = \<lparr>fb_job_id = job_id, fb_cve_id = cve_id, fb_verdict = verdict,
               fb_submitted_by = subject (ae_repr A) claims, fb_feedback_id = [], fb_submitted_at = []\<rparr>
      in case pg_submit (ae_db_up A) (uuid_hex (ae_uuid A (ap_uuids s))) (ae_now A) fb (ap_feedback s) of
           (Inl e, rows) \<Rightarrow> (Inl e, s)
         | (Inr i, rows) \<Rightarrow> (Inr (Feedback i ''accepted''), s\<lparr>ap_feedback := rows, ap_uuids := ap_uuids s + 1\<rparr>))"

definition cve_feedback ::
  "api_env \<Rightarrow> string option \<Rightarrow> string \<Rightarrow> string \<Rightarrow> string \<Rightarrow> (api_state, api_answer) eff" where
  "cve_feedback A authorization job_id cve_id verdict =
     ebind (lift_result (require (ae_jwt A) (ae_os A) ''feedback'' authorization)) (\<lambda>claims.
     if verdict \<notin> set VERDICTS then raise (HTTPException 422)
     else store_feedback A job_id cve_id verdict claims)"

definition job_feedback ::
  "api_env \<Rightarrow> string option \<Rightarrow> string \<Rightarrow> string \<times> string \<Rightarrow> (api_state, api_answer) eff" where
  "job_feedback A authorization job_id body =
     ebind (lift_result (require (ae_jwt A) (ae_os A) ''feedback'' authorization)) (\<lambda>claims.
     if snd body \<notin> set VERDICTS then raise (HTTPException 422)
     else store_feedback A job_id (fst body) (snd body) claims)"

definition get_thresholds :: "api_env \<Rightarrow> string option \<Rightarrow> (api_state, api_answer) eff" where
  "get_thresholds A authorization =
     ebind (lift_result (require (ae_jwt A) (ae_os A) ''manage_config'' authorization)) (\<lambda>claims.
     ebind (gets ap_thresholds) (\<lambda>T. ret (Thresholds (current_thresholds T))))"

text \<open>The reader returns no rows, and the resolver no family, while the database is down.\<close>

definition post_recalibrate :: "api_env \<Rightarrow> string option \<Rightarrow> (api_state, api_answer) eff" where
  "post_recalibrate A authorization =
     ebind (lift_result (require (ae_jwt A) (ae_os A) ''manage_config'' authorization)) (\<lambda>claims.
     (\<lambda>s. case recalibrate_now (if ae_db_up A then ap_feedback s else [])
                (if ae_db_up A then ae_resolver A else (\<lambda>_. None)) True (ap_thresholds s) of
            (Inl e, T) \<Rightarrow> (Inl e, s\<lparr>ap_thresholds := T\<rparr>)
          | (Inr updated, T) \<Rightarrow>
              (Inr (Recalibrated (sort (dkeys updated)) (current_thresholds T)), s\<lparr>ap_thresholds := T\<rparr>)))"

definition list_jobs :: "api_env \<Rightarrow> string option \<Rightarrow> (api_state, api_answer) eff" where
  "list_jobs A authorization =
     ebind (lift_result (require (ae_jwt A) (ae_os A) ''view'' authorization)) (\<lambda>claims.
     ret (Jobs (pg_jobs_lister (ae_jobs A))))"

definition get_report_route :: "api_env \<Rightarrow> string option \<Rightarrow> string \<Rightarrow> (api_state, api_answer) eff" where
  "get_report_route A authorization job_id =
     ebind (lift_result (require (ae_jwt A) (ae_os A) ''view'' authorization)) (\<lambda>claims.
     ebind (lift_result (ae_report A job_id)) (\<lambda>report.
     case report of None \<Rightarrow> raise (HTTPException 404) | Some r \<Rightarrow> ret (Report r)))"

section \<open>Any sequence of requests\<close>

datatype api_request =
    PostChat "string option" string string int
  | PostCveFeedback "string option" string string string
  | PostJobFeedback "string option" string string string
  | GetThresholds "string option"
  | PostRecalibrate "string option"
  | GetJobs "string option"
  | GetReport "string option" string

fun api_serve :: "api_env \<Rightarrow> api_request \<Rightarrow> (api_state, api_answer) eff" where
  "api_serve A (PostChat a j q k) = cve_chat A a j q k"
| "api_serve A (PostCveFeedback a j c v) = cve_feedback A a j c v"
| "api_serve A (PostJobFeedback a j c v) = job_feedback A a j (c, v)"
| "api_serve A (GetThresholds a) = get_thresholds A a"
| "api_serve A (PostRecalibrate a) = post_recalibrate A a"
| "api_serve A (GetJobs a) = list_jobs A a"
| "api_serve A (GetReport a j) = get_report_route A a j"

fun api_credential :: "api_request \<Rightarrow> string option" where
  "api_credential (PostChat a j q k) = a"
| "api_credential (PostCveFeedback a j c v) = a"
| "api_credential (PostJobFeedback a j c v) = a"
| "api_credential (GetThresholds a) = a"
| "api_credential (PostRecalibrate a) = a"
| "api_credential (GetJobs a) = a"
| "api_credential (GetReport a j) = a"

text \<open>Between two requests the database, the report store and the libraries may change.\<close>

definition api_serve_all :: "(api_env \<times> api_request) list \<Rightarrow> api_state \<Rightarrow> api_state" where
  "api_serve_all rs s = foldl (\<lambda>s (A, r). snd (api_serve A r s)) s rs"

definition api_start :: api_state where
  "api_start = \<lparr>ap_feedback = [], ap_thresholds = [], ap_uuids = 0\<rparr>"

text \<open>The two feedback routes differ in where the job id stands, and in nothing else.\<close>

lemma job_feedback_eq: "job_feedback A a j (c, v) = cve_feedback A a j c v"
  by (simp only: job_feedback_def cve_feedback_def fst_conv snd_conv)

definition feedback_row :: "api_env \<Rightarrow> nat \<Rightarrow> json \<Rightarrow> string \<Rightarrow> string \<Rightarrow> string \<Rightarrow> feedback" where
  "feedback_row A n claims j c v =
     \<lparr>fb_job_id = j, fb_cve_id = c, fb_verdict = v, fb_submitted_by = subject (ae_repr A) claims,
      fb_feedback_id = uuid_hex (ae_uuid A n), fb_submitted_at = ae_now A\<rparr>"

lemma cve_feedback_eq:
  "cve_feedback A a j c v s =
     (case require (ae_jwt A) (ae_os A) ''feedback'' a of
        Inl e \<Rightarrow> (Inl e, s)
      | Inr claims \<Rightarrow>
          if v \<notin> set VERDICTS then (Inl (HTTPException 422), s)
          else
            let row = feedback_row A (ap_uuids s) claims j c v; s' = s\<lparr>ap_uuids := ap_uuids s + 1\<rparr>
            in if ae_db_up A \<and> fb_feedback_id row \<notin> set (map fb_feedback_id (ap_feedback s))
               then (Inr (Feedback (Some (fb_feedback_id row)) ''accepted''),
                     s'\<lparr>ap_feedback := ap_feedback s @ [row]\<rparr>)
               else (Inr (Feedback None ''accepted''), s'))"
proof (cases "require (ae_jwt A) (ae_os A) ''feedback'' a")
  case (Inr claims)
  have store: "v \<in> set VERDICTS \<Longrightarrow>
      store_feedback A j c v claims s =
        (let row = feedback_row A (ap_uuids s) claims j c v; s' = s\<lparr>ap_uuids := ap_uuids s + 1\<rparr>
         in if ae_db_up A \<and> fb_feedback_id row \<notin> set (map fb_feedback_id (ap_feedback s))
            then (Inr (Feedback (Some (fb_feedback_id row)) ''accepted''),
                  s'\<lparr>ap_feedback := ap_feedback s @ [row]\<rparr>)
            else (Inr (Feedback None ''accepted''), s'))"
    by (simp add: store_feedback_def pg_submit_def prepare_feedback_def feedback_row_def Let_def)
  show ?thesis
    unfolding cve_feedback_def ebind_def lift_result_def Inr
    by (simp add: raise_def store del: set_map)
qed (simp add: cve_feedback_def ebind_def lift_result_def)

lemma cve_chat_state [simp]: "snd (cve_chat A a j q k s) = s"
  by (auto simp: cve_chat_def ebind_def lift_result_def raise_def ret_def Let_def split: sum.splits)

lemma get_thresholds_state [simp]: "snd (get_thresholds A a s) = s"
  by (auto simp: get_thresholds_def ebind_def lift_result_def gets_def ret_def split: sum.splits)

lemma list_jobs_state [simp]: "snd (list_jobs A a s) = s"
  by (auto simp: list_jobs_def ebind_def lift_result_def ret_def split: sum.splits)

lemma get_report_route_state [simp]: "snd (get_report_route A a j s) = s"
  by (auto simp: get_report_route_def ebind_def lift_result_def raise_def ret_def split: sum.splits option.splits)

lemma recalibrate_now_runs:
  assumes "overrides_ok T"
  shows "\<exists>upd T'. recalibrate_now rows resolver True T = (Inr upd, T') \<and> overrides_ok T'"
proof -
  let ?o = "\<lambda>f. override_for DEFAULT_THRESHOLDS MIN_SAMPLES (dget (aggregate_feedback rows resolver) f)"
  have e: "or_else x None = x" for x :: "threshold_config option"
    by (simp add: or_else_def split: option.split)
  from recalibrate_loop_result [OF default_thresholds_valid distinct_aggregate, of MIN_SAMPLES True rows resolver "[]" T]
  obtain upd T' where run: "recalibrate_now rows resolver True T = (Inr upd, T')"
    and T': "\<And>f. dget T' f = or_else (?o f) (dget T f)"
    by (auto simp: recalibrate_now_def recalibrate_def)
  have "thresholds_valid t" if "dget T' f = Some t" for f t
    using that assms override_direction [OF default_thresholds_valid default_representable, of MIN_SAMPLES rows resolver f]
    by (auto simp: T' or_else_def overrides_ok_def split: option.splits)
  then show ?thesis using run by (auto simp: overrides_ok_def)
qed

lemma post_recalibrate_cases:
  assumes "post_recalibrate A a s = (r, s')"
  shows "s' = s \<or> (\<exists>claims. require (ae_jwt A) (ae_os A) ''manage_config'' a = Inr claims) \<and>
    ap_feedback s' = ap_feedback s \<and> ap_uuids s' = ap_uuids s \<and>
    ap_thresholds s' = snd (recalibrate_now (if ae_db_up A then ap_feedback s else [])
      (if ae_db_up A then ae_resolver A else (\<lambda>_. None)) True (ap_thresholds s))"
  using assms
  by (auto simp: post_recalibrate_def ebind_def lift_result_def split: sum.splits prod.splits)

section \<open>What the chat cites\<close>

lemma surface_first_eq:
  "distinct own \<Longrightarrow> surface_first own sources = rev (filter (\<lambda>c. c \<notin> set sources) own) @ sources"
proof (induction own arbitrary: sources)
  case (Cons c own)
  have same: "filter (\<lambda>x. x \<notin> insert c (set sources)) own = filter (\<lambda>x. x \<notin> set sources) own"
    using Cons.prems by (intro filter_cong) auto
  show ?case
  proof (cases "c \<in> set sources")
    case True
    then have "surface_first (c # own) sources = surface_first own sources" by (simp add: surface_first_def)
    then show ?thesis using Cons True by simp
  next
    case False
    then have "surface_first (c # own) sources = surface_first own (c # sources)" by (simp add: surface_first_def)
    then show ?thesis using Cons.IH [of "c # sources"] Cons.prems False same by simp
  qed
qed (simp add: surface_first_def)

lemma cve_chat_runs:
  assumes "require (ae_jwt A) (ae_os A) ''view'' a = Inr claims" "question \<noteq> []" "1 \<le> k" "k \<le> 20"
  shows "cve_chat A a j question k s =
    (let ctx = build_context (ae_repr A) (ae_order A) (ae_report A) (ae_repo A) (ae_embedder A) j question k
     in (Inr (ChatAnswer j
           (case ae_narrator A of None \<Rightarrow> None
            | Some n \<Rightarrow> (case na_rag n question (rc_chunks ctx) of Inl e \<Rightarrow> None | Inr x \<Rightarrow> x))
           (rc_chunks ctx \<noteq> []) (rc_sources ctx) (rc_job_status ctx)), s))"
  using assms by (simp add: cve_chat_def ebind_def lift_result_def ret_def Let_def)

text \<open>The findings the report store has for a job when it can be read.\<close>

definition stored_findings :: "api_env \<Rightarrow> string \<Rightarrow> payload list" where
  "stored_findings A j =
     (case ae_report A j of Inr (Some r) \<Rightarrow> if r = [] then [] else job_findings r | _ \<Rightarrow> [])"

lemma build_context_sources:
  "rc_sources (build_context rep order (ae_report A) repo emb j question k) =
     surface_first (order (dedup (finding_ids (stored_findings A j))))
       (dedup (map cr_cve_id (retrieve repo emb question k)))"
proof -
  have new: "foldl (\<lambda>sources r. push_new (cr_cve_id r) sources) [] hits = dedup (map cr_cve_id hits)" for hits
    by (simp add: dedup_def foldl_map)
  then show ?thesis
    by (simp add: build_context_def Let_def stored_findings_def new split: sum.split option.split)
qed

text \<open>
  C30. An authorised chat request with a question and a \<open>top_k\<close> from 1 to 20 is always answered
  and changes nothing, whether or not the report store, the embedder, the corpus or the narrator
  raise. The cited CVEs are distinct: first those of the job's findings the retrieval missed, in
  some order, then the retrieved ones in order of similarity; and the narrator, when it fails,
  only costs the phrased answer. \<open>order\<close> enumerates a set of ids in any order.
\<close>

theorem chat_cites_job_and_corpus:
  assumes "\<And>xs. distinct xs \<Longrightarrow> distinct (ae_order A xs) \<and> set (ae_order A xs) = set xs"
    and "require (ae_jwt A) (ae_os A) ''view'' a = Inr claims" "question \<noteq> []" "1 \<le> k" "k \<le> 20"
  shows "\<exists>answer grounded sources status own.
    cve_chat A a j question k s = (Inr (ChatAnswer j answer grounded sources status), s) \<and>
    sources = own @ dedup (map cr_cve_id (retrieve (ae_repo A) (ae_embedder A) question k)) \<and>
    set own = set (finding_ids (stored_findings A j)) -
      cr_cve_id ` set (retrieve (ae_repo A) (ae_embedder A) question k) \<and>
    distinct sources \<and>
    (\<forall>n. fst (cve_chat (A\<lparr>ae_narrator := n\<rparr>) a j question k s) =
       Inr (ChatAnswer j (case n of None \<Rightarrow> None | Some n \<Rightarrow>
           (case na_rag n question (rc_chunks (build_context (ae_repr A) (ae_order A) (ae_report A)
                   (ae_repo A) (ae_embedder A) j question k)) of Inl e \<Rightarrow> None | Inr x \<Rightarrow> x))
         grounded sources status))"
proof -
  let ?hits = "dedup (map cr_cve_id (retrieve (ae_repo A) (ae_embedder A) question k))"
  let ?ids = "ae_order A (dedup (finding_ids (stored_findings A j)))"
  let ?own = "rev (filter (\<lambda>c. c \<notin> set ?hits) ?ids)"
  let ?ctx = "build_context (ae_repr A) (ae_order A) (ae_report A) (ae_repo A) (ae_embedder A) j question k"
  have ids: "distinct ?ids" "set ?ids = set (finding_ids (stored_findings A j))"
    using assms(1) [OF distinct_dedup] by auto
  have src: "rc_sources ?ctx = ?own @ ?hits"
    by (simp only: build_context_sources surface_first_eq [OF ids(1)])
  have set: "set ?own = set (finding_ids (stored_findings A j)) -
      cr_cve_id ` set (retrieve (ae_repo A) (ae_embedder A) question k)"
    using ids(2) by auto
  have dist: "distinct (?own @ ?hits)" using ids(1) by (simp del: set_dedup) blast
  have run: "cve_chat A a j question k s = (Inr (ChatAnswer j
      (case ae_narrator A of None \<Rightarrow> None
        | Some n \<Rightarrow> (case na_rag n question (rc_chunks ?ctx) of Inl e \<Rightarrow> None | Inr x \<Rightarrow> x))
      (rc_chunks ?ctx \<noteq> []) (?own @ ?hits) (rc_job_status ?ctx)), s)"
    by (simp only: cve_chat_runs [OF assms(2-5)] Let_def src)
  have narr: "fst (cve_chat (A\<lparr>ae_narrator := n\<rparr>) a j question k s) = Inr (ChatAnswer j
      (case n of None \<Rightarrow> None
        | Some n \<Rightarrow> (case na_rag n question (rc_chunks ?ctx) of Inl e \<Rightarrow> None | Inr x \<Rightarrow> x))
      (rc_chunks ?ctx \<noteq> []) (?own @ ?hits) (rc_job_status ?ctx))" for n
    using cve_chat_runs [of "A\<lparr>ae_narrator := n\<rparr>" a claims question k j s] assms(2-5)
    by (simp add: Let_def src)
  show ?thesis using run set dist narr by blast
qed

section \<open>Who may change feedback and thresholds\<close>

lemma permission_roles:
  assumes "has_permission role p"
  shows "p = ''manage_config'' \<Longrightarrow> role = ''admin''"
    and "p = ''feedback'' \<Longrightarrow> role \<in> {''admin'', ''analyst''}"
proof -
  have "role = ''admin'' \<or> role = ''analyst'' \<or> role = ''reader''"
    using has_permission_role [OF assms] by (simp add: ROLES_def)
  then show "p = ''manage_config'' \<Longrightarrow> role = ''admin''"
    and "p = ''feedback'' \<Longrightarrow> role \<in> {''admin'', ''analyst''}"
    using assms by (elim disjE; simp add: permissions_of)+
qed

lemma verified_claims:
  assumes "jwt_secret os = Some secret" "secret \<noteq> []" "require W os p a = Inr claims"
  shows "\<exists>t h m sig d role.
    bearer_token a = Some t \<and> split_on (CHR ''.'') t = [h, m, sig] \<and>
    b64url_decode sig = Inr (jw_hmac W secret (h @ ''.'' @ m)) \<and>
    loads_segment W m = Some (JObj d) \<and> unexpired W d \<and> claims = JObj d \<and>
    jget d ''role'' = JStr role \<and> has_permission role p"
proof -
  from assms(3) obtain t role where "bearer_token a = Some t"
    and dec: "decode_jwt W t secret [getenv os ''JWT_ALGORITHM'' ''HS256''] = Inr claims"
    and "require_permission claims p = Inr role"
    by (auto simp: require_Inr [OF assms(1,2)])
  then show ?thesis unfolding decode_jwt_accepts require_permission_Inr by blast
qed

lemma cve_feedback_step:
  "ap_thresholds (snd (cve_feedback A a j c v s)) = ap_thresholds s \<and>
    (ap_feedback (snd (cve_feedback A a j c v s)) = ap_feedback s \<or>
     (\<exists>claims. require (ae_jwt A) (ae_os A) ''feedback'' a = Inr claims \<and> v \<in> set VERDICTS \<and>
       uuid_hex (ae_uuid A (ap_uuids s)) \<notin> set (map fb_feedback_id (ap_feedback s)) \<and>
       ap_feedback (snd (cve_feedback A a j c v s)) =
         ap_feedback s @ [feedback_row A (ap_uuids s) claims j c v]))"
  by (cases "require (ae_jwt A) (ae_os A) ''feedback'' a")
    (simp_all add: cve_feedback_eq Let_def feedback_row_def)

text \<open>What one request does to the two pieces of shared state.\<close>

lemma api_serve_cases:
  obtains (same) "ap_feedback (snd (api_serve A r s)) = ap_feedback s"
      "ap_thresholds (snd (api_serve A r s)) = ap_thresholds s"
  | (feedback) claims j c v where
      "require (ae_jwt A) (ae_os A) ''feedback'' (api_credential r) = Inr claims" "v \<in> set VERDICTS"
      "uuid_hex (ae_uuid A (ap_uuids s)) \<notin> set (map fb_feedback_id (ap_feedback s))"
      "ap_feedback (snd (api_serve A r s)) = ap_feedback s @ [feedback_row A (ap_uuids s) claims j c v]"
      "ap_thresholds (snd (api_serve A r s)) = ap_thresholds s"
  | (recalibrate) claims rows resolver where
      "require (ae_jwt A) (ae_os A) ''manage_config'' (api_credential r) = Inr claims"
      "ap_feedback (snd (api_serve A r s)) = ap_feedback s"
      "ap_thresholds (snd (api_serve A r s)) = snd (recalibrate_now rows resolver True (ap_thresholds s))"
proof (cases r)
  case (PostCveFeedback a j c v)
  then show ?thesis
    using cve_feedback_step [of A a j c v s] feedback [of _ v j c] same by auto
next
  case (PostJobFeedback a j c v)
  then show ?thesis
    using cve_feedback_step [of A a j c v s] feedback [of _ v j c] same by (auto simp: job_feedback_eq)
next
  case (PostRecalibrate a)
  then show ?thesis
    using post_recalibrate_cases [of A a s, OF surjective_pairing] recalibrate same by auto
qed (use same in simp_all)

text \<open>
  C29. With a JWT secret configured, a request that changes the feedback table or the installed
  thresholds carries a bearer token signed under the secret and not expired. Feedback is only ever
  appended to, one row with an accepted verdict, a fresh id and the token's subject, by an admin or
  an analyst; thresholds change only for an admin, who leaves the feedback as it was.
\<close>

theorem feedback_and_thresholds_authorized:
  assumes "jwt_secret (ae_os A) = Some secret" "secret \<noteq> []" "api_serve A r s = (answer, s')"
    and "ap_feedback s' \<noteq> ap_feedback s \<or> ap_thresholds s' \<noteq> ap_thresholds s"
  shows "\<exists>t h m sig d role.
    bearer_token (api_credential r) = Some t \<and> split_on (CHR ''.'') t = [h, m, sig] \<and>
    b64url_decode sig = Inr (jw_hmac (ae_jwt A) secret (h @ ''.'' @ m)) \<and>
    loads_segment (ae_jwt A) m = Some (JObj d) \<and> unexpired (ae_jwt A) d \<and> jget d ''role'' = JStr role \<and>
    (role = ''admin'' \<and> ap_feedback s' = ap_feedback s \<or>
     role \<in> {''admin'', ''analyst''} \<and> ap_thresholds s' = ap_thresholds s \<and>
     (\<exists>row. ap_feedback s' = ap_feedback s @ [row] \<and> fb_verdict row \<in> set VERDICTS \<and>
        fb_feedback_id row \<notin> set (map fb_feedback_id (ap_feedback s)) \<and>
        fb_submitted_by row = subject (ae_repr A) (JObj d)))"
proof -
  have s': "s' = snd (api_serve A r s)" using assms(3) by simp
  note roles = permission_roles
  show ?thesis
  proof (cases A r s rule: api_serve_cases)
    case same
    then show ?thesis using assms(4) s' by simp
  next
    case (feedback claims j c v)
    obtain t h m sig d role where tok: "bearer_token (api_credential r) = Some t" "split_on (CHR ''.'') t = [h, m, sig]"
        "b64url_decode sig = Inr (jw_hmac (ae_jwt A) secret (h @ ''.'' @ m))"
        "loads_segment (ae_jwt A) m = Some (JObj d)" "unexpired (ae_jwt A) d" "jget d ''role'' = JStr role"
      and claims: "claims = JObj d" and role: "role \<in> {''admin'', ''analyst''}"
      using verified_claims [OF assms(1,2) feedback(1)] roles(2) [OF _ refl] by blast
    let ?row = "feedback_row A (ap_uuids s) claims j c v"
    have "ap_feedback s' = ap_feedback s @ [?row]" "ap_thresholds s' = ap_thresholds s"
      using feedback(4,5) s' by simp_all
    moreover have "fb_verdict ?row \<in> set VERDICTS" "fb_submitted_by ?row = subject (ae_repr A) (JObj d)"
        "fb_feedback_id ?row \<notin> set (map fb_feedback_id (ap_feedback s))"
      using feedback(2,3) claims by (simp_all add: feedback_row_def)
    ultimately show ?thesis using tok role by blast
  next
    case (recalibrate claims rows resolver)
    then show ?thesis
      using verified_claims [OF assms(1,2) recalibrate(1)] roles(1) [OF _ refl] s' by blast
  qed
qed

section \<open>What every run keeps\<close>

definition api_inv :: "api_state \<Rightarrow> bool" where
  "api_inv s \<longleftrightarrow> distinct (map fb_feedback_id (ap_feedback s)) \<and>
     set (map fb_verdict (ap_feedback s)) \<subseteq> set VERDICTS \<and> overrides_ok (ap_thresholds s)"

lemma api_serve_inv: "api_inv s \<Longrightarrow> api_inv (snd (api_serve A r s))"
proof (cases A r s rule: api_serve_cases)
  case (recalibrate claims rows resolver)
  then show "api_inv s \<Longrightarrow> ?thesis"
    using recalibrate_now_runs [of "ap_thresholds s" rows resolver] by (auto simp: api_inv_def)
qed (auto simp: api_inv_def feedback_row_def)

lemma api_serve_prefix: "prefix (ap_feedback s) (ap_feedback (snd (api_serve A r s)))"
  by (cases A r s rule: api_serve_cases) simp_all

lemma api_serve_all_inv: "api_inv s \<Longrightarrow> api_inv (api_serve_all rs s)"
  unfolding api_serve_all_def by (induction rs arbitrary: s) (auto simp: api_serve_inv)

lemma api_serve_all_prefix: "prefix (ap_feedback s) (ap_feedback (api_serve_all rs s))"
proof (induction rs arbitrary: s)
  case (Cons x rs)
  obtain A r where "x = (A, r)" by fastforce
  then show ?case using prefix_order.trans [OF api_serve_prefix [of s A r] Cons.IH] by (simp add: api_serve_all_def)
qed (simp add: api_serve_all_def)

lemma api_start_inv: "api_inv api_start"
  by (simp add: api_inv_def api_start_def overrides_ok_empty)

text \<open>
  Whatever requests are served, under whatever tokens and with whatever the database does in
  between: the feedback table only grows, its ids are distinct and its verdicts are the accepted
  ones, the threshold view shows one ordered triple within [0, 1] for each configured family, and an
  authorised recalibration is answered, with the view it has just installed.
\<close>

theorem feedback_log_and_thresholds_ok:
  assumes "s = api_serve_all rs api_start" "require (ae_jwt A) (ae_os A) ''manage_config'' a = Inr claims"
  shows "prefix (ap_feedback (api_serve_all (take n rs) api_start)) (ap_feedback s) \<and>
    distinct (map fb_feedback_id (ap_feedback s)) \<and>
    set (map fb_verdict (ap_feedback s)) \<subseteq> set VERDICTS \<and>
    (\<exists>rows. fst (get_thresholds A a s) = Inr (Thresholds rows) \<and>
       map tr_family rows = map cf_name COMPONENT_FAMILIES \<and> list_all (thresholds_valid \<circ> tr_config) rows) \<and>
    (\<exists>families rows s'. post_recalibrate A a s = (Inr (Recalibrated families rows), s') \<and>
       get_thresholds A a s' = (Inr (Thresholds rows), s') \<and> list_all (thresholds_valid \<circ> tr_config) rows)"
proof -
  have inv: "api_inv s" using api_serve_all_inv [OF api_start_inv] assms(1) by simp
  have view: "get_thresholds A a t = (Inr (Thresholds (current_thresholds (ap_thresholds t))), t)" for t
    by (simp add: get_thresholds_def ebind_def lift_result_def gets_def ret_def assms(2))
  have families: "map tr_family (current_thresholds T) = map cf_name COMPONENT_FAMILIES" for T
    unfolding current_thresholds_def map_map comp_def by (rule map_cong) (auto split: option.split)
  have valid: "list_all (thresholds_valid \<circ> tr_config) (current_thresholds T)" if "overrides_ok T" for T
    using that by (auto simp: current_thresholds_def list_all_iff overrides_ok_def split: option.split)
  obtain upd T' where run: "recalibrate_now (if ae_db_up A then ap_feedback s else [])
        (if ae_db_up A then ae_resolver A else (\<lambda>_. None)) True (ap_thresholds s) = (Inr upd, T')"
      and T': "overrides_ok T'"
    using recalibrate_now_runs inv unfolding api_inv_def by blast
  have post: "post_recalibrate A a s =
      (Inr (Recalibrated (sort (dkeys upd)) (current_thresholds T')), s\<lparr>ap_thresholds := T'\<rparr>)"
    unfolding post_recalibrate_def by (simp add: ebind_def lift_result_def assms(2) run)
  have "api_serve_all rs api_start = api_serve_all (drop n rs) (api_serve_all (take n rs) api_start)"
    unfolding api_serve_all_def by (metis append_take_drop_id foldl_append)
  then have "prefix (ap_feedback (api_serve_all (take n rs) api_start)) (ap_feedback s)"
    using api_serve_all_prefix assms(1) by simp
  then show ?thesis
    using inv view [of s] view [of "s\<lparr>ap_thresholds := T'\<rparr>"] families valid [of "ap_thresholds s"] valid [OF T'] post
    by (simp add: api_inv_def)
qed

section \<open>Witnesses\<close>

definition sample_hit :: cve_record where
  "sample_hit = \<lparr>cr_cve_id = ''CVE-2'', cr_cpe_string = ''cpe'', cr_description = ''overflow'',
     cr_family = None, cr_embedding = None\<rparr>"

definition sample_report :: payload where
  "sample_report = [(''status'', JStr ''COMPLETE''),
     (''findings'', JList [JObj [(''cve_id'', JStr ''CVE-1'')], JObj [(''cve_id'', JStr ''CVE-2'')]])]"

text \<open>One hit that is also a finding, a set order that reverses, and a narrator that is down.\<close>

definition sample_api :: "environ \<Rightarrow> api_env" where
  "sample_api os =
     \<lparr>ae_jwt = sample_jwt, ae_os = os, ae_repr = (\<lambda>j. ''{}''), ae_uuid = (\<lambda>n. ''id-'' @ nat_str n),
      ae_now = ''t'', ae_order = rev,
      ae_repo = \<lparr>co_exact = (\<lambda>c. Inr []), co_similar = (\<lambda>q k. Inr [(sample_hit, 1)])\<rparr>,
      ae_embedder = \<lparr>em_encode = (\<lambda>q. Inr [1])\<rparr>,
      ae_narrator = Some \<lparr>na_rationale = (\<lambda>a b c d e. Inr None), na_summary = (\<lambda>a b. Inr None),
        na_rag = (\<lambda>q cs. Inl (RuntimeError ''down''))\<rparr>,
      ae_report = (\<lambda>j. Inr (Some sample_report)), ae_jobs = Inr [], ae_resolver = (\<lambda>c. Some ''busybox''),
      ae_db_up = True\<rparr>"

lemma sample_api_simps [simp]:
  "ae_jwt (sample_api os) = sample_jwt" "ae_os (sample_api os) = os" "ae_db_up (sample_api os)"
  by (simp_all add: sample_api_def)

lemma sample_dev:
  "has_permission ''admin'' p \<Longrightarrow>
     require sample_jwt [] p None = Inr (JObj [(''sub'', JStr ''dev''), (''role'', JStr ''admin'')])"
  by (simp add: require_def request_claims_def auth_enabled_def jwt_secret_def require_permission_def
      role_of_def jget_def ROLES_def)

lemma sample_chat_facts:
  "retrieve (ae_repo (sample_api os)) (ae_embedder (sample_api os)) q k = [sample_hit]"
  "finding_ids (stored_findings (sample_api os) j) = [''CVE-1'', ''CVE-2'']"
  by (simp_all add: sample_api_def retrieve_def rbind_def stored_findings_def sample_report_def
      job_findings_def finding_ids_def jget_def)

lemma distinct_singleton_list: "set xs = {x} \<Longrightarrow> distinct xs \<Longrightarrow> xs = [x]"
  by (metis distinct_card length_0_conv length_Suc_conv card_1_singleton_iff One_nat_def list.simps(15) singleton_insert_inj_eq list.set(1))

theorem chat_cites_job_and_corpus_witness:
  "\<exists>grounded status. cve_chat (sample_api []) None ''j'' ''which?'' 5 api_start =
     (Inr (ChatAnswer ''j'' None grounded [''CVE-1'', ''CVE-2''] status), api_start)"
proof -
  let ?A = "sample_api []"
  have order: "\<And>xs. distinct xs \<Longrightarrow> distinct (ae_order ?A xs) \<and> set (ae_order ?A xs) = set xs"
    by (simp add: sample_api_def)
  have auth: "require (ae_jwt ?A) (ae_os ?A) ''view'' None =
      Inr (JObj [(''sub'', JStr ''dev''), (''role'', JStr ''admin'')])"
    using sample_dev [of "''view''"] by (simp add: permissions_of)
  obtain answer grounded sources status own where c:
      "cve_chat ?A None ''j'' ''which?'' 5 api_start = (Inr (ChatAnswer ''j'' answer grounded sources status), api_start)"
      "sources = own @ dedup (map cr_cve_id [sample_hit])" "distinct sources"
      "set own = set [''CVE-1'', ''CVE-2''] - cr_cve_id ` set [sample_hit]"
    using chat_cites_job_and_corpus [OF order auth, where question = "''which?''" and k = 5 and j = "''j''" and s = api_start]
    unfolding sample_chat_facts by auto
  have "set own = {''CVE-1''}" "distinct own" using c(2-4) by (auto simp: sample_hit_def)
  then have "own = [''CVE-1'']" by (rule distinct_singleton_list)
  moreover have "answer = None"
    using c(1) unfolding cve_chat_runs [OF auth, of "''which?''" 5 "''j''", simplified] by (simp add: sample_api_def Let_def)
  ultimately show ?thesis using c by (simp add: sample_hit_def dedup_def push_new_def)
qed

definition sample_verdict :: api_request where
  "sample_verdict = PostJobFeedback (Some ''Bearer aA.Yw.ay9hQS5Zdw'') ''j'' ''CVE-1'' ''false_positive''"

theorem feedback_and_thresholds_authorized_witness:
  "\<exists>t h m sig d role.
    bearer_token (Some ''Bearer aA.Yw.ay9hQS5Zdw'') = Some t \<and> split_on (CHR ''.'') t = [h, m, sig] \<and>
    b64url_decode sig = Inr (jw_hmac sample_jwt ''k'' (h @ ''.'' @ m)) \<and>
    loads_segment sample_jwt m = Some (JObj d) \<and> unexpired sample_jwt d \<and> jget d ''role'' = JStr role \<and>
    role \<in> {''admin'', ''analyst''}"
proof -
  let ?A = "sample_api [(''JWT_SECRET'', ''k'')]"
  obtain answer s' where run: "api_serve ?A sample_verdict api_start = (answer, s')" by fastforce
  have auth: "require sample_jwt [(''JWT_SECRET'', ''k'')] ''feedback'' (Some ''Bearer aA.Yw.ay9hQS5Zdw'') =
      Inr (JObj sample_claims)"
    by (rule sample_token) (simp add: permissions_of)
  have "api_serve ?A sample_verdict api_start =
      cve_feedback ?A (Some ''Bearer aA.Yw.ay9hQS5Zdw'') ''j'' ''CVE-1'' ''false_positive'' api_start"
    by (simp add: sample_verdict_def job_feedback_eq)
  then have "ap_feedback s' \<noteq> ap_feedback api_start"
    using run unfolding cve_feedback_eq by (auto simp: auth VERDICTS_def Let_def api_start_def)
  then show ?thesis
    using feedback_and_thresholds_authorized [OF _ _ run, of "''k''"]
    by (simp add: sample_verdict_def jwt_secret_def) blast
qed

theorem feedback_log_and_thresholds_ok_witness:
  "\<exists>families rows s'.
     post_recalibrate (sample_api []) None
       (api_serve_all [(sample_api [], PostJobFeedback None ''j'' ''CVE-1'' ''false_positive'')] api_start) =
       (Inr (Recalibrated families rows), s') \<and> list_all (thresholds_valid \<circ> tr_config) rows"
proof -
  have auth: "require (ae_jwt (sample_api [])) (ae_os (sample_api [])) ''manage_config'' None =
      Inr (JObj [(''sub'', JStr ''dev''), (''role'', JStr ''admin'')])"
    using sample_dev [of "''manage_config''"] by (simp add: permissions_of)
  show ?thesis
    using feedback_log_and_thresholds_ok [OF refl auth,
        where rs = "[(sample_api [], PostJobFeedback None ''j'' ''CVE-1'' ''false_positive'')]" and n = 0] by blast
qed

end
