(* ===== verification/MongoReports.thy ===== *)
theory MongoReports
  imports Aggregator
begin

text \<open>
  The MongoDB report store (\<open>services/cve_matching/reports.py\<close>, \<open>MongoReportStore\<close>) against the
  in-memory one. The server is a parameter: \<open>mongo_ok\<close> states what its manual says of \<open>$set\<close>,
  \<open>$setOnInsert\<close>, \<open>upsert\<close>, a unique index and conflicting paths. The lemmas show that recording a
  sub-blob refines the in-memory store, and where finalizing does not.
\<close>

section \<open>The operations of the store\<close>

text \<open>
  An \<open>update_one\<close> with a filter on \<open>job_id\<close>, and on \<open>status\<close> being different from a value; the
  paths of \<open>$set\<close> are dotted.
\<close>

record mongo_update =
  mu_job_id :: string
  mu_status_ne :: "string option"
  mu_set :: "(string \<times> json) list"
  mu_set_on_insert :: "(string \<times> json) list"

record update_result =
  ur_modified_count :: nat
  ur_upserted :: bool

record 's mongo =
  mg_find_one :: "string \<Rightarrow> 's \<Rightarrow> payload option"
  mg_update_one :: "mongo_update \<Rightarrow> ('s, update_result) eff"

definition mongo_record_update :: "string \<Rightarrow> string \<Rightarrow> string \<Rightarrow> json list \<Rightarrow> mongo_update" where
  "mongo_record_update now job_id sub_blob_id cve_matches =
     \<lparr>mu_job_id = job_id, mu_status_ne = None,
      mu_set = [(''sub_blobs.'' @ sub_blob_id, JList cve_matches), (''updated_at'', JStr now)],
      mu_set_on_insert = [(''job_id'', JStr job_id), (''status'', JStr STATUS_PARTIAL)]\<rparr>"

definition mongo_record_sub_blob ::
  "'s mongo \<Rightarrow> string \<Rightarrow> string \<Rightarrow> string \<Rightarrow> json list \<Rightarrow> ('s, unit) eff" where
  "mongo_record_sub_blob M now job_id sub_blob_id cve_matches =
     ebind (mg_update_one M (mongo_record_update now job_id sub_blob_id cve_matches)) (\<lambda>_. ret ())"

definition mongo_get :: "'s mongo \<Rightarrow> string \<Rightarrow> 's \<Rightarrow> payload option" where
  "mongo_get M job_id = mg_find_one M job_id"

definition mongo_finalize_update :: "string \<Rightarrow> payload \<Rightarrow> mongo_update" where
  "mongo_finalize_update job_id report_fields =
     (let fields = dset ''status'' (JStr STATUS_COMPLETE) report_fields
      in \<lparr>mu_job_id = job_id, mu_status_ne = Some STATUS_COMPLETE, mu_set = fields,
          mu_set_on_insert = [(''job_id'', JStr job_id)]\<rparr>)"

definition mongo_finalize :: "'s mongo \<Rightarrow> string \<Rightarrow> payload \<Rightarrow> ('s, bool) eff" where
  "mongo_finalize M job_id report_fields =
     ebind (mg_update_one M (mongo_finalize_update job_id report_fields)) (\<lambda>r.
     ret (ur_modified_count r = 1 \<or> ur_upserted r))"

section \<open>What the server does\<close>

fun set_path :: "string list \<Rightarrow> json \<Rightarrow> payload \<Rightarrow> payload" where
  "set_path [] v doc = doc"
| "set_path [k] v doc = dset k v doc"
| "set_path (k # ks) v doc = dset k (JObj (set_path ks v (json_obj (jget doc k)))) doc"

definition set_all :: "(string \<times> json) list \<Rightarrow> payload \<Rightarrow> payload" where
  "set_all sets doc = foldl (\<lambda>d (p, v). set_path (split_on (CHR ''.'') p) v d) doc sets"

definition status_matches :: "mongo_update \<Rightarrow> payload \<Rightarrow> bool" where
  "status_matches u doc =
     (case mu_status_ne u of None \<Rightarrow> True | Some st \<Rightarrow> jget doc ''status'' \<noteq> JStr st)"

text \<open>Two operators of one update may not touch the same path, nor one of them a prefix of the other's.\<close>

definition paths_conflict :: "mongo_update \<Rightarrow> bool" where
  "paths_conflict u \<longleftrightarrow>
     list_ex (\<lambda>(p, _). list_ex (\<lambda>(q, _).
       let p = split_on (CHR ''.'') p; q = split_on (CHR ''.'') q
       in take (length q) p = q \<or> take (length p) q = p) (mu_set_on_insert u)) (mu_set u)"

definition CONFLICTING_UPDATE_OPERATORS :: nat where
  "CONFLICTING_UPDATE_OPERATORS = 40"

text \<open>
  The documented behaviour of an upserting \<open>update_one\<close> on a collection with a unique index on
  \<open>job_id\<close>. The order of the fields of a document is left open.
\<close>

definition mongo_ok :: "'s mongo \<Rightarrow> bool" where
  "mongo_ok M \<longleftrightarrow> (\<forall>u s.
     if paths_conflict u then mg_update_one M u s = (Inl (WriteError CONFLICTING_UPDATE_OPERATORS), s)
     else (case mg_find_one M (mu_job_id u) s of
       Some doc \<Rightarrow>
         if status_matches u doc then
           (\<exists>doc' s'. dget doc' = dget (set_all (mu_set u) doc) \<and>
              mg_update_one M u s =
                (Inr \<lparr>ur_modified_count = (if dget doc' = dget doc then 0 else 1), ur_upserted = False\<rparr>, s') \<and>
              (\<forall>i. mg_find_one M i s' = (if i = mu_job_id u then Some doc' else mg_find_one M i s)))
         else mg_update_one M u s = (Inl DuplicateKeyError, s)
     | None \<Rightarrow>
         (\<exists>doc' s'. dget doc' = dget (set_all (mu_set u @ mu_set_on_insert u) [(''job_id'', JStr (mu_job_id u))]) \<and>
            mg_update_one M u s = (Inr \<lparr>ur_modified_count = 0, ur_upserted = True\<rparr>, s') \<and>
            (\<forall>i. mg_find_one M i s' = (if i = mu_job_id u then Some doc' else mg_find_one M i s)))))"

section \<open>Refinement of the in-memory store\<close>

text \<open>The same documents, up to the order of their fields and an absent empty slot table.\<close>

definition same_doc :: "payload \<Rightarrow> payload \<Rightarrow> bool" where
  "same_doc d d' \<longleftrightarrow> doc_slots d = doc_slots d' \<and> (\<forall>k. k \<noteq> ''sub_blobs'' \<longrightarrow> dget d k = dget d' k)"

definition mongo_agrees :: "'s mongo \<Rightarrow> 's \<Rightarrow> report_docs \<Rightarrow> bool" where
  "mongo_agrees M s docs \<longleftrightarrow> (\<forall>j. rel_option same_doc (mg_find_one M j s) (dget docs j))"

lemma same_doc_cong:
  "dget e = dget d \<Longrightarrow> same_doc d d' \<Longrightarrow> same_doc e d'"
  by (simp add: same_doc_def doc_slots_def jget_def)

lemma same_doc_status: "same_doc d d' \<Longrightarrow> jget d ''status'' = jget d' ''status''"
  by (simp add: same_doc_def jget_def)

lemma mongo_agrees_put:
  assumes "mongo_agrees M s docs" "\<And>i. mg_find_one M i s' = (if i = j then Some d else mg_find_one M i s)"
    and "same_doc d d'"
  shows "mongo_agrees M s' (dset j d' docs)"
  using assms by (auto simp: mongo_agrees_def)

lemma dget_dict_update_distinct:
  "distinct (dkeys new) \<Longrightarrow>
   dget (dict_update d new) k = (case dget new k of Some v \<Rightarrow> Some v | None \<Rightarrow> dget d k)"
proof (induction new arbitrary: d)
  case (Cons e new)
  obtain k' v where e: "e = (k', v)" by (cases e)
  have step: "dict_update d ((k', v) # new) = dict_update (dset k' v d) new" for d
    by (simp add: dict_update_def)
  have "k = k' \<Longrightarrow> dget new k = None" using Cons.prems by (auto simp: e map_of_eq_None_iff)
  then show ?case using Cons by (auto simp: step e split: option.split)
qed (simp add: dict_update_def)

lemma set_all_plain:
  "list_all (\<lambda>k. CHR ''.'' \<notin> set k) (map fst sets) \<Longrightarrow> set_all sets d = dict_update d sets"
  unfolding set_all_def dict_update_def
  by (induction sets arbitrary: d) (auto simp: split_on_no_sep)

lemma set_all_record:
  assumes "CHR ''.'' \<notin> set b"
  shows "set_all [(''sub_blobs.'' @ b, v), (''updated_at'', w)] d =
    dset ''updated_at'' w (dset ''sub_blobs'' (JObj (dset b v (doc_slots d))) d)"
proof -
  have "split_on (CHR ''.'') (''sub_blobs'' @ CHR ''.'' # b) = [''sub_blobs'', b]"
    using assms by (subst split_on_append_sep) (simp_all add: split_on_no_sep)
  moreover have "split_on (CHR ''.'') ''updated_at'' = [''updated_at'']" by (simp add: split_on_no_sep)
  ultimately show ?thesis by (simp add: set_all_def doc_slots_def)
qed

lemma record_no_conflict: "CHR ''.'' \<notin> set b \<Longrightarrow> \<not> paths_conflict (mongo_record_update now j b ms)"
  using split_on_append_sep [of "CHR ''.''" "''sub_blobs''" b]
  by (simp add: paths_conflict_def mongo_record_update_def split_on_no_sep)

lemma mongo_record_refines:
  assumes ok: "mongo_ok M" and ag: "mongo_agrees M s docs" and b: "CHR ''.'' \<notin> set b"
  shows "\<exists>s'. mongo_record_sub_blob M now j b ms s = (Inr (), s') \<and>
    mongo_agrees M s' (record_sub_blob now j b ms docs)"
proof -
  let ?u = "mongo_record_update now j b ms"
  let ?put = "\<lambda>d. dset ''updated_at'' (JStr now)
    (dset ''sub_blobs'' (JObj (dset b (JList ms) (doc_slots d))) d)"
  have u: "mu_job_id ?u = j" "status_matches ?u d" for d
    by (simp_all add: mongo_record_update_def status_matches_def)
  have sets: "set_all (mu_set ?u) d = ?put d" for d
    using set_all_record [OF b] by (simp add: mongo_record_update_def)
  have rel: "rel_option same_doc (mg_find_one M j s) (dget docs j)" using ag by (simp add: mongo_agrees_def)
  note law = ok [unfolded mongo_ok_def, rule_format, of ?u s, simplified record_no_conflict [OF b] u if_False if_True]
  have rec: "record_sub_blob now j b ms docs = dset j (?put (doc_or_new j docs)) docs"
    by (simp add: record_sub_blob_def Let_def doc_slots_def)
  have put: "same_doc d e \<Longrightarrow> same_doc (?put d) (?put e)" for d e
    by (auto simp: same_doc_def doc_slots_def jget_def)
  show ?thesis
  proof (cases "mg_find_one M j s")
    case (Some d)
    with rel obtain e where e: "dget docs j = Some e" "same_doc d e" by (cases "dget docs j") auto
    from law Some obtain d' s' r where s': "dget d' = dget (?put d)" "mg_update_one M ?u s = (Inr r, s')"
      "\<And>i. mg_find_one M i s' = (if i = j then Some d' else mg_find_one M i s)"
      by (auto simp: sets)
    have "mongo_agrees M s' (dset j (?put e) docs)"
      by (rule mongo_agrees_put [OF ag s'(3) same_doc_cong [OF s'(1) put [OF e(2)]]])
    then show ?thesis
      using s'(2) e(1) by (simp add: rec mongo_record_sub_blob_def ebind_def ret_def doc_or_new_def)
  next
    case None
    with rel have fresh: "dget docs j = None" by (cases "dget docs j") auto
    from law None obtain d' s' r where s': "mg_update_one M ?u s = (Inr r, s')"
      "dget d' = dget (set_all (mu_set ?u @ mu_set_on_insert ?u) [(''job_id'', JStr j)])"
      "\<And>i. mg_find_one M i s' = (if i = j then Some d' else mg_find_one M i s)"
      by auto
    have "set_all (mu_set ?u @ mu_set_on_insert ?u) [(''job_id'', JStr j)] =
        set_all (mu_set_on_insert ?u) (?put [(''job_id'', JStr j)])"
      using sets by (simp add: set_all_def)
    moreover have "set_all (mu_set_on_insert ?u) d = dset ''status'' (JStr STATUS_PARTIAL) (dset ''job_id'' (JStr j) d)" for d
      by (simp add: mongo_record_update_def set_all_def split_on_no_sep)
    ultimately have "same_doc d' (?put (new_doc j))"
      by (intro same_doc_cong [OF s'(2)]) (auto simp: same_doc_def doc_slots_def jget_def new_doc_def)
    then have "mongo_agrees M s' (dset j (?put (new_doc j)) docs)"
      by (rule mongo_agrees_put [OF ag s'(3)])
    then show ?thesis
      using s'(1) fresh by (simp add: rec mongo_record_sub_blob_def ebind_def ret_def doc_or_new_def)
  qed
qed

text \<open>A report whose fields neither name the job nor the slots: what \<open>finalize\<close> could store.\<close>

definition plain_report :: "payload \<Rightarrow> bool" where
  "plain_report rep \<longleftrightarrow> distinct (dkeys rep) \<and> list_all (\<lambda>k. CHR ''.'' \<notin> set k) (dkeys rep) \<and>
     dget rep ''job_id'' = None \<and> dget rep ''sub_blobs'' = None"

lemma finalize_no_conflict:
  assumes "plain_report rep"
  shows "\<not> paths_conflict (mongo_finalize_update j rep)"
proof -
  have keys: "CHR ''.'' \<notin> set k \<and> k \<noteq> ''job_id''" if "k \<in> insert ''status'' (fst ` set rep)" for k
    using that assms unfolding plain_report_def dget_None_iff list_all_iff set_map by (elim insertE) (simp, metis)
  have plain: "split_on (CHR ''.'') p = [p] \<and> p \<noteq> ''job_id''"
    if "(p, x) \<in> set (dset ''status'' v rep)" for p x v
  proof -
    from that have "p \<in> fst ` set (dset ''status'' v rep)" by (rule image_eqI [rotated]) simp
    then have "p \<in> insert ''status'' (fst ` set rep)" by simp
    from keys [OF this] show ?thesis by (simp add: split_on_no_sep)
  qed
  show ?thesis
    by (auto simp: paths_conflict_def mongo_finalize_update_def Let_def list_ex_iff split_on_no_sep dest: plain)
qed

lemma finalize_sets:
  assumes "plain_report rep"
  shows "dget (set_all (mu_set (mongo_finalize_update j rep)) d) =
    dget (dset ''status'' (JStr STATUS_COMPLETE) (dict_update d rep))"
proof -
  let ?f = "dset ''status'' (JStr STATUS_COMPLETE) rep"
  have "list_all (\<lambda>k. CHR ''.'' \<notin> set k) (map fst ?f)"
    using assms by (auto simp: plain_report_def list_all_iff)
  then have "set_all ?f d = dict_update d ?f" by (rule set_all_plain)
  moreover have "distinct (dkeys ?f)" using assms by (simp add: plain_report_def distinct_update)
  ultimately have "dget (set_all ?f d) k = dget (dset ''status'' (JStr STATUS_COMPLETE) (dict_update d rep)) k" for k
    using assms by (simp add: dget_dict_update_distinct plain_report_def)
  then show ?thesis by (simp add: mongo_finalize_update_def fun_eq_iff)
qed

lemma mongo_finalize_open:
  assumes ok: "mongo_ok M" and ag: "mongo_agrees M s docs" and rep: "plain_report rep"
    and opened: "\<not> is_complete j docs"
  shows "\<exists>s'. mongo_finalize M j rep s = (Inr True, s') \<and>
    mongo_agrees M s' (snd (finalize_report j rep docs))"
proof -
  let ?u = "mongo_finalize_update j rep"
  let ?put = "\<lambda>d. dset ''status'' (JStr STATUS_COMPLETE) (dict_update d rep)"
  have u: "mu_job_id ?u = j" "status_matches ?u d \<longleftrightarrow> jget d ''status'' \<noteq> JStr STATUS_COMPLETE" for d
    by (simp_all add: mongo_finalize_update_def status_matches_def Let_def)
  have rel: "rel_option same_doc (mg_find_one M j s) (dget docs j)" using ag by (simp add: mongo_agrees_def)
  note law = ok [unfolded mongo_ok_def, rule_format, of ?u s, simplified finalize_no_conflict [OF rep] u if_False]
  have rp: "distinct (dkeys rep)" "dget rep ''sub_blobs'' = None" using rep by (simp_all add: plain_report_def)
  have put: "same_doc d e \<Longrightarrow> same_doc (?put d) (?put e)" for d e
    using rp by (auto simp: same_doc_def doc_slots_def jget_def dget_dict_update_distinct split: option.split)
  have fin: "snd (finalize_report j rep docs) = dset j (?put (doc_or_new j docs)) docs"
    using opened by (auto simp: finalize_report_def Let_def doc_or_new_def is_complete_def new_doc_def jget_def
        STATUS_PARTIAL_def STATUS_COMPLETE_def split: option.splits)
  show ?thesis
  proof (cases "mg_find_one M j s")
    case (Some d)
    with rel obtain e where e: "dget docs j = Some e" "same_doc d e" by (cases "dget docs j") auto
    have st: "jget d ''status'' \<noteq> JStr STATUS_COMPLETE"
      using opened e by (simp add: is_complete_def same_doc_status)
    from law Some st obtain d' s' where s': "dget d' = dget (?put d)"
      "mg_update_one M ?u s = (Inr \<lparr>ur_modified_count = (if dget d' = dget d then 0 else 1), ur_upserted = False\<rparr>, s')"
      "\<And>i. mg_find_one M i s' = (if i = j then Some d' else mg_find_one M i s)"
      unfolding finalize_sets [OF rep] by auto
    have "dget d' ''status'' = Some (JStr STATUS_COMPLETE)" using s'(1) by simp
    with st have changed: "dget d' \<noteq> dget d" by (auto simp: jget_def)
    have "mongo_agrees M s' (dset j (?put e) docs)"
      by (rule mongo_agrees_put [OF ag s'(3) same_doc_cong [OF s'(1) put [OF e(2)]]])
    then show ?thesis
      using s'(2) changed e(1) fin by (simp add: mongo_finalize_def ebind_def ret_def doc_or_new_def)
  next
    case None
    with rel have fresh: "dget docs j = None" by (cases "dget docs j") auto
    from law None obtain d' s' where s': "mg_update_one M ?u s = (Inr \<lparr>ur_modified_count = 0, ur_upserted = True\<rparr>, s')"
      "dget d' = dget (set_all (mu_set ?u @ mu_set_on_insert ?u) [(''job_id'', JStr j)])"
      "\<And>i. mg_find_one M i s' = (if i = j then Some d' else mg_find_one M i s)"
      by auto
    have "set_all (mu_set ?u @ mu_set_on_insert ?u) [(''job_id'', JStr j)] =
        dset ''job_id'' (JStr j) (set_all (mu_set ?u) [(''job_id'', JStr j)])"
      by (simp add: set_all_def mongo_finalize_update_def Let_def split_on_no_sep)
    then have "dget d' = dget (dset ''job_id'' (JStr j) (?put [(''job_id'', JStr j)]))"
      using s'(2) finalize_sets [OF rep, of j "[(''job_id'', JStr j)]"] by simp
    moreover have "same_doc (dset ''job_id'' (JStr j) (?put [(''job_id'', JStr j)])) (?put (new_doc j))"
      using rep by (auto simp: same_doc_def doc_slots_def jget_def dget_dict_update_distinct plain_report_def
          new_doc_def split: option.split)
    ultimately have "mongo_agrees M s' (dset j (?put (new_doc j)) docs)"
      by (intro mongo_agrees_put [OF ag s'(3)]) (rule same_doc_cong)
    then show ?thesis
      using s'(1) fresh fin by (simp add: mongo_finalize_def ebind_def ret_def doc_or_new_def)
  qed
qed

lemma mongo_finalize_complete:
  assumes ok: "mongo_ok M" and ag: "mongo_agrees M s docs" and rep: "plain_report rep"
    and complete: "is_complete j docs"
  shows "mongo_finalize M j rep s = (Inl DuplicateKeyError, s)"
proof -
  have "rel_option same_doc (mg_find_one M j s) (dget docs j)" using ag by (simp add: mongo_agrees_def)
  with complete obtain d where "mg_find_one M j s = Some d" "jget d ''status'' = JStr STATUS_COMPLETE"
    by (cases "mg_find_one M j s"; cases "dget docs j") (auto simp: is_complete_def same_doc_status)
  then show ?thesis
    using ok [unfolded mongo_ok_def, rule_format, of "mongo_finalize_update j rep" s] finalize_no_conflict [OF rep]
    by (simp add: mongo_finalize_def ebind_def mongo_finalize_update_def status_matches_def Let_def)
qed

text \<open>The aggregator's report names the job, in \<open>$set\<close>, as \<open>$setOnInsert\<close> does.\<close>

lemma mongo_finalize_conflicts:
  assumes "mongo_ok M" "dget rep ''job_id'' = Some v"
  shows "mongo_finalize M j rep s = (Inl (WriteError CONFLICTING_UPDATE_OPERATORS), s)"
proof -
  have "dget (dset ''status'' w rep) ''job_id'' = Some v" for w using assms(2) by simp
  then have "(''job_id'', v) \<in> set (dset ''status'' w rep)" for w by (rule map_of_SomeD)
  then have "paths_conflict (mongo_finalize_update j rep)"
    by (force simp: paths_conflict_def mongo_finalize_update_def Let_def list_ex_iff)
  then show ?thesis
    using assms(1) by (simp add: mongo_ok_def mongo_finalize_def ebind_def)
qed

lemma build_report_job: "dget (build_report E narr j fs cs) ''job_id'' = Some (JStr j)"
  by (simp add: build_report_def)

text \<open>
  C31. The MongoDB store refines the in-memory store for recording sub-blobs and for the first
  finalization of a report that does not name its job. It differs twice: a second finalization
  raises \<open>DuplicateKeyError\<close> where the in-memory store answers \<open>False\<close>, and the report that the
  aggregator builds does name its job, so that finalizing it always raises, changing nothing.
\<close>

theorem mongo_store_refines_memory:
  assumes "mongo_ok M" "mongo_agrees M s docs" "plain_report rep" "CHR ''.'' \<notin> set b"
  shows "(\<exists>s'. mongo_record_sub_blob M now j b ms s = (Inr (), s') \<and>
      mongo_agrees M s' (record_sub_blob now j b ms docs)) \<and>
    (if is_complete j docs
     then mongo_finalize M j rep s = (Inl DuplicateKeyError, s) \<and> finalize_report j rep docs = (False, docs)
     else fst (finalize_report j rep docs) \<and> (\<exists>s'. mongo_finalize M j rep s = (Inr True, s') \<and>
       mongo_agrees M s' (snd (finalize_report j rep docs)))) \<and>
    mongo_finalize M j (build_report E narr j fs cs) s = (Inl (WriteError CONFLICTING_UPDATE_OPERATORS), s)"
proof (intro conjI)
  show "if is_complete j docs
     then mongo_finalize M j rep s = (Inl DuplicateKeyError, s) \<and> finalize_report j rep docs = (False, docs)
     else fst (finalize_report j rep docs) \<and> (\<exists>s'. mongo_finalize M j rep s = (Inr True, s') \<and>
       mongo_agrees M s' (snd (finalize_report j rep docs)))"
    using mongo_finalize_open [OF assms(1-3)] mongo_finalize_complete [OF assms(1-3)]
      mem_reports.finalize_won [of j rep docs]
    by (auto simp: finalize_report_def is_complete_def doc_or_new_def Let_def split: option.splits)
qed (use mongo_record_refines [OF assms(1,2,4)] mongo_finalize_conflicts [OF assms(1) build_report_job] in blast)+

section \<open>A run on the MongoDB store\<close>

text \<open>
  What the aggregate stage does to the store: it records sub-blobs, and finalizes reports it built.
  A call that raises does not stop the run, its message is a dead letter.
\<close>

datatype store_op =
    Record string string string "json list"
  | Finalize env "narrator option" string "payload list" "json list"

fun dotless :: "store_op \<Rightarrow> bool" where
  "dotless (Record now j b ms) \<longleftrightarrow> CHR ''.'' \<notin> set b"
| "dotless (Finalize E narr j fs cs) \<longleftrightarrow> True"

fun mongo_step :: "'s mongo \<Rightarrow> 's \<Rightarrow> store_op \<Rightarrow> 's" where
  "mongo_step M s (Record now j b ms) = snd (mongo_record_sub_blob M now j b ms s)"
| "mongo_step M s (Finalize E narr j fs cs) = snd (mongo_finalize M j (build_report E narr j fs cs) s)"

fun record_step :: "report_docs \<Rightarrow> store_op \<Rightarrow> report_docs" where
  "record_step docs (Record now j b ms) = record_sub_blob now j b ms docs"
| "record_step docs (Finalize E narr j fs cs) = docs"

text \<open>
  Whatever the aggregator does, the store ends with the slots that were recorded and with no
  further report complete: with this store no job is ever finalized.
\<close>

lemma mongo_reports_stay_partial:
  assumes "mongo_ok M" "mongo_agrees M s docs" "list_all dotless ops"
  shows "mongo_agrees M (foldl (mongo_step M) s ops) (foldl record_step docs ops) \<and>
    is_complete j (foldl record_step docs ops) = is_complete j docs"
  using assms(2,3)
proof (induction ops arbitrary: s docs)
  case (Cons x ops)
  have "mongo_agrees M (mongo_step M s x) (record_step docs x)"
  proof (cases x)
    case (Record now i b ms)
    with Cons.prems(2) have "CHR ''.'' \<notin> set b" by simp
    from mongo_record_refines [OF assms(1) Cons.prems(1) this, of now i ms] Record show ?thesis by auto
  next
    case (Finalize E narr i fs cs)
    then show ?thesis
      using mongo_finalize_conflicts [OF assms(1) build_report_job [of E narr i fs cs], of i s] Cons.prems(1)
      by simp
  qed
  moreover have "is_complete j (record_step docs x) = is_complete j docs"
    by (cases x) (simp_all add: mem_reports.record_complete)
  ultimately show ?case using Cons.IH Cons.prems(2) by simp
qed simp

section \<open>Witness\<close>

text \<open>A collection that behaves as documented.\<close>

definition mem_mongo :: "report_docs mongo" where
  "mem_mongo = \<lparr>mg_find_one = (\<lambda>j s. dget s j), mg_update_one = (\<lambda>u s.
     if paths_conflict u then (Inl (WriteError CONFLICTING_UPDATE_OPERATORS), s)
     else (case dget s (mu_job_id u) of
       Some doc \<Rightarrow>
         if status_matches u doc then
           let doc' = set_all (mu_set u) doc;
               unchanged = list_all (\<lambda>k. dget doc' k = dget doc k) (dkeys doc' @ dkeys doc)
           in (Inr \<lparr>ur_modified_count = (if unchanged then 0 else 1), ur_upserted = False\<rparr>,
               dset (mu_job_id u) doc' s)
         else (Inl DuplicateKeyError, s)
     | None \<Rightarrow>
         (Inr \<lparr>ur_modified_count = 0, ur_upserted = True\<rparr>,
          dset (mu_job_id u) (set_all (mu_set u @ mu_set_on_insert u) [(''job_id'', JStr (mu_job_id u))]) s)))\<rparr>"

lemma same_dget: "list_all (\<lambda>k. dget d k = dget e k) (dkeys d @ dkeys e) \<longleftrightarrow> dget d = dget e"
proof
  assume same: "list_all (\<lambda>k. dget d k = dget e k) (dkeys d @ dkeys e)"
  have "dget d k = dget e k" for k
  proof (cases "k \<in> set (dkeys d @ dkeys e)")
    case True
    with same show ?thesis unfolding list_all_iff by blast
  next
    case False
    then have "dget d k = None" "dget e k = None" by (simp_all add: dget_None_iff)
    then show ?thesis by simp
  qed
  then show "dget d = dget e" by (rule ext)
qed (simp add: list_all_iff)

lemma mem_mongo_ok: "mongo_ok mem_mongo"
  unfolding mongo_ok_def mem_mongo_def mongo.simps same_dget
  by (auto simp: Let_def split: option.split)

definition sample_stored :: report_docs where
  "sample_stored = [(''j'', dset ''sub_blobs'' (JObj [(''b'', JList [])]) (new_doc ''j''))]"

theorem mongo_store_refines_memory_witness:
  "\<exists>s'. mongo_finalize mem_mongo ''j'' [(''n'', JInt 1)] sample_stored = (Inr True, s') \<and>
    mongo_finalize mem_mongo ''j'' [(''n'', JInt 1)] s' = (Inl DuplicateKeyError, s') \<and>
    mongo_finalize mem_mongo ''j'' (build_report sample_env None ''j'' [] []) sample_stored =
      (Inl (WriteError CONFLICTING_UPDATE_OPERATORS), sample_stored)"
proof -
  have ag: "mongo_agrees mem_mongo s s" for s
    by (simp add: mongo_agrees_def mem_mongo_def option.rel_refl same_doc_def)
  have rep: "plain_report [(''n'', JInt 1)]" by (simp add: plain_report_def)
  have dot: "CHR ''.'' \<notin> set ''b''" by simp
  have "\<not> is_complete ''j'' sample_stored" by code_simp
  with mongo_store_refines_memory [OF mem_mongo_ok ag [of sample_stored] rep dot, where j = "''j''" and now = "''t''" and ms = "[]"
        and E = sample_env and narr = None and fs = "[]" and cs = "[]"]
  obtain s' where s': "mongo_finalize mem_mongo ''j'' [(''n'', JInt 1)] sample_stored = (Inr True, s')"
      "mongo_agrees mem_mongo s' (snd (finalize_report ''j'' [(''n'', JInt 1)] sample_stored))"
      "mongo_finalize mem_mongo ''j'' (build_report sample_env None ''j'' [] []) sample_stored =
        (Inl (WriteError CONFLICTING_UPDATE_OPERATORS), sample_stored)" by auto
  have "is_complete ''j'' (snd (finalize_report ''j'' [(''n'', JInt 1)] sample_stored))"
    by (simp add: mem_reports.finalize_complete)
  then have "mongo_finalize mem_mongo ''j'' [(''n'', JInt 1)] s' = (Inl DuplicateKeyError, s')"
    using mongo_store_refines_memory [OF mem_mongo_ok s'(2) rep dot, where j = "''j''" and now = "''t''" and ms = "[]"
        and E = sample_env and narr = None and fs = "[]" and cs = "[]"] by auto
  with s' show ?thesis by blast
qed

end
