(* ===== verification/Production.thy ===== *)
theory Production
  imports Pipeline MongoReports
begin

text \<open>
  The aggregate stage over any report store (\<open>services/cve_matching/aggregator.py\<close> takes its
  \<open>ReportStore\<close> as an argument), with the in-memory and the MongoDB store of \<open>reports.py\<close> as
  backends, and the worker that runs on the MongoDB one, as \<open>runtime.py\<close> sets it up. The lemmas show
  that the generic stage is the one of Aggregator on the in-memory store, and what the worker
  does in production: it never completes a job.
\<close>

section \<open>The protocol of a report store\<close>

record 'st report_backend =
  rb_record_sub_blob :: "string \<Rightarrow> string \<Rightarrow> json list \<Rightarrow> ('st, unit) eff"
  rb_get :: "string \<Rightarrow> ('st, payload option) eff"
  rb_finalize :: "string \<Rightarrow> payload \<Rightarrow> ('st, bool) eff"

definition finalize_job_on ::
  "'z report_state_scheme report_backend \<Rightarrow> env \<Rightarrow> narrator option \<Rightarrow> string \<Rightarrow>
   ('z report_state_scheme, payload option) eff" where
  "finalize_job_on B E narr job_id =
     ebind (rb_get B job_id) (\<lambda>partial.
     let partial = (case partial of
                      None \<Rightarrow> [(''job_id'', JStr job_id), (''sub_blobs'', JObj [])] | Some d \<Rightarrow> d);
         findings = findings_from_partial partial
     in ebind (gets (\<lambda>s. merge_sbom_components
               (list_json (sbom_fragment_prefix job_id) (as_artifacts s)))) (\<lambda>components.
        case validate (e_coerce E) Sbom
               (JObj [(''job_id'', JStr job_id), (''generated_at'', JStr (e_now E)),
                      (''components'', JList components)]) of
          Some (JObj sbom_doc) \<Rightarrow>
            (let report_doc = build_report E narr job_id findings components
             in ebind (rb_finalize B job_id report_doc) (\<lambda>won.
                if \<not> won then ret None
                else
                  ebind (modify (\<lambda>s. s\<lparr>as_artifacts := put_json (sbom_key job_id) sbom_doc (as_artifacts s)\<rparr>)) (\<lambda>_.
                  ebind (modify (\<lambda>s. s\<lparr>as_artifacts := put_json (report_key job_id) report_doc (as_artifacts s)\<rparr>)) (\<lambda>_.
                  ebind (modify (\<lambda>s. snd (mark_job_complete job_id s))) (\<lambda>_.
                  ebind (lift_result (validate_payload (e_coerce E) FIRMWARE_COMPLETED
                           (JObj [(''job_id'', JStr job_id), (''status'', JStr ''COMPLETE''),
                                  (''report_s3_key'', JStr (report_key job_id)),
                                  (''sbom_s3_key'', JStr (sbom_key job_id))]))) (\<lambda>completed.
                  ret (Some completed)))))))
        | _ \<Rightarrow> raise ValidationError))"

definition aggregate_on ::
  "'z report_state_scheme report_backend \<Rightarrow> env \<Rightarrow> narrator option \<Rightarrow> payload \<Rightarrow>
   ('z report_state_scheme, payload option) eff" where
  "aggregate_on B E narr payload =
     ebind (lift_result (str_field payload ''job_id'')) (\<lambda>job_id.
     ebind (lift_result (str_field payload ''sub_blob_id'')) (\<lambda>sub_blob_id.
     ebind (rb_record_sub_blob B job_id sub_blob_id
              (json_list (jget payload ''cve_matches''))) (\<lambda>_.
     ebind (completion_ready job_id) (\<lambda>ready.
     if \<not> ready then ret None
     else
       ebind (finalize_job_on B E narr job_id) (\<lambda>completed.
       (case completed of
          None \<Rightarrow> ret None
        | Some completed \<Rightarrow>
            ebind (emit E FIRMWARE_COMPLETED completed) (\<lambda>_. ret (Some completed))))))))"

definition handle_aggregate_on ::
  "'z report_state_scheme report_backend \<Rightarrow> env \<Rightarrow> narrator option \<Rightarrow> 'z report_state_scheme handler" where
  "handle_aggregate_on B E narr c payload = ebind (aggregate_on B E narr payload) (\<lambda>_. ret ())"

section \<open>The in-memory backend\<close>

definition mem_backend :: "env \<Rightarrow> 'z report_state_scheme report_backend" where
  "mem_backend E =
     \<lparr>rb_record_sub_blob = (\<lambda>j b ms. modify (\<lambda>s. s\<lparr>as_docs := record_sub_blob (e_now E) j b ms (as_docs s)\<rparr>)),
      rb_get = (\<lambda>j. gets (\<lambda>s. get_report j (as_docs s))),
      rb_finalize = (\<lambda>j rep s. (case finalize_report j rep (as_docs s) of
                                 (won, docs) \<Rightarrow> (Inr won, s\<lparr>as_docs := docs\<rparr>)))\<rparr>"

lemma finalize_job_on_mem: "finalize_job_on (mem_backend E) E narr j = finalize_job E narr j"
  by (rule ext)
    (auto simp: finalize_job_on_def finalize_job_def mem_backend_def eff_defs Let_def
      split: option.splits json.splits sum.splits prod.splits)

text \<open>
  The aggregate stage does not know its store: written over the protocol of a report store and
  given the in-memory one, it is the stage of \<open>Aggregator\<close>, in result, report, artifacts and events.
\<close>

theorem aggregate_on_memory:
  "handle_aggregate_on (mem_backend E) E narr = handle_aggregate E narr"
  unfolding handle_aggregate_on_def [abs_def] handle_aggregate_def [abs_def] aggregate_on_def aggregate_def
    finalize_job_on_mem
  by (simp add: mem_backend_def Let_def)

section \<open>The MongoDB backend\<close>

record 's prod_state = unpack_state +
  ps_mongo :: 's

definition on_mongo :: "('s, 'a) eff \<Rightarrow> (('s, 'z) prod_state_scheme, 'a) eff" where
  "on_mongo m s = (case m (ps_mongo s) of (r, d) \<Rightarrow> (r, s\<lparr>ps_mongo := d\<rparr>))"

definition mongo_backend :: "'s mongo \<Rightarrow> env \<Rightarrow> ('s, 'z) prod_state_scheme report_backend" where
  "mongo_backend M E =
     \<lparr>rb_record_sub_blob = (\<lambda>j b ms. on_mongo (mongo_record_sub_blob M (e_now E) j b ms)),
      rb_get = (\<lambda>j. gets (\<lambda>s. mongo_get M j (ps_mongo s))),
      rb_finalize = (\<lambda>j rep. on_mongo (mongo_finalize M j rep))\<rparr>"

text \<open>The worker as \<open>runtime.py\<close> equips it when nothing is injected.\<close>

fun prod_stage_body :: "worker \<Rightarrow> 's mongo \<Rightarrow> stage \<Rightarrow> ('s, 'z) prod_state_scheme handler" where
  "prod_stage_body W M Aggregate =
     handle_aggregate_on (mongo_backend M (wk_env W)) (wk_env W) (wk_narrator W)"
| "prod_stage_body W M st = stage_body W st"

definition prod_run ::
  "worker \<Rightarrow> 's mongo \<Rightarrow> string \<Rightarrow> poll list \<Rightarrow> kmsg list \<times> ('s, 'z) prod_state_scheme \<Rightarrow>
   nat result \<times> kmsg list \<times> ('s, 'z) prod_state_scheme" where
  "prod_run W M services_env polls st =
     (case register_all REGISTRATIONS [] of
        Inl e \<Rightarrow> (Inl e, st)
      | Inr reg \<Rightarrow> run (wk_env W) reg (prod_stage_body W M) services_env polls st)"

lemma finalize_on_mongo:
  assumes "mongo_ok M"
  shows "\<exists>e. finalize_job_on (mongo_backend M E) E narr j s = (Inl e, s) \<and>
    (\<forall>doc. final_sbom E j (as_artifacts s) = Some (JObj doc) \<longrightarrow> e = WriteError CONFLICTING_UPDATE_OPERATORS)"
  using mongo_finalize_conflicts [OF assms build_report_job]
  by (auto simp: finalize_job_on_def mongo_backend_def on_mongo_def eff_defs Let_def final_sbom_def
      job_components_def split: option.split json.split)

lemma stays_on_mongo [stays_rules]: "stays T (on_mongo m)"
  by (auto simp: stays_def tame_def on_mongo_def split: prod.splits)

lemma stays_completion_ready [stays_rules]: "stays T (completion_ready j)"
  unfolding completion_ready_def
  by (intro stays_rules) (auto intro!: stays_rules split: option.split)

lemma stays_aggregate_mongo:
  assumes "mongo_ok M"
  shows "stays {} (handle_aggregate_on (mongo_backend M E) E narr c p)"
proof -
  have fin: "ebind (finalize_job_on (mongo_backend M E) E narr j) f s = (Inl e, s)"
    if "finalize_job_on (mongo_backend M E) E narr j s = (Inl e, s)" for j f e and s :: "('a, 'b) prod_state_scheme"
    using that by (simp add: ebind_def)
  have final: "stays {} (ebind (finalize_job_on (mongo_backend M E) E narr j) f :: (('a, 'b) prod_state_scheme, 'c) eff)" for j f
    by (rule staysI) (metis finalize_on_mongo [OF assms] fin snd_conv tame_refl)
  have rec: "stays {} (rb_record_sub_blob (mongo_backend M E) j b ms)" for j b ms
    by (simp add: mongo_backend_def stays_on_mongo)
  show ?thesis
    unfolding handle_aggregate_on_def aggregate_on_def
    by (intro stays_ebind stays_pure rec stays_completion_ready) (simp add: stays_pure final)
qed

section \<open>A run of the production worker\<close>

definition before_completion :: "string set" where
  "before_completion = {FIRMWARE_TRIAGED, FIRMWARE_EXTRACTED, FIRMWARE_ANALYZED, FIRMWARE_MATCHED, FIRMWARE_DLQ}"

lemma stays_prod_stage:
  assumes "mongo_ok M" "dget REGISTRATIONS t = Some h"
  shows "stays before_completion (prod_stage_body W M h c p)"
proof (cases "h = Aggregate")
  case True
  then show ?thesis using stays_mono [OF stays_aggregate_mongo [OF assms(1)]] by simp
next
  case False
  have sub: "{the (dget NEXT_TOPIC t), FIRMWARE_DLQ} \<subseteq> before_completion"
    using assms(2) False
    by (auto simp: REGISTRATIONS_def NEXT_TOPIC_def before_completion_def topic_defs split: if_splits)
  show ?thesis using stays_mono [OF stays_stage [OF assms(2) False] sub] False by (cases h) simp_all
qed

lemma tame_prod_poll:
  assumes "mongo_ok M"
  shows "tame before_completion (snd st) (snd (poll_step E REGISTRATIONS (prod_stage_body W M) p st))"
proof (cases p)
  case (PollMsg m)
  obtain cs s where st: "st = (cs, s)" by fastforce
  obtain r t where rt: "process_message E REGISTRATIONS (prod_stage_body W M) m s = (r, t)" by fastforce
  have "tame before_completion s (snd (process_message E REGISTRATIONS (prod_stage_body W M) m s))"
  proof (rule process_message_frame [where R = "tame before_completion"])
    fix h c p r
    assume "get_handler REGISTRATIONS (km_topic m) = Some h"
    then have "tame before_completion (s\<lparr>rs_redis := r\<rparr>) (snd (prod_stage_body W M h c p (s\<lparr>rs_redis := r\<rparr>)))"
      by (intro staysD stays_prod_stage [OF assms, of "km_topic m"]) (simp add: get_handler_def)
    then show "tame before_completion s (snd (prod_stage_body W M h c p (s\<lparr>rs_redis := r\<rparr>)))"
      by (simp add: tame_def)
  qed simp_all
  then have t: "tame before_completion s t" by (simp add: rt)
  have "tame before_completion t (snd (produce_dlq E m e t))" for e
    by (intro staysD stays_produce_dlq) (simp add: before_completion_def)
  then show ?thesis
    using t by (auto simp: PollMsg st poll_step_snd rt intro: tame_trans split: sum.split)
qed (simp_all add: poll_step_def)

lemma tame_prod_loop:
  assumes "mongo_ok M"
  shows "tame before_completion (snd st) (snd (run_loop E REGISTRATIONS (prod_stage_body W M) polls st))"
  unfolding run_loop_def
proof (induction polls arbitrary: st)
  case (Cons p polls)
  show ?case using tame_trans [OF tame_prod_poll [OF assms] Cons.IH] by simp
qed simp


text \<open>
  The match that opens the gate is recorded, and then its handler raises: the router makes a dead
  letter of it.
\<close>

lemma gate_opening_match_raises:
  assumes "mongo_ok M" "mongo_agrees M (ps_mongo s) docs"
    and "str_field p ''job_id'' = Inr j" "str_field p ''sub_blob_id'' = Inr b" "CHR ''.'' \<notin> set b"
    and "gate_open j (rs_redis s)" "final_sbom E j (as_artifacts s) = Some (JObj doc)"
  shows "\<exists>s'. handle_aggregate_on (mongo_backend M E) E narr c p s =
      (Inl (WriteError CONFLICTING_UPDATE_OPERATORS), s') \<and>
    mongo_agrees M (ps_mongo s') (record_sub_blob (e_now E) j b (json_list (jget p ''cve_matches'')) docs)"
proof -
  from mongo_record_refines [OF assms(1,2,5)] obtain d where
    d: "mongo_record_sub_blob M (e_now E) j b (json_list (jget p ''cve_matches'')) (ps_mongo s) = (Inr (), d)"
      "mongo_agrees M d (record_sub_blob (e_now E) j b (json_list (jget p ''cve_matches'')) docs)" by blast
  let ?s = "s\<lparr>ps_mongo := d\<rparr>"
  obtain r where "completion_ready j ?s = (Inr True, ?s\<lparr>rs_redis := r\<rparr>)"
    using completion_ready_eq [of j ?s] assms(6) by auto
  moreover obtain e where "finalize_job_on (mongo_backend M E) E narr j (?s\<lparr>rs_redis := r\<rparr>) = (Inl e, ?s\<lparr>rs_redis := r\<rparr>)"
      "e = WriteError CONFLICTING_UPDATE_OPERATORS"
    using finalize_on_mongo [OF assms(1), of E narr j "?s\<lparr>rs_redis := r\<rparr>"] assms(7) by auto
  ultimately show ?thesis
    using d assms(3,4)
    by (simp add: handle_aggregate_on_def aggregate_on_def ebind_def lift_result_def mongo_backend_def on_mongo_def)
qed

section \<open>Witness\<close>

definition sample_prod :: "report_docs prod_state" where
  "sample_prod =
     \<lparr>rs_redis = rs_redis sample_pipeline, rs_log = [], rs_faults = [], as_docs = [],
      as_artifacts = [], as_jobs = [(''j'', ''UPLOADED'')], as_pg_up = True,
      is_blobs = is_blobs sample_pipeline, us_total = 0, us_dirs = 0, us_uuids = 0, ps_mongo = []\<rparr>"


end
