(* ===== verification/JobsTable.thy ===== *)
theory JobsTable
  imports Gateway CveApi
begin

text \<open>
  The \<open>jobs\<close> table of Postgres and the three modules that share it: the repository of the gateway
  (\<open>services/gateway/jobs.py\<close>, \<open>PostgresJobsRepo\<close>), the status update of the aggregator
  (\<open>services/cve_matching/jobs_status.py\<close>) and the job list (\<open>services/integration/reports_api.py\<close>).
  The lemmas show the life cycle of a row under every interleaving and every outage, and that the
  table refines both the in-memory repository and the job statuses the aggregator works on.
\<close>

section \<open>The table and the connection\<close>

text \<open>
  \<open>jd_table\<close> is \<open>None\<close> until the DDL has run, \<open>jd_ready\<close> the flag of the gateway's repository, and
  \<open>jd_faults\<close> says of the coming connection attempts which fail.
\<close>

record jobs_db =
  jd_table :: "job list option"
  jd_ready :: bool
  jd_faults :: "bool list"

definition pg_connect :: "(jobs_db, unit) eff" where
  "pg_connect s =
     (case jd_faults s of
        [] \<Rightarrow> (Inr (), s)
      | f # fs \<Rightarrow> (if f then Inl OperationalError else Inr (), s\<lparr>jd_faults := fs\<rparr>))"

definition ensure_schema :: "(jobs_db, unit) eff" where
  "ensure_schema s =
     (if jd_ready s then (Inr (), s)
      else ebind pg_connect (\<lambda>_.
             modify (\<lambda>s. s\<lparr>jd_table := Some (case jd_table s of None \<Rightarrow> [] | Some rows \<Rightarrow> rows),
                            jd_ready := True\<rparr>)) s)"

definition with_table :: "(job list \<Rightarrow> (jobs_db, 'a) eff) \<Rightarrow> (jobs_db, 'a) eff" where
  "with_table f s =
     (case jd_table s of None \<Rightarrow> (Inl (RuntimeError ''UndefinedTable''), s) | Some rows \<Rightarrow> f rows s)"

section \<open>The statements\<close>

definition pg_jobs_create :: "string \<Rightarrow> string \<Rightarrow> string \<Rightarrow> (jobs_db, job) eff" where
  "pg_jobs_create now job_id uploaded_by =
     ebind ensure_schema (\<lambda>_.
     let job = \<lparr>jb_job_id = job_id, jb_status = STATUS_UPLOADED, jb_uploaded_by = uploaded_by,
                jb_created_at = now, jb_completed_at = None\<rparr>
     in ebind pg_connect (\<lambda>_. with_table (\<lambda>rows.
        if job_id \<in> set (map jb_job_id rows) then raise UniqueViolation
        else ebind (modify (\<lambda>s. s\<lparr>jd_table := Some (rows @ [job])\<rparr>)) (\<lambda>_. ret job))))"

definition pg_jobs_get :: "string \<Rightarrow> (jobs_db, job option) eff" where
  "pg_jobs_get job_id =
     ebind ensure_schema (\<lambda>_. ebind pg_connect (\<lambda>_. with_table (\<lambda>rows.
     ret (find (\<lambda>r. jb_job_id r = job_id) rows))))"

text \<open>\<open>UPDATE jobs SET status = 'COMPLETE', completed_at = now()\<close>; every exception yields \<open>False\<close>.\<close>

definition complete_row :: "string \<Rightarrow> job \<Rightarrow> job" where
  "complete_row now r = r\<lparr>jb_status := ''COMPLETE'', jb_completed_at := Some now\<rparr>"

definition pg_mark_job_complete :: "string \<Rightarrow> string \<Rightarrow> (jobs_db, bool) eff" where
  "pg_mark_job_complete now job_id =
     catch (ebind pg_connect (\<lambda>_. with_table (\<lambda>rows.
              ebind (modify (\<lambda>s. s\<lparr>jd_table :=
                       Some (map (\<lambda>r. if jb_job_id r = job_id then complete_row now r else r) rows)\<rparr>)) (\<lambda>_.
              ret (0 < length (filter (\<lambda>r. jb_job_id r = job_id) rows))))))
       (\<lambda>e. ret False)"

text \<open>
  \<open>ORDER BY created_at DESC LIMIT 500\<close>, where \<open>stamp\<close> is the instant that a timestamp denotes. Rows of
  the same instant come in the order of the table here; the database may order them otherwise.
\<close>

definition listed_row :: "job \<Rightarrow> jobs_row" where
  "listed_row r =
     \<lparr>jr_job_id = jb_job_id r, jr_status = jb_status r, jr_uploaded_by = jb_uploaded_by r,
      jr_created_at = Some (jb_created_at r), jr_completed_at = jb_completed_at r\<rparr>"

definition newest_rows :: "(string \<Rightarrow> int) \<Rightarrow> job list \<Rightarrow> job list" where
  "newest_rows stamp rows = take 500 (sort_key (\<lambda>r. - stamp (jb_created_at r)) rows)"

definition pg_list_jobs :: "(string \<Rightarrow> int) \<Rightarrow> (jobs_db, payload list) eff" where
  "pg_list_jobs stamp s =
     (case ebind pg_connect (\<lambda>_. with_table (\<lambda>rows. ret (map listed_row (newest_rows stamp rows)))) s of
        (answer, s) \<Rightarrow> (Inr (pg_jobs_lister answer), s))"

section \<open>Views\<close>

definition job_rows :: "jobs_db \<Rightarrow> job list" where
  "job_rows s = (case jd_table s of None \<Rightarrow> [] | Some rows \<Rightarrow> rows)"

definition job_view :: "jobs_db \<Rightarrow> string \<Rightarrow> job option" where
  "job_view s j = find (\<lambda>r. jb_job_id r = j) (job_rows s)"

definition row_ok :: "job \<Rightarrow> bool" where
  "row_ok r \<longleftrightarrow> (jb_status r = STATUS_UPLOADED \<and> jb_completed_at r = None) \<or>
     (jb_status r = ''COMPLETE'' \<and> jb_completed_at r \<noteq> None)"

definition jobs_db_inv :: "jobs_db \<Rightarrow> bool" where
  "jobs_db_inv s \<longleftrightarrow> distinct (map jb_job_id (job_rows s)) \<and> list_all row_ok (job_rows s) \<and>
     (jd_ready s \<longrightarrow> jd_table s \<noteq> None)"

text \<open>What a row may turn into.\<close>

definition row_later :: "job \<Rightarrow> job \<Rightarrow> bool" where
  "row_later r r' \<longleftrightarrow> jb_job_id r' = jb_job_id r \<and> jb_uploaded_by r' = jb_uploaded_by r \<and>
     jb_created_at r' = jb_created_at r \<and> (jb_status r = ''COMPLETE'' \<longrightarrow> jb_status r' = ''COMPLETE'')"

definition rows_later :: "job list \<Rightarrow> job list \<Rightarrow> bool" where
  "rows_later rows rows' \<longleftrightarrow> (\<exists>old new. rows' = old @ new \<and> list_all2 row_later rows old)"

definition uploaded_row :: "string \<Rightarrow> string \<Rightarrow> string \<Rightarrow> job" where
  "uploaded_row now job_id uploaded_by =
     \<lparr>jb_job_id = job_id, jb_status = STATUS_UPLOADED, jb_uploaded_by = uploaded_by,
      jb_created_at = now, jb_completed_at = None\<rparr>"

section \<open>One statement\<close>

lemma pg_connect_rows [simp]:
  "job_rows (snd (pg_connect s)) = job_rows s" "jd_ready (snd (pg_connect s)) = jd_ready s"
  "jd_table (snd (pg_connect s)) = jd_table s"
  by (simp_all add: pg_connect_def job_rows_def split: list.split)

lemma pg_connect_cases:
  obtains (up) s1 where "pg_connect s = (Inr (), s1)" "jd_table s1 = jd_table s" "jd_ready s1 = jd_ready s"
      "jd_faults s1 = tl (jd_faults s)"
  | (down) s1 where "pg_connect s = (Inl OperationalError, s1)" "jd_table s1 = jd_table s" "jd_ready s1 = jd_ready s"
      "jd_faults s \<noteq> []"
proof (cases "jd_faults s")
  case Nil
  then show ?thesis by (intro up [of s]) (simp_all add: pg_connect_def)
next
  case (Cons f fs)
  then show ?thesis
    using up [of "s\<lparr>jd_faults := fs\<rparr>"] down [of "s\<lparr>jd_faults := fs\<rparr>"] by (cases f) (simp_all add: pg_connect_def)
qed

lemma ensure_schema_cases:
  assumes "jobs_db_inv s"
  obtains (up) s1 where "ensure_schema s = (Inr (), s1)" "jd_table s1 = Some (job_rows s)" "jobs_db_inv s1"
      "jd_faults s = [] \<Longrightarrow> jd_faults s1 = []"
  | (down) s1 where "ensure_schema s = (Inl OperationalError, s1)" "job_rows s1 = job_rows s" "jobs_db_inv s1"
      "jd_faults s \<noteq> []"
proof (cases "jd_ready s")
  case True
  then show ?thesis using assms by (intro up [of s]) (auto simp: ensure_schema_def jobs_db_inv_def job_rows_def)
next
  case False
  show ?thesis
  proof (cases s rule: pg_connect_cases)
    case (up s1)
    let ?s = "s1\<lparr>jd_table := Some (job_rows s), jd_ready := True\<rparr>"
    have "ensure_schema s = (Inr (), ?s)"
      using False up by (simp add: ensure_schema_def ebind_def modify_def job_rows_def)
    then show ?thesis using assms up(4) that(1) [of ?s] by (simp add: jobs_db_inv_def job_rows_def)
  next
    case (down s1)
    then show ?thesis
      using False assms that(2) [of s1] by (simp add: ensure_schema_def ebind_def jobs_db_inv_def job_rows_def)
  qed
qed

lemma pg_jobs_create_cases:
  assumes "jobs_db_inv s"
  obtains (created) s' where "pg_jobs_create now j u s = (Inr (uploaded_row now j u), s')"
      "j \<notin> set (map jb_job_id (job_rows s))" "job_rows s' = job_rows s @ [uploaded_row now j u]"
      "jd_ready s' \<longrightarrow> jd_table s' \<noteq> None" "jd_faults s = [] \<Longrightarrow> jd_faults s' = []"
  | (duplicate) s' where "pg_jobs_create now j u s = (Inl UniqueViolation, s')"
      "j \<in> set (map jb_job_id (job_rows s))" "job_rows s' = job_rows s" "jd_ready s' \<longrightarrow> jd_table s' \<noteq> None"
      "jd_faults s = [] \<Longrightarrow> jd_faults s' = []"
  | (down) s' where "pg_jobs_create now j u s = (Inl OperationalError, s')" "job_rows s' = job_rows s"
      "jd_ready s' \<longrightarrow> jd_table s' \<noteq> None" "jd_faults s \<noteq> []"
using assms
proof (cases rule: ensure_schema_cases)
  case ready: (up s1)
  show ?thesis
  proof (cases s1 rule: pg_connect_cases)
    case (up s2)
    then show ?thesis
      using ready that(1,2)
      by (auto simp: pg_jobs_create_def ebind_def Let_def with_table_def raise_def modify_def ret_def
          uploaded_row_def job_rows_def split: if_splits)
  next
    case (down s2)
    then show ?thesis
      using ready that(3) [of s2]
      by (auto simp: pg_jobs_create_def ebind_def Let_def job_rows_def)
  qed
next
  case unready: (down s1)
  then show ?thesis
    using that(3) [of s1] by (auto simp: pg_jobs_create_def ebind_def jobs_db_inv_def)
qed

lemma pg_jobs_get_cases:
  assumes "jobs_db_inv s"
  obtains (found) s' where "pg_jobs_get j s = (Inr (job_view s j), s')" "job_rows s' = job_rows s"
      "jd_ready s' \<longrightarrow> jd_table s' \<noteq> None" "jd_faults s = [] \<Longrightarrow> jd_faults s' = []"
  | (down) s' where "pg_jobs_get j s = (Inl OperationalError, s')" "job_rows s' = job_rows s"
      "jd_ready s' \<longrightarrow> jd_table s' \<noteq> None" "jd_faults s \<noteq> []"
  using assms
proof (cases rule: ensure_schema_cases)
  case ready: (up s1)
  show ?thesis
  proof (cases s1 rule: pg_connect_cases)
    case (up s2)
    then show ?thesis
      using ready that(1) [of s2]
      by (auto simp: pg_jobs_get_def ebind_def with_table_def ret_def job_rows_def job_view_def)
  next
    case (down s2)
    then show ?thesis
      using ready that(2) [of s2] by (auto simp: pg_jobs_get_def ebind_def job_rows_def)
  qed
next
  case unready: (down s1)
  then show ?thesis
    using that(2) [of s1] by (auto simp: pg_jobs_get_def ebind_def jobs_db_inv_def)
qed

definition mark_rows :: "string \<Rightarrow> string \<Rightarrow> job list \<Rightarrow> job list" where
  "mark_rows now j rows = map (\<lambda>r. if jb_job_id r = j then complete_row now r else r) rows"

lemma find_distinct_id:
  "distinct (map jb_job_id rows) \<Longrightarrow> r \<in> set rows \<Longrightarrow> find (\<lambda>q. jb_job_id q = jb_job_id r) rows = Some r"
  by (induction rows) (auto simp: image_iff)

lemma mark_rows_ids [simp]: "map jb_job_id (mark_rows now j rows) = map jb_job_id rows"
  by (simp add: mark_rows_def complete_row_def comp_def if_distrib cong: if_cong)

lemma pg_mark_job_complete_cases:
  assumes "jobs_db_inv s"
  obtains (marked) s' where
      "pg_mark_job_complete now j s = (Inr (j \<in> set (map jb_job_id (job_rows s))), s')"
      "job_rows s' = mark_rows now j (job_rows s)"
      "jd_ready s' \<longrightarrow> jd_table s' \<noteq> None" "jd_faults s = [] \<Longrightarrow> jd_faults s' = []"
  | (down) s' where "pg_mark_job_complete now j s = (Inr False, s')" "job_rows s' = job_rows s"
      "jd_ready s' \<longrightarrow> jd_table s' \<noteq> None" "jd_faults s \<noteq> []"
proof (cases s rule: pg_connect_cases)
  case (up s1)
  show ?thesis
  proof (cases "jd_table s")
    case None
    then show ?thesis
      using up assms that(1) [of s1]
      by (auto simp: pg_mark_job_complete_def catch_def ebind_def with_table_def ret_def job_rows_def mark_rows_def
          jobs_db_inv_def)
  next
    case (Some rows)
    have "(0 < length (filter (\<lambda>r. jb_job_id r = j) rows)) = (j \<in> set (map jb_job_id rows))"
      by (auto simp: filter_empty_conv)
    then show ?thesis
      using up Some that(1) [of "s1\<lparr>jd_table := Some (mark_rows now j rows)\<rparr>"]
      by (auto simp: pg_mark_job_complete_def catch_def ebind_def with_table_def ret_def modify_def job_rows_def
          mark_rows_def)
  qed
next
  case (down s1)
  then show ?thesis
    using assms that(2) [of s1]
    by (auto simp: pg_mark_job_complete_def catch_def ebind_def ret_def job_rows_def jobs_db_inv_def)
qed

lemma pg_list_jobs_state: "jd_table (snd (pg_list_jobs stamp s)) = jd_table s"
    "jd_ready (snd (pg_list_jobs stamp s)) = jd_ready s"
  by (cases s rule: pg_connect_cases;
      simp add: pg_list_jobs_def ebind_def with_table_def ret_def split: option.split)+

section \<open>Every interleaving of the three modules\<close>

datatype jobs_op =
    CreateJob string string string
  | ReadJob string
  | MarkComplete string string
  | ListNewest "string \<Rightarrow> int"

fun jobs_step :: "jobs_db \<Rightarrow> jobs_op \<Rightarrow> jobs_db" where
  "jobs_step s (CreateJob now j u) = snd (pg_jobs_create now j u s)"
| "jobs_step s (ReadJob j) = snd (pg_jobs_get j s)"
| "jobs_step s (MarkComplete now j) = snd (pg_mark_job_complete now j s)"
| "jobs_step s (ListNewest stamp) = snd (pg_list_jobs stamp s)"

lemma row_later_refl [simp]: "row_later r r"
  by (simp add: row_later_def)

lemma row_later_trans: "row_later r r' \<Longrightarrow> row_later r' r'' \<Longrightarrow> row_later r r''"
  by (simp add: row_later_def)

lemma rows_laterI: "list_all2 row_later rows old \<Longrightarrow> rows_later rows (old @ new)"
  by (auto simp: rows_later_def)

lemma rows_later_append: "rows_later rows (rows @ new)"
  by (rule rows_laterI) (simp add: list_all2_refl)

lemma rows_later_refl [simp]: "rows_later rows rows"
  using rows_later_append [of rows "[]"] by simp

lemma rows_later_trans: "rows_later a b \<Longrightarrow> rows_later b c \<Longrightarrow> rows_later a c"
proof -
  assume "rows_later a b" "rows_later b c"
  then obtain x y x' y' where b: "b = x @ y" "list_all2 row_later a x"
      and c: "c = x' @ y'" "list_all2 row_later (x @ y) x'"
    by (auto simp: rows_later_def)
  from c(2) obtain u v where u: "x' = u @ v" "list_all2 row_later x u"
    by (auto simp: list_all2_append1)
  have "list_all2 row_later a u"
    by (rule list_all2_trans [OF _ b(2) u(2)]) (rule row_later_trans)
  from rows_laterI [OF this, of "v @ y'"] show "rows_later a c" by (simp add: c(1) u(1))
qed

lemma list_all2_in: "list_all2 P xs ys \<Longrightarrow> x \<in> set xs \<Longrightarrow> \<exists>y \<in> set ys. P x y"
  by (induction rule: list_all2_induct) auto

lemma rows_later_row:
  assumes "rows_later rows rows'" "r \<in> set rows"
  shows "\<exists>r' \<in> set rows'. row_later r r'"
proof -
  from assms(1) obtain old new where "rows' = old @ new" "list_all2 row_later rows old"
    by (auto simp: rows_later_def)
  then show ?thesis using assms(2) list_all2_in [of row_later rows old r] by auto
qed

lemma jobs_step_rows:
  assumes "jobs_db_inv s"
  shows "jobs_db_inv (jobs_step s x) \<and> rows_later (job_rows s) (job_rows (jobs_step s x))"
proof -
  have same: "jobs_db_inv t \<and> rows_later (job_rows s) (job_rows t)"
    if "job_rows t = job_rows s" "jd_ready t \<longrightarrow> jd_table t \<noteq> None" for t
    using assms that by (simp add: jobs_db_inv_def)
  show ?thesis
  proof (cases x)
    case (CreateJob now j u)
    have new: "row_ok (uploaded_row now j u)" "jb_job_id (uploaded_row now j u) = j"
      by (simp_all add: row_ok_def uploaded_row_def)
    from assms show ?thesis
    proof (cases rule: pg_jobs_create_cases [of s now j u])
      case (created s')
      then show ?thesis
        using assms new by (auto simp: CreateJob jobs_db_inv_def rows_later_append)
    qed (use CreateJob same in simp_all)
  next
    case (ReadJob j)
    from assms show ?thesis
      by (cases rule: pg_jobs_get_cases [of s j]) (simp_all add: ReadJob same)
  next
    case (MarkComplete now j)
    from assms show ?thesis
    proof (cases rule: pg_mark_job_complete_cases [of s now j])
      case (marked s')
      have "list_all row_ok (mark_rows now j (job_rows s))" "list_all2 row_later (job_rows s) (mark_rows now j (job_rows s))"
        using assms
        by (auto simp: mark_rows_def jobs_db_inv_def list_all_iff row_ok_def complete_row_def row_later_def
            list_all2_conv_all_nth)
      then show ?thesis
        using assms marked rows_laterI [where new = "[]"] by (simp add: MarkComplete jobs_db_inv_def)
    qed (use MarkComplete same in simp_all)
  next
    case (ListNewest stamp)
    have "job_rows (jobs_step s x) = job_rows s" "jd_ready (jobs_step s x) \<longrightarrow> jd_table (jobs_step s x) \<noteq> None"
      using assms by (simp_all add: ListNewest job_rows_def pg_list_jobs_state jobs_db_inv_def)
    then show ?thesis by (rule same)
  qed
qed

text \<open>What the list shows of a table: at most 500 of its rows, newest first, none newer left out.\<close>

lemma newest_rows_spec:
  "set (newest_rows stamp rows) \<subseteq> set rows \<and> length (newest_rows stamp rows) = min 500 (length rows) \<and>
   sorted_wrt (\<lambda>a b. stamp (jb_created_at b) \<le> stamp (jb_created_at a)) (newest_rows stamp rows) \<and>
   (\<forall>r \<in> set (newest_rows stamp rows). \<forall>q \<in> set rows - set (newest_rows stamp rows).
      stamp (jb_created_at q) \<le> stamp (jb_created_at r))"
proof -
  let ?k = "\<lambda>r. - stamp (jb_created_at r)"
  have "sorted (map ?k (sort_key ?k rows))" by simp
  then have srt: "sorted_wrt (\<lambda>a b. stamp (jb_created_at b) \<le> stamp (jb_created_at a)) (sort_key ?k rows)"
    by (simp add: sorted_map)
  have split: "sort_key ?k rows = newest_rows stamp rows @ drop 500 (sort_key ?k rows)"
    by (simp add: newest_rows_def)
  have all: "set rows = set (newest_rows stamp rows) \<union> set (drop 500 (sort_key ?k rows))"
    by (metis split set_append set_sort)
  from srt have "sorted_wrt (\<lambda>a b. stamp (jb_created_at b) \<le> stamp (jb_created_at a))
      (newest_rows stamp rows @ drop 500 (sort_key ?k rows))" by (simp only: split [symmetric])
  moreover have "set (newest_rows stamp rows) \<subseteq> set rows" "length (newest_rows stamp rows) = min 500 (length rows)"
    using all by (auto simp: newest_rows_def)
  ultimately show ?thesis using all unfolding sorted_wrt_append by blast
qed

definition jobs_db_start :: "bool list \<Rightarrow> jobs_db" where
  "jobs_db_start fs = \<lparr>jd_table = None, jd_ready = False, jd_faults = fs\<rparr>"

text \<open>
  C7. However the gateway, the aggregator and the job list interleave on the table, and whichever of
  their connections fail: job ids stay distinct, a row is either uploaded and not completed or
  complete with an instant, rows are never lost, keep their owner and their creation time, and
  never leave COMPLETE.
\<close>

theorem jobs_table_life_cycle:
  assumes "s = foldl jobs_step (jobs_db_start fs) (ops @ ops')" "t = foldl jobs_step (jobs_db_start fs) ops"
    and "job_view t j = Some r"
  shows "distinct (map jb_job_id (job_rows s)) \<and> list_all row_ok (job_rows s) \<and>
    (\<exists>r'. job_view s j = Some r' \<and> jb_uploaded_by r' = jb_uploaded_by r \<and> jb_created_at r' = jb_created_at r \<and>
       (jb_status r = ''COMPLETE'' \<longrightarrow> jb_status r' = ''COMPLETE''))"
proof -
  have run: "jobs_db_inv (foldl jobs_step u xs) \<and> rows_later (job_rows u) (job_rows (foldl jobs_step u xs))"
    if "jobs_db_inv u" for u xs
    using that
  proof (induction xs arbitrary: u)
    case (Cons x xs)
    then show ?case using jobs_step_rows [of u x] rows_later_trans by fastforce
  qed simp
  have "jobs_db_inv (jobs_db_start fs)" by (simp add: jobs_db_inv_def jobs_db_start_def job_rows_def)
  then have t: "jobs_db_inv t" using run assms(2) by simp
  have s: "jobs_db_inv s" and later: "rows_later (job_rows t) (job_rows s)"
    using run [OF t, of ops'] assms(1,2) by simp_all
  from assms(3) have r: "r \<in> set (job_rows t)" "jb_job_id r = j"
    unfolding job_view_def by (auto simp: find_Some_iff)
  from rows_later_row [OF later r(1)] obtain r' where r': "r' \<in> set (job_rows s)" "row_later r r'" by blast
  have "jb_job_id r' = j" using r'(2) r(2) by (simp add: row_later_def)
  then have "job_view s j = Some r'"
    using find_distinct_id [OF _ r'(1)] s by (simp add: job_view_def jobs_db_inv_def)
  then show ?thesis using s r'(2) by (auto simp: jobs_db_inv_def row_later_def)
qed

section \<open>One table for the gateway and the aggregator\<close>

text \<open>
  The table against the dictionary of the in-memory repository, and against the status column that
  the aggregator's \<open>mark_job_complete\<close> works on.
\<close>

definition jobs_agree :: "jobs_db \<Rightarrow> jobs \<Rightarrow> bool" where
  "jobs_agree s d \<longleftrightarrow> jobs_db_inv s \<and> jd_faults s = [] \<and> (\<forall>j. job_view s j = dget d j)"

definition statuses_agree :: "jobs_db \<Rightarrow> (string, string) dict \<Rightarrow> bool" where
  "statuses_agree s d \<longleftrightarrow> jobs_db_inv s \<and> jd_faults s = [] \<and>
     (\<forall>j. map_option jb_status (job_view s j) = dget d j)"

lemma find_append: "find P (xs @ ys) = (case find P xs of Some x \<Rightarrow> Some x | None \<Rightarrow> find P ys)"
  by (induction xs) auto

lemma view_None: "job_view s j = None \<longleftrightarrow> j \<notin> set (map jb_job_id (job_rows s))"
  by (auto simp: job_view_def find_None_iff)

lemma find_mark_rows:
  "find (\<lambda>r. jb_job_id r = i) (mark_rows now j rows) =
     map_option (\<lambda>r. if i = j then complete_row now r else r) (find (\<lambda>r. jb_job_id r = i) rows)"
  by (induction rows) (auto simp: mark_rows_def complete_row_def)

lemma pg_jobs_get_refines:
  assumes "jobs_agree s d"
  shows "\<exists>s'. pg_jobs_get j s = (Inr (jobs_get j d), s') \<and> jobs_agree s' d"
proof -
  from assms have inv: "jobs_db_inv s" and up: "jd_faults s = []" and view: "job_view s j = dget d j" for j
    by (simp_all add: jobs_agree_def)
  from inv show ?thesis
  proof (cases rule: pg_jobs_get_cases [of s j])
    case (found s')
    then show ?thesis
      using inv up view by (auto simp: jobs_agree_def jobs_get_def jobs_db_inv_def job_view_def)
  qed (simp add: up)
qed

lemma pg_jobs_create_refines:
  assumes "jobs_agree s d"
  shows "\<exists>r s'. pg_jobs_create now j u s = (r, s') \<and> jobs_agree s' (snd (jobs_create now j u d)) \<and>
    (case fst (jobs_create now j u d) of Inr row \<Rightarrow> r = Inr row | Inl e \<Rightarrow> r = Inl UniqueViolation)"
proof -
  from assms have inv: "jobs_db_inv s" and up: "jd_faults s = []" and view: "job_view s j = dget d j" for j
    by (simp_all add: jobs_agree_def)
  from inv show ?thesis
  proof (cases rule: pg_jobs_create_cases [of s now j u])
    case (created s')
    have "jobs_create now j u d = (Inr (uploaded_row now j u), dset j (uploaded_row now j u) d)"
      using created(2) view [of j] view_None [of s j] by (simp add: jobs_create_def uploaded_row_def Let_def)
    moreover have "job_view s' i = dget (dset j (uploaded_row now j u) d) i" for i
      using created(2,3) view [of i] view_None [of s j]
      by (auto simp: job_view_def find_append uploaded_row_def split: option.split)
    moreover have "jobs_db_inv s'"
      using created inv by (simp add: jobs_db_inv_def row_ok_def uploaded_row_def)
    ultimately show ?thesis using created(1,5) up by (auto simp: jobs_agree_def)
  next
    case (duplicate s')
    have "\<exists>e. jobs_create now j u d = (Inl e, d)"
      using duplicate(2) view [of j] view_None [of s j] by (auto simp: jobs_create_def)
    then show ?thesis
      using duplicate inv up view by (auto simp: jobs_agree_def jobs_db_inv_def job_view_def)
  qed (simp add: up)
qed

lemma pg_mark_refines:
  assumes "statuses_agree s (as_jobs st)" "as_pg_up st"
  shows "\<exists>s'. pg_mark_job_complete now j s = (Inr (fst (mark_job_complete j st)), s') \<and>
    statuses_agree s' (as_jobs (snd (mark_job_complete j st)))"
proof -
  from assms have inv: "jobs_db_inv s" and up: "jd_faults s = []"
    and view: "map_option jb_status (job_view s i) = dget (as_jobs st) i" for i
    by (simp_all add: statuses_agree_def)
  from inv show ?thesis
  proof (cases rule: pg_mark_job_complete_cases [of s now j])
    case (marked s')
    have there: "j \<in> set (map jb_job_id (job_rows s)) \<longleftrightarrow> dget (as_jobs st) j \<noteq> None"
      using view_None [of s j] by (simp add: view [symmetric])
    have "job_view s' i = map_option (\<lambda>r. if i = j then complete_row now r else r) (job_view s i)" for i
      using marked(2) by (simp add: job_view_def find_mark_rows)
    then have "map_option jb_status (job_view s' i) =
        (if i = j \<and> dget (as_jobs st) j \<noteq> None then Some ''COMPLETE'' else dget (as_jobs st) i)" for i
      using view [of i, symmetric] view [of j, symmetric] by (cases "job_view s i") (auto simp: complete_row_def)
    moreover have "jobs_db_inv s'"
      using jobs_step_rows [OF inv, of "MarkComplete now j"] marked(1) by simp
    ultimately show ?thesis
      using marked(1,4) up assms(2) there
      by (auto simp: mark_job_complete_def statuses_agree_def simp del: set_map)
  qed (simp add: up)
qed

text \<open>
  C32. While the database answers, the Postgres repository refines the in-memory one - a second job
  under the same id is refused by both, by the one as \<open>UniqueViolation\<close> - and on the same table the
  status update refines the one the aggregator performs, with the same answer.
\<close>

theorem jobs_table_refines:
  assumes "jobs_agree s d" "statuses_agree s (as_jobs st)" "as_pg_up st"
  shows "(\<exists>s'. pg_jobs_get j s = (Inr (jobs_get j d), s') \<and> jobs_agree s' d) \<and>
    (\<exists>r s'. pg_jobs_create now j u s = (r, s') \<and> jobs_agree s' (snd (jobs_create now j u d)) \<and>
       (case fst (jobs_create now j u d) of Inr row \<Rightarrow> r = Inr row | Inl e \<Rightarrow> r = Inl UniqueViolation)) \<and>
    (\<exists>s'. pg_mark_job_complete now j s = (Inr (fst (mark_job_complete j st)), s') \<and>
       statuses_agree s' (as_jobs (snd (mark_job_complete j st))))"
  using pg_jobs_get_refines [OF assms(1)] pg_jobs_create_refines [OF assms(1)] pg_mark_refines [OF assms(2,3)]
  by blast

text \<open>While it does not, creating a job raises and marking one only answers \<open>False\<close>.\<close>

lemma jobs_table_down:
  assumes "jobs_db_inv s" "jd_faults s = True # fs"
  shows "fst (pg_jobs_create now j u s) = Inl OperationalError \<and> job_rows (snd (pg_jobs_create now j u s)) = job_rows s \<and>
    fst (pg_mark_job_complete now j s) = Inr False \<and> job_rows (snd (pg_mark_job_complete now j s)) = job_rows s \<and>
    fst (pg_list_jobs stamp s) = Inr []"
  using assms
  by (auto simp: pg_jobs_create_def ensure_schema_def pg_connect_def pg_mark_job_complete_def pg_list_jobs_def
      eff_defs pg_jobs_lister_def job_rows_def with_table_def Let_def)

section \<open>Witnesses\<close>

definition sample_jobs_db :: jobs_db where
  "sample_jobs_db = \<lparr>jd_table = Some [uploaded_row ''t'' ''j'' ''u''], jd_ready = True, jd_faults = []\<rparr>"

lemma sample_jobs_db_inv: "jobs_db_inv sample_jobs_db"
  by (simp add: jobs_db_inv_def sample_jobs_db_def job_rows_def row_ok_def uploaded_row_def)

theorem jobs_table_refines_witness:
  "\<exists>s'. pg_mark_job_complete ''now'' ''j'' sample_jobs_db = (Inr True, s') \<and>
     pg_jobs_create ''now'' ''j'' ''v'' sample_jobs_db = (Inl UniqueViolation, sample_jobs_db)"
proof -
  let ?st = "sample_report_state\<lparr>as_jobs := [(''j'', ''UPLOADED'')], as_pg_up := True\<rparr>"
  have "jobs_agree sample_jobs_db [(''j'', uploaded_row ''t'' ''j'' ''u'')]"
    "statuses_agree sample_jobs_db (as_jobs ?st)" "as_pg_up ?st"
    using sample_jobs_db_inv
    by (simp_all add: jobs_agree_def statuses_agree_def sample_jobs_db_def job_view_def job_rows_def uploaded_row_def
        STATUS_UPLOADED_def)
  from jobs_table_refines [OF this, where j = "''j''" and now = "''now''" and u = "''v''"]
  have "\<exists>s'. pg_mark_job_complete ''now'' ''j'' sample_jobs_db = (Inr (fst (mark_job_complete ''j'' ?st)), s')"
    "\<exists>s'. pg_jobs_create ''now'' ''j'' ''v'' sample_jobs_db = (Inl UniqueViolation, s')"
    by (auto simp: jobs_create_def)
  moreover have "fst (mark_job_complete ''j'' ?st) = True" by (simp add: mark_job_complete_def)
  moreover have "snd (pg_jobs_create ''now'' ''j'' ''v'' sample_jobs_db) = sample_jobs_db"
    by (simp add: pg_jobs_create_def ensure_schema_def sample_jobs_db_def eff_defs Let_def pg_connect_def
        with_table_def uploaded_row_def)
  ultimately show ?thesis by auto
qed

theorem jobs_table_life_cycle_witness:
  "\<exists>r'. job_view (foldl jobs_step (jobs_db_start [False, False, True])
       ([CreateJob ''t'' ''j'' ''u''] @ [MarkComplete ''n'' ''j'', MarkComplete ''n'' ''j''])) ''j'' = Some r' \<and>
     jb_uploaded_by r' = ''u''"
proof -
  have "job_view (foldl jobs_step (jobs_db_start [False, False, True]) [CreateJob ''t'' ''j'' ''u'']) ''j'' =
      Some (uploaded_row ''t'' ''j'' ''u'')"
    by (simp add: jobs_db_start_def pg_jobs_create_def ensure_schema_def eff_defs Let_def pg_connect_def
        with_table_def uploaded_row_def job_view_def job_rows_def)
  from jobs_table_life_cycle [OF refl refl this, of "[MarkComplete ''n'' ''j'', MarkComplete ''n'' ''j'']"]
  show ?thesis by (auto simp: uploaded_row_def)
qed

end
