(* ===== verification/ObjectStores.thy ===== *)
theory ObjectStores
  imports Aggregator Ingestion
begin

text \<open>
  The MinIO stores of the pipeline: raw and extracted blobs (\<open>services/ingestion/blobstore.py\<close>,
  \<open>MinioBlobStore\<close>) and JSON artifacts (\<open>services/cve_matching/artifacts.py\<close>, \<open>MinioArtifactStore\<close>).
  The object server is a parameter, \<open>objects_ok\<close> states what S3 documents of its requests, any of
  which may fail. The lemmas show where the stores refine the in-memory ones, where the blob store
  does not, and what a failed read does to the listing the aggregator merges.
\<close>

section \<open>The requests\<close>

record 's objects =
  ob_get :: "string \<Rightarrow> ('s, bytes) eff"
  ob_get_range :: "string \<Rightarrow> nat \<Rightarrow> nat \<Rightarrow> ('s, bytes) eff"
  ob_head :: "string \<Rightarrow> ('s, nat) eff"
  ob_put :: "string \<Rightarrow> bytes \<Rightarrow> ('s, unit) eff"
  ob_list :: "string \<Rightarrow> ('s, string list) eff"
  ob_bucket_exists :: "('s, bool) eff"
  ob_make_bucket :: "('s, unit) eff"

section \<open>blobstore.py: MinioBlobStore\<close>

text \<open>\<open>Range: bytes=0-(n-1)\<close>.\<close>

definition minio_read_header :: "'s objects \<Rightarrow> string \<Rightarrow> nat \<Rightarrow> ('s, bytes) eff" where
  "minio_read_header C key n = ob_get_range C key 0 (n - 1)"

definition minio_iter_chunks :: "'s objects \<Rightarrow> string \<Rightarrow> nat \<Rightarrow> ('s, bytes list) eff" where
  "minio_iter_chunks C key chunk_size = ebind (ob_get C key) (\<lambda>body. ret (chunk_bytes chunk_size body))"

definition minio_get_size :: "'s objects \<Rightarrow> string \<Rightarrow> ('s, nat) eff" where
  "minio_get_size C key = ob_head C key"

definition minio_download :: "'s objects \<Rightarrow> string \<Rightarrow> ('s, bytes) eff" where
  "minio_download C key = ob_get C key"

definition minio_put_bytes :: "'s objects \<Rightarrow> string \<Rightarrow> bytes \<Rightarrow> ('s, unit) eff" where
  "minio_put_bytes C key data = ob_put C key data"

definition minio_exists :: "'s objects \<Rightarrow> string \<Rightarrow> ('s, bool) eff" where
  "minio_exists C key = catch (ebind (ob_head C key) (\<lambda>_. ret True)) (\<lambda>e. ret False)"

section \<open>artifacts.py: MinioArtifactStore\<close>

text \<open>
  The store keeps the client it made: its state is that flag beside the server's. The client is
  stored before the bucket is looked up, so a look-up that fails is never repeated.
\<close>

definition on_server :: "('s, 'a) eff \<Rightarrow> (bool \<times> 's, 'a) eff" where
  "on_server m = (\<lambda>(made, s). case m s of (r, s') \<Rightarrow> (r, (made, s')))"

definition get_client :: "'s objects \<Rightarrow> (bool \<times> 's, unit) eff" where
  "get_client C = (\<lambda>(made, s).
     if made then (Inr (), (made, s))
     else on_server (ebind (ob_bucket_exists C) (\<lambda>found. if found then ret () else ob_make_bucket C)) (True, s))"

definition minio_put_json :: "'s objects \<Rightarrow> env \<Rightarrow> string \<Rightarrow> payload \<Rightarrow> (bool \<times> 's, unit) eff" where
  "minio_put_json C E key obj = ebind (get_client C) (\<lambda>_. on_server (ob_put C key (e_dumps E (JObj obj))))"

text \<open>Every exception of the read or of the parser yields \<open>None\<close>; so does a JSON \<open>null\<close>.\<close>

definition minio_get_json :: "'s objects \<Rightarrow> env \<Rightarrow> string \<Rightarrow> (bool \<times> 's, json option) eff" where
  "minio_get_json C E key = ebind (get_client C) (\<lambda>_. on_server (
     catch (ebind (ob_get C key) (\<lambda>raw. ebind (lift_result (e_loads E raw)) (\<lambda>j.
              ret (if j = JNull then None else Some j))))
       (\<lambda>e. ret None)))"

fun minio_collect :: "'s objects \<Rightarrow> env \<Rightarrow> string list \<Rightarrow> (bool \<times> 's, (string \<times> json) list) eff" where
  "minio_collect C E [] = ret []"
| "minio_collect C E (k # ks) =
     ebind (minio_get_json C E k) (\<lambda>got.
     ebind (minio_collect C E ks) (\<lambda>rest.
     ret (case got of None \<Rightarrow> rest | Some j \<Rightarrow> (k, j) # rest)))"

text \<open>The listing is taken before the objects are read; reads do not change it.\<close>

definition minio_list_json :: "'s objects \<Rightarrow> env \<Rightarrow> string \<Rightarrow> (bool \<times> 's, (string \<times> json) list) eff" where
  "minio_list_json C E pre =
     ebind (get_client C) (\<lambda>_. ebind (on_server (ob_list C pre)) (minio_collect C E))"

section \<open>What the server does\<close>

text \<open>
  \<open>view\<close> is the content of the bucket. A request that reads changes nothing, and a value it
  returns is the documented one: a range is only satisfiable when it starts inside the object, a
  listing is in order of the keys and complete. A request may fail instead; a failed write may or
  may not have been carried out.
\<close>

definition reads :: "('s \<Rightarrow> 'v) \<Rightarrow> ('v \<Rightarrow> 'a \<Rightarrow> bool) \<Rightarrow> ('s, 'a) eff \<Rightarrow> bool" where
  "reads view P m \<longleftrightarrow> (\<forall>s. view (snd (m s)) = view s \<and> (\<forall>x. fst (m s) = Inr x \<longrightarrow> P (view s) x))"

definition objects_ok :: "'s objects \<Rightarrow> ('s \<Rightarrow> string \<Rightarrow> bytes option) \<Rightarrow> bool" where
  "objects_ok C view \<longleftrightarrow>
     (\<forall>k. reads view (\<lambda>v x. v k = Some x) (ob_get C k)) \<and>
     (\<forall>k a b. reads view (\<lambda>v x. \<exists>d. v k = Some d \<and> a < length d \<and> x = take (b + 1 - a) (drop a d)) (ob_get_range C k a b)) \<and>
     (\<forall>k. reads view (\<lambda>v n. \<exists>d. v k = Some d \<and> n = length d) (ob_head C k)) \<and>
     (\<forall>pre. reads view (\<lambda>v ks. sorted ks \<and> distinct ks \<and> set ks = {k. starts_with pre k \<and> v k \<noteq> None}) (ob_list C pre)) \<and>
     reads view (\<lambda>v b. True) (ob_bucket_exists C) \<and> reads view (\<lambda>v u. True) (ob_make_bucket C) \<and>
     (\<forall>k d s. view (snd (ob_put C k d s)) = (view s)(k \<mapsto> d) \<or>
        (\<exists>e. fst (ob_put C k d s) = Inl e) \<and> view (snd (ob_put C k d s)) = view s)"

text \<open>A server that answers every request that can be answered.\<close>

definition objects_up :: "'s objects \<Rightarrow> ('s \<Rightarrow> string \<Rightarrow> bytes option) \<Rightarrow> bool" where
  "objects_up C view \<longleftrightarrow>
     (\<forall>s k. view s k \<noteq> None \<longrightarrow> (\<exists>x. fst (ob_get C k s) = Inr x)) \<and>
     (\<forall>s k. view s k \<noteq> None \<longrightarrow> (\<exists>n. fst (ob_head C k s) = Inr n)) \<and>
     (\<forall>s k a b. (\<exists>d. view s k = Some d \<and> a < length d) \<longrightarrow> (\<exists>x. fst (ob_get_range C k a b s) = Inr x)) \<and>
     (\<forall>s pre. \<exists>ks. fst (ob_list C pre s) = Inr ks) \<and>
     (\<forall>s. \<exists>b. fst (ob_bucket_exists C s) = Inr b) \<and> (\<forall>s. \<exists>u. fst (ob_make_bucket C s) = Inr u) \<and>
     (\<forall>s k d. \<exists>u. fst (ob_put C k d s) = Inr u)"

lemma reads_view: "reads view P m \<Longrightarrow> view (snd (m s)) = view s"
  by (simp add: reads_def)

lemma reads_value: "reads view P m \<Longrightarrow> fst (m s) = Inr x \<Longrightarrow> P (view s) x"
  by (simp add: reads_def)

lemma objects_laws:
  assumes "objects_ok C view"
  shows get_law: "reads view (\<lambda>v x. v k = Some x) (ob_get C k)"
    and range_law: "reads view (\<lambda>v x. \<exists>d. v k = Some d \<and> a < length d \<and> x = take (b + 1 - a) (drop a d)) (ob_get_range C k a b)"
    and head_law: "reads view (\<lambda>v n. \<exists>d. v k = Some d \<and> n = length d) (ob_head C k)"
    and list_law: "reads view (\<lambda>v ks. sorted ks \<and> distinct ks \<and> set ks = {k. starts_with pre k \<and> v k \<noteq> None}) (ob_list C pre)"
    and bucket_law: "reads view (\<lambda>v b. True) (ob_bucket_exists C)" "reads view (\<lambda>v u. True) (ob_make_bucket C)"
    and put_law: "view (snd (ob_put C k d s)) = (view s)(k \<mapsto> d) \<or>
        (\<exists>e. fst (ob_put C k d s) = Inl e) \<and> view (snd (ob_put C k d s)) = view s"
  using assms unfolding objects_ok_def by simp_all

lemma objects_up_laws:
  assumes "objects_up C view"
  shows get_up: "view s k \<noteq> None \<Longrightarrow> \<exists>x. fst (ob_get C k s) = Inr x"
    and head_up: "view s k \<noteq> None \<Longrightarrow> \<exists>n. fst (ob_head C k s) = Inr n"
    and range_up: "view s k = Some d' \<Longrightarrow> a < length d' \<Longrightarrow> \<exists>x. fst (ob_get_range C k a b s) = Inr x"
    and list_up: "\<exists>ks. fst (ob_list C pre s) = Inr ks"
    and bucket_up: "\<exists>f. fst (ob_bucket_exists C s) = Inr f" "\<exists>u. fst (ob_make_bucket C s) = Inr u"
    and put_up: "\<exists>u. fst (ob_put C k d s) = Inr u"
proof -
  note laws = assms [unfolded objects_up_def]
  show "view s k \<noteq> None \<Longrightarrow> \<exists>x. fst (ob_get C k s) = Inr x" using conjunct1 [OF laws] by simp
  note laws = conjunct2 [OF laws]
  show "view s k \<noteq> None \<Longrightarrow> \<exists>n. fst (ob_head C k s) = Inr n" using conjunct1 [OF laws] by simp
  note laws = conjunct2 [OF laws]
  show "view s k = Some d' \<Longrightarrow> a < length d' \<Longrightarrow> \<exists>x. fst (ob_get_range C k a b s) = Inr x"
    using conjunct1 [OF laws] by simp
  note laws = conjunct2 [OF laws]
  show "\<exists>ks. fst (ob_list C pre s) = Inr ks" "\<exists>f. fst (ob_bucket_exists C s) = Inr f"
    "\<exists>u. fst (ob_make_bucket C s) = Inr u" "\<exists>u. fst (ob_put C k d s) = Inr u"
    using laws by simp_all
qed

lemma get_answer:
  assumes "objects_ok C view" "objects_up C view"
  shows "fst (ob_get C k s) = Inr d \<longleftrightarrow> view s k = Some d"
proof
  assume "fst (ob_get C k s) = Inr d"
  then show "view s k = Some d" by (rule reads_value [OF get_law [OF assms(1)]])
next
  assume v: "view s k = Some d"
  then obtain x where x: "fst (ob_get C k s) = Inr x" using get_up [OF assms(2), of s k] by auto
  then have "view s k = Some x" by (rule reads_value [OF get_law [OF assms(1)]])
  with v x show "fst (ob_get C k s) = Inr d" by simp
qed

lemma head_answer:
  assumes "objects_ok C view" "objects_up C view"
  shows "fst (ob_head C k s) = Inr n \<longleftrightarrow> (\<exists>d. view s k = Some d \<and> n = length d)"
proof
  assume "fst (ob_head C k s) = Inr n"
  then show "\<exists>d. view s k = Some d \<and> n = length d" by (rule reads_value [OF head_law [OF assms(1)]])
next
  assume v: "\<exists>d. view s k = Some d \<and> n = length d"
  then obtain x where x: "fst (ob_head C k s) = Inr x" using head_up [OF assms(2), of s k] by auto
  then have "\<exists>d. view s k = Some d \<and> x = length d" by (rule reads_value [OF head_law [OF assms(1)]])
  with v x show "fst (ob_head C k s) = Inr n" by auto
qed

lemma range_answer:
  assumes "objects_ok C view" "objects_up C view"
  shows "fst (ob_get_range C k a b s) = Inr x \<longleftrightarrow>
    (\<exists>d. view s k = Some d \<and> a < length d \<and> x = take (b + 1 - a) (drop a d))"
proof
  assume "fst (ob_get_range C k a b s) = Inr x"
  then show "\<exists>d. view s k = Some d \<and> a < length d \<and> x = take (b + 1 - a) (drop a d)"
    by (rule reads_value [OF range_law [OF assms(1)]])
next
  assume v: "\<exists>d. view s k = Some d \<and> a < length d \<and> x = take (b + 1 - a) (drop a d)"
  then obtain y where y: "fst (ob_get_range C k a b s) = Inr y" using range_up [OF assms(2)] by blast
  then have "\<exists>d. view s k = Some d \<and> a < length d \<and> y = take (b + 1 - a) (drop a d)"
    by (rule reads_value [OF range_law [OF assms(1)]])
  with v y show "fst (ob_get_range C k a b s) = Inr x" by auto
qed

section \<open>Blobs\<close>

text \<open>
  C34. While the server answers, the MinIO blob store gives what the in-memory store gives - header,
  chunks, size, existence and the effect of a write - with one exception: the header of an empty
  object cannot be asked for by a range, so that reading it raises where the in-memory
  store returns no bytes.
\<close>

theorem minio_blobs_refine:
  assumes "objects_ok C view" "objects_up C view" "view s = dget blobs" "0 < n"
  shows "(if dget blobs k = Some [] then \<exists>e. fst (minio_read_header C k n s) = Inl e
      else (\<forall>x. fst (minio_read_header C k n s) = Inr x \<longleftrightarrow> read_header k n blobs = Inr x)) \<and>
    (\<forall>x. fst (minio_iter_chunks C k n s) = Inr x \<longleftrightarrow> iter_chunks k n blobs = Inr x) \<and>
    (\<forall>x. fst (minio_get_size C k s) = Inr x \<longleftrightarrow> get_size k blobs = Inr x) \<and>
    fst (minio_exists C k s) = Inr (blob_exists k blobs) \<and>
    (\<exists>s'. minio_put_bytes C k data s = (Inr (), s') \<and> view s' = dget (put_bytes k data blobs))"
proof -
  note answers = get_answer [OF assms(1,2)] head_answer [OF assms(1,2)] range_answer [OF assms(1,2)]
  have sn: "n - 1 + 1 - 0 = n" using assms(4) by simp
  have hdr: "fst (minio_read_header C k n s) = Inr x \<longleftrightarrow> (\<exists>d. dget blobs k = Some d \<and> d \<noteq> [] \<and> x = take n d)" for x
    unfolding minio_read_header_def answers assms(3) sn by simp
  have h1: "\<exists>e. fst (minio_read_header C k n s) = Inl e" if "dget blobs k = Some []"
    using hdr that by (cases "fst (minio_read_header C k n s)") auto
  have h2: "fst (minio_read_header C k n s) = Inr x \<longleftrightarrow> read_header k n blobs = Inr x" if "dget blobs k \<noteq> Some []" for x
    unfolding hdr using that by (auto simp: read_header_def get_blob_def split: option.splits)
  have "fst (minio_iter_chunks C k n s) = Inr x \<longleftrightarrow> (\<exists>d. fst (ob_get C k s) = Inr d \<and> chunk_bytes n d = x)" for x
    by (cases "ob_get C k s"; cases "fst (ob_get C k s)") (simp_all add: minio_iter_chunks_def eff_simps)
  then have it: "fst (minio_iter_chunks C k n s) = Inr x \<longleftrightarrow> iter_chunks k n blobs = Inr x" for x
    unfolding answers assms(3) by (auto simp: iter_chunks_def get_blob_def split: option.splits)
  have sz: "fst (minio_get_size C k s) = Inr x \<longleftrightarrow> get_size k blobs = Inr x" for x
    unfolding minio_get_size_def answers assms(3) by (auto simp: get_size_def get_blob_def split: option.splits)
  have "fst (minio_exists C k s) = Inr (\<exists>m. fst (ob_head C k s) = Inr m)"
    by (cases "ob_head C k s"; cases "fst (ob_head C k s)") (simp_all add: minio_exists_def eff_simps)
  then have ex: "fst (minio_exists C k s) = Inr (blob_exists k blobs)"
    unfolding answers assms(3) using dget_None_iff [of blobs k] by (auto simp: blob_exists_def)
  have "\<exists>s'. minio_put_bytes C k data s = (Inr (), s') \<and> view s' = dget (put_bytes k data blobs)"
    using put_up [OF assms(2), of k data s] put_law [OF assms(1), of k data s] assms(3)
    by (cases "ob_put C k data s") (auto simp: minio_put_bytes_def put_bytes_def)
  with h1 h2 it sz ex show ?thesis by simp
qed

section \<open>Artifacts\<close>

text \<open>The bucket holds exactly the artifacts, encoded; the codec reads back what it wrote.\<close>

definition artifact_view :: "env \<Rightarrow> artifacts \<Rightarrow> string \<Rightarrow> bytes option" where
  "artifact_view E arts = (\<lambda>k. map_option (\<lambda>doc. e_dumps E (JObj doc)) (dget arts k))"

definition artifacts_codec :: "env \<Rightarrow> artifacts \<Rightarrow> bool" where
  "artifacts_codec E arts \<longleftrightarrow> (\<forall>doc \<in> ran (dget arts). e_loads E (e_dumps E (JObj doc)) = Inr (JObj doc))"

definition entries :: "artifacts \<Rightarrow> string list \<Rightarrow> (string \<times> json) list" where
  "entries arts ks = List.map (\<lambda>k. (k, JObj (the (dget arts k)))) ks"

lemma get_client_made [simp]: "get_client C (True, s) = (Inr (), (True, s))"
  by (simp add: get_client_def)

lemma get_client_fails_once: "fst (snd (get_client C ms)) = True"
  by (cases ms) (auto simp: get_client_def on_server_def split: prod.splits)

lemma on_server_simps [simp]:
  "fst (on_server m (made, s)) = fst (m s)"
  "snd (on_server m (made, s)) = (made, snd (m s))"
  by (simp_all add: on_server_def split: prod.splits)

lemma get_client_view:
  assumes "objects_ok C view"
  shows "view (snd (snd (get_client C ms))) = view (snd ms)"
proof -
  obtain made s where ms: "ms = (made, s)" by (cases ms)
  let ?m = "ebind (ob_bucket_exists C) (\<lambda>found. if found then ret () else ob_make_bucket C)"
  have "view (snd (?m s)) = view s"
    using reads_view [OF bucket_law(1) [OF assms], of s] reads_view [OF bucket_law(2) [OF assms]]
    by (cases "ob_bucket_exists C s"; cases "fst (ob_bucket_exists C s)") (auto simp: eff_simps)
  then show ?thesis unfolding ms by (cases made) (simp_all add: get_client_def)
qed

lemma get_client_up:
  assumes "objects_up C view"
  shows "\<exists>s'. get_client C ms = (Inr (), (True, s'))"
proof -
  obtain made s where ms: "ms = (made, s)" by (cases ms)
  let ?m = "ebind (ob_bucket_exists C) (\<lambda>found. if found then ret () else ob_make_bucket C)"
  obtain f s1 where f: "ob_bucket_exists C s = (Inr f, s1)"
    using bucket_up(1) [OF assms, of s] by (cases "ob_bucket_exists C s") auto
  obtain u s2 where u: "ob_make_bucket C s1 = (Inr u, s2)"
    using bucket_up(2) [OF assms, of s1] by (cases "ob_make_bucket C s1") auto
  have "\<exists>s'. ?m s = (Inr (), s')" using f u by (simp add: eff_simps)
  then show ?thesis unfolding ms by (cases made) (auto simp: get_client_def on_server_def)
qed

text \<open>With a client, a read never raises: it gives the artifact or nothing.\<close>

lemma minio_get_json_made:
  assumes "objects_ok C view" "view s = artifact_view E arts" "artifacts_codec E arts"
  shows "\<exists>got s'. minio_get_json C E k (True, s) = (Inr got, (True, s')) \<and> view s' = view s \<and>
     (got = None \<or> (\<exists>doc. dget arts k = Some doc \<and> got = Some (JObj doc))) \<and>
     (objects_up C view \<longrightarrow> got = map_option JObj (dget arts k))"
proof -
  have v: "view (snd (ob_get C k s)) = view s" by (rule reads_view [OF get_law [OF assms(1)]])
  show ?thesis
  proof (cases "fst (ob_get C k s)")
    case (Inl e)
    then have "minio_get_json C E k (True, s) = (Inr None, (True, snd (ob_get C k s)))"
      by (cases "ob_get C k s") (simp add: minio_get_json_def on_server_def eff_simps)
    moreover have "dget arts k = None" if "objects_up C view"
      using get_answer [OF assms(1) that, of k s] Inl assms(2) by (cases "dget arts k") (auto simp: artifact_view_def)
    ultimately show ?thesis using v by auto
  next
    case (Inr raw)
    then have "view s k = Some raw" by (rule reads_value [OF get_law [OF assms(1)]])
    then obtain doc where doc: "dget arts k = Some doc" "raw = e_dumps E (JObj doc)"
      using assms(2) by (auto simp: artifact_view_def)
    then have "e_loads E raw = Inr (JObj doc)" using assms(3) by (auto simp: artifacts_codec_def ran_def)
    with Inr have "minio_get_json C E k (True, s) = (Inr (Some (JObj doc)), (True, snd (ob_get C k s)))"
      by (cases "ob_get C k s") (simp add: minio_get_json_def on_server_def eff_simps)
    with v doc show ?thesis by auto
  qed
qed

lemma minio_collect_subseq:
  assumes "objects_ok C view" "view s = artifact_view E arts" "artifacts_codec E arts"
  shows "\<exists>xs s'. minio_collect C E ks (True, s) = (Inr xs, (True, s')) \<and> view s' = view s \<and>
     subseq xs (entries arts ks) \<and>
     (objects_up C view \<and> (\<forall>k \<in> set ks. dget arts k \<noteq> None) \<longrightarrow> xs = entries arts ks)"
  using assms(2)
proof (induction ks arbitrary: s)
  case Nil
  then show ?case by (simp add: ret_def entries_def)
next
  case (Cons k ks)
  obtain got s1 where g: "minio_get_json C E k (True, s) = (Inr got, (True, s1))" "view s1 = view s"
      "got = None \<or> (\<exists>doc. dget arts k = Some doc \<and> got = Some (JObj doc))"
      "objects_up C view \<longrightarrow> got = map_option JObj (dget arts k)"
    using minio_get_json_made [OF assms(1) Cons.prems assms(3), of k] by blast
  obtain xs s2 where x: "minio_collect C E ks (True, s1) = (Inr xs, (True, s2))" "view s2 = view s1"
      "subseq xs (entries arts ks)"
      "objects_up C view \<and> (\<forall>k \<in> set ks. dget arts k \<noteq> None) \<longrightarrow> xs = entries arts ks"
    using Cons.IH [of s1] g(2) Cons.prems by auto
  let ?ys = "case got of None \<Rightarrow> xs | Some j \<Rightarrow> (k, j) # xs"
  have "minio_collect C E (k # ks) (True, s) = (Inr ?ys, (True, s2))"
    using g(1) x(1) by (simp add: ebind_def ret_def)
  moreover have "subseq ?ys (entries arts (k # ks))"
    using g(3) x(3) by (auto simp: entries_def)
  moreover have "?ys = entries arts (k # ks)" if "objects_up C view \<and> (\<forall>i \<in> set (k # ks). dget arts i \<noteq> None)"
    using g(4) x(4) that by (auto simp: entries_def)
  ultimately show ?case using x(2) g(2) by auto
qed

lemma list_json_entries:
  assumes "distinct (dkeys arts)" "sorted ks" "distinct ks"
    "set ks = {k. starts_with pre k \<and> dget arts k \<noteq> None}"
  shows "List.map (\<lambda>(k, doc). (k, JObj doc)) (list_json pre arts) = entries arts ks"
proof -
  let ?l = "list_json pre arts"
  have key: "dget ?l k = (if starts_with pre k then dget arts k else None)" for k
    using mem_artifacts.listing_get [of pre arts k] by (simp add: get_json_def)
  have "distinct (map fst (sort_key fst arts))" using assms(1) by (simp add: distinct_map)
  then have d: "distinct (dkeys ?l)" unfolding list_json_def by (simp add: distinct_map_filter)
  have "k \<in> set (dkeys ?l) \<longleftrightarrow> k \<in> set ks" for k
    unfolding assms(4) using key [of k] dget_None_iff [of ?l k] by (auto simp del: not_None_eq split: if_splits)
  then have "set (dkeys ?l) = set ks" by blast
  then have "dkeys ?l = ks"
    using d assms(2,3) mem_artifacts.listing_sorted [of pre arts] by (intro sorted_distinct_set_unique)
  moreover have "doc = the (dget arts k)" if "(k, doc) \<in> set ?l" for k doc
    using map_of_is_SomeI [OF d that] key [of k] by (auto split: if_splits)
  then have "List.map (\<lambda>(k, doc). (k, JObj doc)) ?l = entries arts (dkeys ?l)"
    by (auto simp: entries_def)
  ultimately show ?thesis by simp
qed

lemma get_client_outcome:
  assumes "objects_ok C view"
  obtains r s1 where "get_client C ms = (r, (True, s1))" "view s1 = view (snd ms)"
    "objects_up C view \<Longrightarrow> \<exists>u. r = Inr u"
proof -
  obtain r s1 where g: "get_client C ms = (r, (True, s1))"
    using get_client_fails_once [of C ms] by (cases "get_client C ms") auto
  show thesis
    using that [OF g] get_client_view [OF assms, of ms] get_client_up [of C view ms] g by auto
qed

lemma minio_list_json_outcome:
  assumes "objects_ok C view" "view (snd ms) = artifact_view E arts" "artifacts_codec E arts" "distinct (dkeys arts)"
  shows "case minio_list_json C E pre ms of
      (Inr xs, ms') \<Rightarrow> view (snd ms') = view (snd ms) \<and>
         subseq xs (List.map (\<lambda>(k, doc). (k, JObj doc)) (list_json pre arts)) \<and>
         (objects_up C view \<longrightarrow> xs = List.map (\<lambda>(k, doc). (k, JObj doc)) (list_json pre arts))
    | (Inl e, ms') \<Rightarrow> \<not> objects_up C view \<and> view (snd ms') = view (snd ms)"
proof -
  obtain r s1 where g: "get_client C ms = (r, (True, s1))" and v1: "view s1 = view (snd ms)"
    and up: "objects_up C view \<Longrightarrow> \<exists>u. r = Inr u"
    using get_client_outcome [OF assms(1)] by blast
  show ?thesis
  proof (cases r)
    case (Inl e)
    then show ?thesis using g v1 up by (auto simp: minio_list_json_def ebind_def)
  next
    case (Inr u)
    obtain r2 s2 where l: "ob_list C pre s1 = (r2, s2)" by (cases "ob_list C pre s1")
    have v2: "view s2 = view (snd ms)" using reads_view [OF list_law [OF assms(1)], of pre s1] l v1 by simp
    show ?thesis
    proof (cases r2)
      case (Inl e)
      then show ?thesis using g Inr l v2 list_up [of C view pre s1]
        by (auto simp: minio_list_json_def ebind_def on_server_def)
    next
      case (Inr ks)
      have ks: "sorted ks \<and> distinct ks \<and> set ks = {k. starts_with pre k \<and> view s1 k \<noteq> None}"
        by (rule reads_value [OF list_law [OF assms(1)]]) (simp add: l Inr)
      then have set_ks: "set ks = {k. starts_with pre k \<and> dget arts k \<noteq> None}"
        using v1 assms(2) by (simp add: artifact_view_def)
      have eq: "List.map (\<lambda>(k, doc). (k, JObj doc)) (list_json pre arts) = entries arts ks"
        using list_json_entries [OF assms(4) _ _ set_ks] ks by simp
      obtain xs s3 where x: "minio_collect C E ks (True, s2) = (Inr xs, (True, s3))" "view s3 = view s2"
          "subseq xs (entries arts ks)"
          "objects_up C view \<and> (\<forall>k \<in> set ks. dget arts k \<noteq> None) \<longrightarrow> xs = entries arts ks"
        using minio_collect_subseq [OF assms(1) _ assms(3), of s2 ks] v2 assms(2) by auto
      have "minio_list_json C E pre ms = (Inr xs, (True, s3))"
        using g \<open>r = Inr u\<close> l Inr x(1) by (simp add: minio_list_json_def ebind_def on_server_def)
      then show ?thesis using x v2 eq set_ks by auto
    qed
  qed
qed

lemma minio_put_json_outcome:
  assumes "objects_ok C view" "view (snd ms) = artifact_view E arts"
  shows "case minio_put_json C E key obj ms of
      (Inr u, ms') \<Rightarrow> view (snd ms') = artifact_view E (put_json key obj arts)
    | (Inl e, ms') \<Rightarrow> \<not> objects_up C view \<and>
         view (snd ms') \<in> {view (snd ms), artifact_view E (put_json key obj arts)}"
proof -
  obtain r s1 where g: "get_client C ms = (r, (True, s1))" and v1: "view s1 = view (snd ms)"
    and up: "objects_up C view \<Longrightarrow> \<exists>u. r = Inr u"
    using get_client_outcome [OF assms(1)] by blast
  show ?thesis
  proof (cases r)
    case (Inl e)
    then show ?thesis using g v1 up by (auto simp: minio_put_json_def ebind_def)
  next
    case (Inr u)
    let ?d = "e_dumps E (JObj obj)"
    obtain r2 s2 where p: "ob_put C key ?d s1 = (r2, s2)" by (cases "ob_put C key ?d s1")
    have "artifact_view E (put_json key obj arts) = (view (snd ms))(key \<mapsto> ?d)"
      using assms(2) by (auto simp: artifact_view_def put_json_def)
    then show ?thesis
      using g Inr p v1 put_law [OF assms(1), of key ?d s1] put_up [of C view key ?d s1]
      by (cases r2) (auto simp: minio_put_json_def ebind_def on_server_def)
  qed
qed

lemma failed_read_is_no_artifact:
  "fst ms \<and> (\<exists>e. fst (ob_get C key (snd ms)) = Inl e) \<longrightarrow> fst (minio_get_json C E key ms) = Inr None"
  by (cases ms; cases "ob_get C key (snd ms)") (auto simp: minio_get_json_def on_server_def eff_simps)

text \<open>
  C33. Over a server that behaves as documented the MinIO artifact store never invents an artifact: a
  listing that returns is, in order, some of the entries the in-memory store lists, all of them
  while the server answers; a write that returns is the in-memory write; and one read that fails
  is reported as no artifact, not as an error.
\<close>

theorem minio_artifacts_refine:
  assumes "objects_ok C view" "view (snd ms) = artifact_view E arts" "artifacts_codec E arts" "distinct (dkeys arts)"
  shows "(case minio_list_json C E pre ms of
      (Inr xs, ms') \<Rightarrow> view (snd ms') = view (snd ms) \<and>
         subseq xs (List.map (\<lambda>(k, doc). (k, JObj doc)) (list_json pre arts)) \<and>
         (objects_up C view \<longrightarrow> xs = List.map (\<lambda>(k, doc). (k, JObj doc)) (list_json pre arts))
    | (Inl e, ms') \<Rightarrow> \<not> objects_up C view \<and> view (snd ms') = view (snd ms)) \<and>
    (case minio_put_json C E key obj ms of
      (Inr u, ms') \<Rightarrow> view (snd ms') = artifact_view E (put_json key obj arts)
    | (Inl e, ms') \<Rightarrow> \<not> objects_up C view \<and>
         view (snd ms') \<in> {view (snd ms), artifact_view E (put_json key obj arts)}) \<and>
    (fst ms \<and> (\<exists>e. fst (ob_get C key (snd ms)) = Inl e) \<longrightarrow> fst (minio_get_json C E key ms) = Inr None)"
  using minio_list_json_outcome [OF assms] minio_put_json_outcome [OF assms(1,2)] failed_read_is_no_artifact
  by (intro conjI) assumption+

text \<open>A failed look-up of the bucket is not repeated: the next call takes the client as it is.\<close>

lemma bucket_check_is_not_retried:
  assumes "get_client C (False, s) = (Inl e, ms')"
  shows "get_client C ms' = (Inr (), ms')"
  using get_client_fails_once [of C "(False, s)"] assms by (cases ms') auto

text \<open>While reads fail, the listing is empty, whatever it names, and raises nothing.\<close>

lemma failed_reads_empty_listing:
  assumes "\<And>k s. \<exists>e. fst (ob_get C k s) = Inl e"
  shows "fst (minio_collect C E ks (True, s)) = Inr []"
proof (induction ks arbitrary: s)
  case (Cons k ks)
  have "minio_get_json C E k (True, s) = (Inr None, (True, snd (ob_get C k s)))"
    using assms [of k s] by (cases "ob_get C k s") (auto simp: minio_get_json_def on_server_def eff_simps)
  with Cons.IH [of "snd (ob_get C k s)"] show ?case
    by (cases "minio_collect C E ks (True, snd (ob_get C k s))") (auto simp: ebind_def ret_def)
qed (simp add: ret_def)

section \<open>A server that keeps a dictionary\<close>

definition found :: "'a option \<Rightarrow> exn + 'a" where
  "found x = (case x of None \<Rightarrow> Inl (StorageError ''NoSuchKey'') | Some d \<Rightarrow> Inr d)"

definition dict_server :: "blobs objects" where
  "dict_server =
     \<lparr>ob_get = (\<lambda>k s. (found (dget s k), s)),
      ob_get_range = (\<lambda>k a b s. (case dget s k of
         None \<Rightarrow> Inl (StorageError ''NoSuchKey'')
       | Some d \<Rightarrow> if a < length d then Inr (take (b + 1 - a) (drop a d)) else Inl (StorageError ''InvalidRange''), s)),
      ob_head = (\<lambda>k s. (found (map_option length (dget s k)), s)),
      ob_put = (\<lambda>k d s. (Inr (), dset k d s)),
      ob_list = (\<lambda>pre s. (Inr (sort (remdups (filter (starts_with pre) (dkeys s)))), s)),
      ob_bucket_exists = (\<lambda>s. (Inr True, s)),
      ob_make_bucket = (\<lambda>s. (Inr (), s))\<rparr>"

lemma dict_server_ok: "objects_ok dict_server dget"
proof -
  have "reads dget (\<lambda>v x. v k = Some x) (ob_get dict_server k)" for k
    by (simp add: reads_def dict_server_def found_def split: option.splits)
  moreover have "reads dget (\<lambda>v x. \<exists>d. v k = Some d \<and> a < length d \<and> x = take (b + 1 - a) (drop a d)) (ob_get_range dict_server k a b)"
    for k a b
    by (simp add: reads_def dict_server_def split: option.splits)
  moreover have "reads dget (\<lambda>v n. \<exists>d. v k = Some d \<and> n = length d) (ob_head dict_server k)" for k
    by (simp add: reads_def dict_server_def found_def split: option.splits)
  moreover have "reads dget (\<lambda>v ks. sorted ks \<and> distinct ks \<and> set ks = {k. starts_with pre k \<and> v k \<noteq> None})
      (ob_list dict_server pre)" for pre
    using dom_map_of_conv_image_fst [where 'a = string and 'b = bytes]
    by (auto simp: reads_def dict_server_def simp flip: dom_map_of_conv_image_fst)
  ultimately show ?thesis by (simp add: objects_ok_def) (simp add: reads_def dict_server_def)
qed

lemma dict_server_up: "objects_up dict_server dget"
  unfolding objects_up_def by (intro conjI) (auto simp: dict_server_def found_def)

theorem minio_blobs_refine_witness:
  "(\<exists>e. fst (minio_read_header dict_server ''k'' 4 [(''k'', [])]) = Inl e) \<and>
   fst (minio_read_header dict_server ''l'' 2 [(''k'', []), (''l'', ''abc'')]) = Inr ''ab'' \<and>
   fst (minio_exists dict_server ''k'' [(''k'', [])]) = Inr True"
  using minio_blobs_refine [OF dict_server_ok dict_server_up refl, of 4 "[(''k'', [])]" "''k''" "[]"]
    minio_blobs_refine [OF dict_server_ok dict_server_up refl, of 2 "[(''k'', []), (''l'', ''abc'')]" "''l''" "[]"]
  by (simp add: read_header_def get_blob_def blob_exists_def)

definition sample_artifacts :: artifacts where
  "sample_artifacts = [(''f/b'', [(''x'', JNull)]), (''r'', [(''x'', JNull)])]"

definition sample_codec :: env where
  "sample_codec = sample_env\<lparr>e_loads := (\<lambda>_. Inr (JObj [(''x'', JNull)]))\<rparr>"

theorem minio_artifacts_refine_witness:
  "\<exists>ms'. minio_list_json dict_server sample_codec ''f/'' (False, [(''f/b'', ''v''), (''r'', ''v'')]) =
    (Inr [(''f/b'', JObj [(''x'', JNull)])], ms')"
proof -
  let ?ms = "(False, [(''f/b'', ''v''), (''r'', ''v'')])"
  have view: "dget (snd ?ms) = artifact_view sample_codec sample_artifacts"
    by (auto simp: artifact_view_def sample_artifacts_def sample_codec_def sample_env_def)
  have codec: "artifacts_codec sample_codec sample_artifacts"
    by (auto simp: artifacts_codec_def sample_artifacts_def sample_codec_def ran_def split: if_splits)
  have "list_json ''f/'' sample_artifacts = [(''f/b'', [(''x'', JNull)])]"
    by (simp add: list_json_def sample_artifacts_def sort_key_def starts_with_def)
  then show ?thesis
    using minio_artifacts_refine [OF dict_server_ok view codec, of "''f/''" "''r''" "[]"] dict_server_up
    by (auto simp: sample_artifacts_def split: prod.splits sum.splits)
qed

end
