(* ===== verification/Postgres.thy ===== *)
theory Postgres
  imports NvdEtl CveApi
begin

text \<open>
  The two other tables of Postgres: the CVE corpus with its vectors
  (\<open>services/cve_matching/corpus.py\<close>, \<open>PgVectorCorpus\<close>) and the analyst feedback that recalibration
  reads (\<open>services/integration/feedback_loop.py\<close>, \<open>services/integration/schema.py\<close>). What pgvector
  does with a vector is a parameter. The lemmas show what a request that fails leaves behind:
  which part of a batch is stored, how the connection recovers, and which verdicts recalibration
  counts while the database fades.
\<close>

section \<open>The database\<close>

text \<open>
  A table is \<open>None\<close> until its DDL has run. \<open>pd_faults\<close> says of the coming requests - an attempt to
  connect or a statement - which fail.
\<close>

record pg_db =
  pd_corpus :: "corpus_rows option"
  pd_feedback :: "feedback list option"
  pd_faults :: "bool list"

definition pg_request :: "('x pg_db_scheme, unit) eff" where
  "pg_request s =
     (case pd_faults s of
        [] \<Rightarrow> (Inr (), s)
      | f # fs \<Rightarrow> (if f then Inl OperationalError else Inr (), s\<lparr>pd_faults := fs\<rparr>))"

section \<open>corpus.py: PgVectorCorpus\<close>

text \<open>
  \<open>pc_conn\<close> is \<open>None\<close> without a connection, else its \<open>closed\<close> flag, which a request that fails
  sets.
\<close>

record pg_corpus = pg_db +
  pc_conn :: "bool option"

text \<open>Python's \<open>repr\<close> of a float, the parser of the type \<open>vector\<close> and the search by the index.\<close>

record pg_vectors =
  pv_repr :: "pyfloat \<Rightarrow> string"
  pv_parse :: "string \<Rightarrow> vec result"
  pv_search :: "corpus_rows \<Rightarrow> vec \<Rightarrow> nat \<Rightarrow> (cve_record \<times> pyfloat) list result"

definition corpus_connect :: "(pg_corpus, unit) eff" where
  "corpus_connect s =
     (if pc_conn s = Some False then (Inr (), s)
      else ebind pg_request (\<lambda>_. modify (\<lambda>s. s\<lparr>pc_conn := Some False\<rparr>)) s)"

definition corpus_close :: "(pg_corpus, unit) eff" where
  "corpus_close = modify (\<lambda>s. s\<lparr>pc_conn := None\<rparr>)"

definition corpus_execute :: "(pg_corpus, unit) eff" where
  "corpus_execute =
     catch pg_request (\<lambda>e. ebind (modify (\<lambda>s. s\<lparr>pc_conn := Some True\<rparr>)) (\<lambda>_. raise e))"

definition with_corpus :: "(corpus_rows \<Rightarrow> (pg_corpus, 'a) eff) \<Rightarrow> (pg_corpus, 'a) eff" where
  "with_corpus f s =
     (case pd_corpus s of None \<Rightarrow> (Inl (RuntimeError ''UndefinedTable''), s) | Some rows \<Rightarrow> f rows s)"

definition vec_literal :: "pg_vectors \<Rightarrow> vec \<Rightarrow> string" where
  "vec_literal V embedding = ''['' @ join '','' (map (pv_repr V) embedding) @ '']''"

text \<open>The extension, the table and its two indexes, each in a transaction of its own.\<close>

definition corpus_ensure_schema :: "(pg_corpus, unit) eff" where
  "corpus_ensure_schema =
     ebind corpus_connect (\<lambda>_. ebind corpus_execute (\<lambda>_. ebind corpus_execute (\<lambda>_.
     ebind (modify (\<lambda>s. s\<lparr>pd_corpus := Some (case pd_corpus s of None \<Rightarrow> [] | Some rows \<Rightarrow> rows)\<rparr>)) (\<lambda>_.
     ebind corpus_execute (\<lambda>_. corpus_execute)))))"

text \<open>\<open>INSERT ... ON CONFLICT (cve_id, cpe_string) DO UPDATE\<close>; the column takes 384 dimensions.\<close>

definition insert_record :: "pg_vectors \<Rightarrow> cve_record \<Rightarrow> vec \<Rightarrow> (pg_corpus, unit) eff" where
  "insert_record V r embedding =
     ebind corpus_execute (\<lambda>_. with_corpus (\<lambda>rows.
     ebind (lift_result (pv_parse V (vec_literal V embedding))) (\<lambda>v.
     if length v \<noteq> EMBEDDING_DIM then raise (RuntimeError ''DataException'')
     else modify (\<lambda>s. s\<lparr>pd_corpus := Some (pg_upsert_row (r\<lparr>cr_embedding := Some v\<rparr>) rows)\<rparr>))))"

fun insert_records :: "pg_vectors \<Rightarrow> cve_record list \<Rightarrow> (pg_corpus, unit) eff" where
  "insert_records V [] = ret ()"
| "insert_records V (r # rs) =
     (case cr_embedding r of
        None \<Rightarrow> raise (ValueError ''no embedding'')
      | Some e \<Rightarrow> if e = [] then raise (ValueError ''no embedding'')
                  else ebind (insert_record V r e) (\<lambda>_. insert_records V rs))"

definition pgv_upsert :: "pg_vectors \<Rightarrow> cve_record list \<Rightarrow> (pg_corpus, nat) eff" where
  "pgv_upsert V records =
     (if records = [] then ret 0
      else ebind corpus_connect (\<lambda>_. ebind (insert_records V records) (\<lambda>_. ret (length records))))"

text \<open>
  The statements themselves are those of \<open>NvdEtl\<close>. The reads leave out the embedding; rows come in the
  order of the table.
\<close>

definition bare :: "cve_record \<Rightarrow> cve_record" where
  "bare r = r\<lparr>cr_embedding := None\<rparr>"

definition pgv_exact_cpe_lookup :: "string \<Rightarrow> (pg_corpus, cve_record list) eff" where
  "pgv_exact_cpe_lookup cpe_string =
     ebind corpus_connect (\<lambda>_. ebind corpus_execute (\<lambda>_. with_corpus (\<lambda>rows.
     ret (pg_exact_cpe_lookup rows cpe_string))))"

definition clamp_sim :: "pyfloat \<Rightarrow> pyfloat" where
  "clamp_sim sim = (if sim < 0 then 0 else if 1 < sim then 1 else sim)"

definition pgv_similarity_search ::
  "pg_vectors \<Rightarrow> vec \<Rightarrow> int \<Rightarrow> (pg_corpus, (cve_record \<times> pyfloat) list) eff" where
  "pgv_similarity_search V embedding top_k =
     ebind corpus_connect (\<lambda>_. ebind corpus_execute (\<lambda>_. with_corpus (\<lambda>rows.
     if top_k < 0 then raise (RuntimeError ''DataError'')
     else ebind (lift_result (rbind (pv_parse V (vec_literal V embedding))
                   (\<lambda>q. pv_search V rows q (nat top_k)))) (\<lambda>hits.
          ret (map (\<lambda>(r, sim). (bare r, clamp_sim sim)) hits)))))"

definition pgv_count :: "(pg_corpus, nat) eff" where
  "pgv_count = ebind corpus_connect (\<lambda>_. ebind corpus_execute (\<lambda>_. with_corpus (\<lambda>rows. ret (pg_count rows))))"

text \<open>The repository the matcher is given, in one state of the database.\<close>

definition pg_repo :: "pg_vectors \<Rightarrow> pg_corpus \<Rightarrow> corpus_repo" where
  "pg_repo V s =
     \<lparr>co_exact = (\<lambda>c. fst (pgv_exact_cpe_lookup c s)),
      co_similar = (\<lambda>q k. fst (pgv_similarity_search V q k s))\<rparr>"

section \<open>schema.py and feedback_loop.py\<close>

text \<open>Every exception ends in \<open>False\<close>; the table exists once its statement has run.\<close>

definition ensure_feedback_schema :: "('x pg_db_scheme, bool) eff" where
  "ensure_feedback_schema =
     catch (ebind pg_request (\<lambda>_. ebind pg_request (\<lambda>_.
            ebind (modify (\<lambda>s. s\<lparr>pd_feedback := Some (case pd_feedback s of None \<Rightarrow> [] | Some rows \<Rightarrow> rows)\<rparr>)) (\<lambda>_.
            ebind pg_request (\<lambda>_. ret True)))))
       (\<lambda>e. ret False)"

text \<open>Each call connects anew, and a missing table, like every other exception, gives nothing.\<close>

definition pg_feedback_reader :: "('x pg_db_scheme, feedback list) eff" where
  "pg_feedback_reader =
     catch (ebind pg_request (\<lambda>_. ebind pg_request (\<lambda>_. (\<lambda>s.
              case pd_feedback s of
                None \<Rightarrow> (Inl (RuntimeError ''UndefinedTable''), s)
              | Some rows \<Rightarrow> (Inr rows, s)))))
       (\<lambda>e. ret [])"

definition family_row :: "corpus_rows \<Rightarrow> string \<Rightarrow> string option" where
  "family_row rows cve_id =
     (case filter (\<lambda>r. cr_cve_id r = cve_id \<and> cr_family r \<noteq> None) (map snd rows) of
        [] \<Rightarrow> None
      | r # _ \<Rightarrow> cr_family r)"

definition pg_family_resolver :: "string \<Rightarrow> ('x pg_db_scheme, string option) eff" where
  "pg_family_resolver cve_id =
     catch (ebind pg_request (\<lambda>_. ebind pg_request (\<lambda>_. (\<lambda>s.
              case pd_corpus s of
                None \<Rightarrow> (Inl (RuntimeError ''UndefinedTable''), s)
              | Some rows \<Rightarrow> (Inr (family_row rows cve_id), s)))))
       (\<lambda>e. ret None)"

text \<open>\<open>aggregate_feedback\<close> over this resolver, which is asked for decided verdicts only.\<close>

fun pg_aggregate_feedback ::
  "(string, family_stats) dict \<Rightarrow> feedback list \<Rightarrow> ('x pg_db_scheme, (string, family_stats) dict) eff" where
  "pg_aggregate_feedback stats [] = ret stats"
| "pg_aggregate_feedback stats (row # rows) =
     (if fb_verdict row \<notin> set DECIDED then pg_aggregate_feedback stats rows
      else ebind (pg_family_resolver (fb_cve_id row)) (\<lambda>family.
           pg_aggregate_feedback (tally_verdict (\<lambda>_. family) stats row) rows))"

definition pg_recalibrate_now ::
  "bool \<Rightarrow> family_thresholds \<Rightarrow> ('x pg_db_scheme, family_thresholds result \<times> family_thresholds) eff" where
  "pg_recalibrate_now install T =
     ebind pg_feedback_reader (\<lambda>rows. ebind (pg_aggregate_feedback [] rows) (\<lambda>stats.
     ret (recalibrate_loop DEFAULT_THRESHOLDS MIN_SAMPLES install stats [] T)))"

section \<open>The requests\<close>

lemma pg_request_frame [simp]:
  "pd_corpus (snd (pg_request s)) = pd_corpus s" "pd_feedback (snd (pg_request s)) = pd_feedback s"
  "pd_faults (snd (pg_request s)) = tl (pd_faults s)"
  by (simp_all add: pg_request_def split: list.split)

lemma pg_request_answer: "fst (pg_request s) = (if pd_faults s \<noteq> [] \<and> hd (pd_faults s) then Inl OperationalError else Inr ())"
  by (simp add: pg_request_def split: list.split)

lemma pg_request_more [simp]: "pg_db.more (snd (pg_request s)) = pg_db.more s"
  by (simp add: pg_request_def split: list.split)

section \<open>Verdicts that are counted\<close>

definition stored_family :: "'x pg_db_scheme \<Rightarrow> string \<Rightarrow> string option" where
  "stored_family s cve_id = (case pd_corpus s of None \<Rightarrow> None | Some rows \<Rightarrow> family_row rows cve_id)"

definition feedback_rows :: "'x pg_db_scheme \<Rightarrow> feedback list" where
  "feedback_rows s = (case pd_feedback s of None \<Rightarrow> [] | Some rows \<Rightarrow> rows)"

definition same_tables :: "'x pg_db_scheme \<Rightarrow> 'x pg_db_scheme \<Rightarrow> bool" where
  "same_tables s s' \<longleftrightarrow> pd_corpus s' = pd_corpus s \<and> pd_feedback s' = pd_feedback s \<and>
     (pd_faults s = [] \<longrightarrow> pd_faults s' = [])"

lemma same_tables_trans: "same_tables s s' \<Longrightarrow> same_tables s' s'' \<Longrightarrow> same_tables s s''"
  by (simp add: same_tables_def)

lemma pg_request_same: "same_tables s (snd (pg_request s))"
  by (simp add: same_tables_def)

lemma pg_request_cases:
  obtains (up) s' where "pg_request s = (Inr (), s')" "same_tables s s'"
  | (down) e s' where "pg_request s = (Inl e, s')" "same_tables s s'" "pd_faults s \<noteq> []"
  using pg_request_same [of s] pg_request_answer [of s] that
  by (cases "pg_request s") (auto split: if_splits)

lemma pg_family_resolver_runs:
  "\<exists>f s'. pg_family_resolver c s = (Inr f, s') \<and> same_tables s s' \<and>
     (f = None \<or> f = stored_family s c) \<and> (pd_faults s = [] \<longrightarrow> f = stored_family s c)"
proof (cases s rule: pg_request_cases)
  case (down e s1)
  then show ?thesis by (auto simp: pg_family_resolver_def catch_def ret_def)
next
  case s1: (up s1)
  show ?thesis
  proof (cases s1 rule: pg_request_cases)
    case (down e s2)
    then show ?thesis using s1
      by (auto simp: pg_family_resolver_def catch_def ret_def same_tables_def)
  next
    case (up s2)
    then have "pd_corpus s2 = pd_corpus s" "same_tables s s2" using s1 by (auto simp: same_tables_def)
    then show ?thesis using s1(1) up(1)
      by (cases "pd_corpus s") (auto simp: pg_family_resolver_def catch_def ret_def stored_family_def)
  qed
qed

lemma pg_feedback_reader_runs:
  "\<exists>rows s'. pg_feedback_reader s = (Inr rows, s') \<and> same_tables s s' \<and>
     (rows = [] \<or> rows = feedback_rows s) \<and> (pd_faults s = [] \<longrightarrow> rows = feedback_rows s)"
proof (cases s rule: pg_request_cases)
  case (down e s1)
  then show ?thesis by (auto simp: pg_feedback_reader_def catch_def ret_def)
next
  case s1: (up s1)
  show ?thesis
  proof (cases s1 rule: pg_request_cases)
    case (down e s2)
    then show ?thesis using s1
      by (auto simp: pg_feedback_reader_def catch_def ret_def same_tables_def)
  next
    case (up s2)
    then have "pd_feedback s2 = pd_feedback s" "same_tables s s2" using s1 by (auto simp: same_tables_def)
    then show ?thesis using s1(1) up(1)
      by (cases "pd_feedback s") (auto simp: pg_feedback_reader_def catch_def ret_def feedback_rows_def)
  qed
qed

lemma tally_verdict_local:
  "resolver (fb_cve_id row) = family \<Longrightarrow> tally_verdict (\<lambda>_. family) stats row = tally_verdict resolver stats row"
  by (simp add: tally_verdict_def)

lemma pg_aggregate_feedback_runs:
  "\<exists>counted s'. pg_aggregate_feedback stats rows s =
       (Inr (foldl (tally_verdict (stored_family s)) stats counted), s') \<and>
     subseq counted rows \<and> same_tables s s' \<and> (pd_faults s = [] \<longrightarrow> counted = rows)"
proof (induction rows arbitrary: stats s)
  case Nil
  show ?case by (intro exI [of _ "[]"] exI [of _ s]) (simp add: ret_def same_tables_def)
next
  case (Cons row rows)
  show ?case
  proof (cases "fb_verdict row \<in> set DECIDED")
    case False
    then have skip: "tally_verdict r stats row = stats" for r by (simp add: tally_verdict_def)
    from Cons [of stats s] obtain counted s' where
      "pg_aggregate_feedback stats rows s = (Inr (foldl (tally_verdict (stored_family s)) stats counted), s')"
      "subseq counted rows" "same_tables s s'" "pd_faults s = [] \<longrightarrow> counted = rows" by blast
    with False skip show ?thesis by (intro exI [of _ "row # counted"] exI [of _ s']) simp
  next
    case True
    obtain f s1 where f: "pg_family_resolver (fb_cve_id row) s = (Inr f, s1)" "same_tables s s1"
        "f = None \<or> f = stored_family s (fb_cve_id row)" "pd_faults s = [] \<longrightarrow> f = stored_family s (fb_cve_id row)"
      using pg_family_resolver_runs by blast
    let ?stats = "tally_verdict (\<lambda>_. f) stats row"
    have fam: "stored_family s1 = stored_family s" using f(2) by (auto simp: stored_family_def same_tables_def)
    obtain counted s' where c: "pg_aggregate_feedback ?stats rows s1 =
          (Inr (foldl (tally_verdict (stored_family s)) ?stats counted), s')"
        "subseq counted rows" "same_tables s1 s'" "pd_faults s1 = [] \<longrightarrow> counted = rows"
      using Cons [of ?stats s1] fam by auto
    have run: "pg_aggregate_feedback stats (row # rows) s =
        (Inr (foldl (tally_verdict (stored_family s)) ?stats counted), s')"
      using True f(1) c(1) by simp
    show ?thesis
    proof (cases "f = stored_family s (fb_cve_id row)")
      case True
      with run c f(2) same_tables_trans [OF f(2) c(3)] show ?thesis
        by (intro exI [of _ "row # counted"] exI [of _ s']) (simp add: tally_verdict_local same_tables_def)
    next
      case False
      with f(3) have "?stats = stats" by (simp add: tally_verdict_def)
      with run c f(4) False same_tables_trans [OF f(2) c(3)] show ?thesis
        by (intro exI [of _ counted] exI [of _ s']) auto
    qed
  qed
qed

text \<open>
  C38. Recalibration over Postgres never fails: it is the recalibration of the model from some of the
  feedback rows with the families of the corpus. While the database answers these are all rows; a
  request that fails drops the verdicts it was for, and without the first one nothing changes.
\<close>

theorem recalibrate_over_postgres:
  "\<exists>counted s'. pg_recalibrate_now install T s =
       (Inr (recalibrate_now counted (stored_family s) install T), s') \<and>
     subseq counted (feedback_rows s) \<and> pd_corpus s' = pd_corpus s \<and> pd_feedback s' = pd_feedback s \<and>
     (pd_faults s = [] \<longrightarrow> counted = feedback_rows s) \<and>
     (fst (pg_request s) = Inl OperationalError \<longrightarrow> recalibrate_now counted (stored_family s) install T = (Inr [], T))"
proof -
  obtain rows s1 where r: "pg_feedback_reader s = (Inr rows, s1)" "same_tables s s1"
      "rows = [] \<or> rows = feedback_rows s" "pd_faults s = [] \<longrightarrow> rows = feedback_rows s"
    using pg_feedback_reader_runs by blast
  have fam: "stored_family s1 = stored_family s" using r(2) by (auto simp: stored_family_def same_tables_def)
  obtain counted s' where c: "pg_aggregate_feedback [] rows s1 =
        (Inr (foldl (tally_verdict (stored_family s)) [] counted), s')"
      "subseq counted rows" "same_tables s1 s'" "pd_faults s1 = [] \<longrightarrow> counted = rows"
    using pg_aggregate_feedback_runs [of "[]" rows s1] fam by auto
  have run: "pg_recalibrate_now install T s = (Inr (recalibrate_now counted (stored_family s) install T), s')"
    using r(1) c(1) by (simp add: pg_recalibrate_now_def ret_def recalibrate_now_def recalibrate_def aggregate_feedback_def)
  have "counted = []" if "fst (pg_request s) = Inl OperationalError"
  proof -
    from that have "rows = []"
      using r(1) by (cases "pg_request s") (simp add: pg_feedback_reader_def catch_def ret_def)
    with c(2) show ?thesis by simp
  qed
  then have "recalibrate_now counted (stored_family s) install T = (Inr [], T)"
    if "fst (pg_request s) = Inl OperationalError"
    using that by (simp add: recalibrate_now_def recalibrate_def aggregate_feedback_def)
  moreover have "subseq counted (feedback_rows s)" using c(2) r(3) by (elim disjE) (auto dest: list_emb_Nil2)
  moreover have "pd_faults s = [] \<longrightarrow> counted = feedback_rows s"
    using c(4) r(2,4) by (simp add: same_tables_def)
  ultimately show ?thesis
    using run same_tables_trans [OF r(2) c(3)]
    by (intro exI [of _ counted] exI [of _ s']) (simp add: same_tables_def)
qed

definition sample_pg :: "bool list \<Rightarrow> pg_db" where
  "sample_pg faults =
     \<lparr>pd_corpus = Some (map (\<lambda>c. ((c, ''x''), \<lparr>cr_cve_id = c, cr_cpe_string = ''x'', cr_description = [],
                                     cr_family = Some ''openssl'', cr_embedding = None\<rparr>)) [''A'', ''B'']),
      pd_feedback = Some
        [\<lparr>fb_job_id = ''j'', fb_cve_id = ''A'', fb_verdict = ''confirmed'', fb_submitted_by = ''a'',
          fb_feedback_id = ''1'', fb_submitted_at = ''t''\<rparr>,
         \<lparr>fb_job_id = ''j'', fb_cve_id = ''B'', fb_verdict = ''false_positive'', fb_submitted_by = ''a'',
          fb_feedback_id = ''2'', fb_submitted_at = ''t''\<rparr>],
      pd_faults = faults\<rparr>"

theorem recalibrate_over_postgres_witness:
  "\<exists>s'. pg_recalibrate_now True [] (sample_pg []) =
     (Inr (recalibrate_now (feedback_rows (sample_pg [])) (stored_family (sample_pg [])) True []), s')"
  using recalibrate_over_postgres [of True "[]" "sample_pg []"] by (auto simp: sample_pg_def)

text \<open>
  One confirmed and one false positive make the family stricter; if the look-up of the second row
  fails, the same feedback makes it looser.
\<close>

lemma transient_failure_flips_adjustment:
  "fst (pg_aggregate_feedback [] (feedback_rows (sample_pg [])) (sample_pg [])) =
     Inr [(''openssl'', \<lparr>fs_confirmed = 1, fs_false_positive = 1\<rparr>)]"
  "fst (pg_aggregate_feedback [] (feedback_rows (sample_pg [])) (sample_pg [False, False, True])) =
     Inr [(''openssl'', \<lparr>fs_confirmed = 1, fs_false_positive = 0\<rparr>)]"
  "FP_RATE_STRICTEN \<le> fp_rate \<lparr>fs_confirmed = 1, fs_false_positive = 1\<rparr>"
  "fp_rate \<lparr>fs_confirmed = 1, fs_false_positive = 0\<rparr> \<le> FP_RATE_LOOSEN"
  by code_simp+

section \<open>The corpus over its connection\<close>

text \<open>What the server promises of vectors: the literal of a vector is read back in single precision, with as
  many dimensions, and a search returns rows of the table, as many as asked for at most.\<close>

definition stored_vec :: "pg_vectors \<Rightarrow> vec \<Rightarrow> vec" where
  "stored_vec V e = (case pv_parse V (vec_literal V e) of Inl x \<Rightarrow> [] | Inr v \<Rightarrow> v)"

definition vectors_ok :: "pg_vectors \<Rightarrow> bool" where
  "vectors_ok V \<longleftrightarrow> (\<forall>e. pv_parse V (vec_literal V e) = Inr (stored_vec V e) \<and> length (stored_vec V e) = length e) \<and>
     (\<forall>rows q k hits. pv_search V rows q k = Inr hits \<longrightarrow> length hits \<le> k \<and> fst ` set hits \<subseteq> set (map snd rows))"

definition storable :: "cve_record \<Rightarrow> bool" where
  "storable r \<longleftrightarrow> (\<exists>e. cr_embedding r = Some e \<and> length e = EMBEDDING_DIM)"

definition stored :: "pg_vectors \<Rightarrow> cve_record \<Rightarrow> cve_record" where
  "stored V r = r\<lparr>cr_embedding := map_option (stored_vec V) (cr_embedding r)\<rparr>"

lemma cve_key_stored [simp]: "cve_key (stored V r) = cve_key r"
  by (simp add: stored_def cve_key_def)

lemma upsert_Cons: "snd (upsert (r # rs) rows) = snd (upsert rs (dset (cve_key r) r rows))"
  by (simp add: upsert_def)

lemma upsert_Nil [simp]: "snd (upsert [] rows) = rows"
  by (simp add: upsert_def)

text \<open>A request that works leaves an open connection, one that fails leaves none.\<close>

lemma corpus_connect_cases:
  obtains (up) s' where "corpus_connect s = (Inr (), s')" "pd_corpus s' = pd_corpus s" "pc_conn s' = Some False"
      "pd_faults s = [] \<Longrightarrow> pd_faults s' = []"
  | (down) s' where "corpus_connect s = (Inl OperationalError, s')" "pd_corpus s' = pd_corpus s"
      "pc_conn s' \<noteq> Some False" "pd_faults s \<noteq> []"
proof (cases "pc_conn s = Some False")
  case True
  then show ?thesis using up [of s] by (simp add: corpus_connect_def)
next
  case False
  show ?thesis
  proof (cases "pd_faults s")
    case Nil
    then show ?thesis using False up [of "s\<lparr>pc_conn := Some False\<rparr>"]
      by (simp add: corpus_connect_def pg_request_def ebind_def modify_def)
  next
    case (Cons f fs)
    then show ?thesis
      using False up [of "s\<lparr>pd_faults := fs, pc_conn := Some False\<rparr>"] down [of "s\<lparr>pd_faults := fs\<rparr>"]
      by (cases f) (simp_all add: corpus_connect_def pg_request_def ebind_def modify_def)
  qed
qed

lemma corpus_execute_cases:
  obtains (up) s' where "corpus_execute s = (Inr (), s')" "pd_corpus s' = pd_corpus s" "pc_conn s' = pc_conn s"
      "pd_faults s = [] \<Longrightarrow> pd_faults s' = []"
  | (down) s' where "corpus_execute s = (Inl OperationalError, s')" "pd_corpus s' = pd_corpus s"
      "pc_conn s' \<noteq> Some False" "pd_faults s \<noteq> []"
proof (cases "pd_faults s")
  case Nil
  then show ?thesis using up [of s] by (simp add: corpus_execute_def catch_def pg_request_def)
next
  case (Cons f fs)
  then show ?thesis
    using up [of "s\<lparr>pd_faults := fs\<rparr>"] down [of "s\<lparr>pd_faults := fs, pc_conn := Some True\<rparr>"]
    by (cases f) (simp_all add: corpus_execute_def catch_def pg_request_def modify_def raise_def)
qed

lemma insert_record_cases:
  assumes "vectors_ok V" "pd_corpus s = Some rows" "pc_conn s = Some False" "corpus_ok rows" "cr_embedding r = Some e"
  obtains (inserted) s' where "insert_record V r e s = (Inr (), s')" "length e = EMBEDDING_DIM"
      "pd_corpus s' = Some (dset (cve_key r) (stored V r) rows)" "pc_conn s' = Some False"
      "pd_faults s = [] \<Longrightarrow> pd_faults s' = []"
  | (refused) s' x where "insert_record V r e s = (Inl x, s')" "pd_corpus s' = Some rows"
      "x = OperationalError \<and> pd_faults s \<noteq> [] \<and> pc_conn s' \<noteq> Some False \<or> length e \<noteq> EMBEDDING_DIM"
proof (cases s rule: corpus_execute_cases)
  case (up s')
  have v: "pv_parse V (vec_literal V e) = Inr (stored_vec V e)" "length (stored_vec V e) = length e"
    using assms(1) by (auto simp: vectors_ok_def)
  have st: "stored V r = r\<lparr>cr_embedding := Some (stored_vec V e)\<rparr>" using assms(5) by (simp add: stored_def)
  have row: "pg_upsert_row (stored V r) rows = dset (cve_key r) (stored V r) rows"
    using pg_upsert_row_eq [OF assms(4), of "stored V r"] by simp
  show ?thesis
  proof (cases "length e = EMBEDDING_DIM")
    case True
    then show ?thesis using up assms(2,3) v row inserted
      by (simp add: st insert_record_def with_corpus_def lift_result_def modify_def)
  next
    case False
    then show ?thesis using up assms(2) v refused
      by (simp add: insert_record_def with_corpus_def lift_result_def raise_def)
  qed
next
  case (down s')
  then show ?thesis using assms(2) refused [of OperationalError s'] by (simp add: insert_record_def)
qed

lemma insert_records_prefix:
  assumes "vectors_ok V" "pd_corpus s = Some rows" "pc_conn s = Some False" "corpus_ok rows"
  shows "\<exists>n s' answer. insert_records V rs s = (answer, s') \<and> n \<le> length rs \<and>
    pd_corpus s' = Some (snd (upsert (map (stored V) (take n rs)) rows)) \<and>
    (case answer of
       Inr u \<Rightarrow> n = length rs \<and> (pd_faults s = [] \<longrightarrow> pd_faults s' = [])
     | Inl x \<Rightarrow> n < length rs \<and> (x = OperationalError \<and> pd_faults s \<noteq> [] \<and> pc_conn s' \<noteq> Some False \<or> \<not> storable (rs ! n)))"
  using assms(2-4)
proof (induction rs arbitrary: s rows)
  case Nil
  then show ?case by (simp add: ret_def)
next
  case (Cons r rs)
  show ?case
  proof (cases "\<exists>e. cr_embedding r = Some e \<and> e \<noteq> []")
    case False
    then have "\<exists>x. insert_records V (r # rs) s = (Inl x, s)"
      by (auto simp: raise_def split: option.split)
    moreover have "\<not> storable r" using False by (auto simp: storable_def EMBEDDING_DIM_def)
    ultimately show ?thesis using Cons.prems by (intro exI [of _ 0]) auto
  next
    case True
    then obtain e where e: "cr_embedding r = Some e" "e \<noteq> []" by auto
    show ?thesis
    proof (cases rule: insert_record_cases [OF assms(1) Cons.prems e(1)])
      case (1 s1)
      have "corpus_ok (dset (cve_key r) (stored V r) rows)"
        using dset_corpus_ok [OF Cons.prems(3), of "stored V r"] by simp
      from Cons.IH [OF 1(3,4) this] obtain n s' answer where n: "insert_records V rs s1 = (answer, s')" "n \<le> length rs"
        "pd_corpus s' = Some (snd (upsert (map (stored V) (take n rs)) (dset (cve_key r) (stored V r) rows)))"
        "case answer of Inr u \<Rightarrow> n = length rs \<and> (pd_faults s1 = [] \<longrightarrow> pd_faults s' = [])
         | Inl x \<Rightarrow> n < length rs \<and> (x = OperationalError \<and> pd_faults s1 \<noteq> [] \<and> pc_conn s' \<noteq> Some False \<or> \<not> storable (rs ! n))"
        by blast
      then show ?thesis using 1 e
        by (intro exI [of _ "Suc n"] exI [of _ s'] exI [of _ answer]) (auto simp: upsert_Cons split: sum.splits)
    next
      case (2 s1 x)
      then show ?thesis using e
        by (intro exI [of _ 0] exI [of _ s1] exI [of _ "Inl x"]) (auto simp: storable_def)
    qed
  qed
qed

lemma upsert_again:
  "corpus_row k (snd (upsert rs (snd (upsert (take n rs) rows)))) = corpus_row k (snd (upsert rs rows))"
proof -
  have "find P (rev xs) \<noteq> None" if "find P (rev (take n xs)) \<noteq> None" for P and xs :: "cve_record list"
    using that by (auto simp: find_None_iff dest: in_set_takeD)
  then show ?thesis by (simp add: corpus_row_def upsert_row split: option.splits) (metis option.distinct(1))
qed

text \<open>
  C35. Loading a batch over Postgres stores a prefix of it, exactly as the in-memory corpus would: all
  of it when the call returns; when it raises, the records before the one that was refused (no
  embedding, wrong dimension) or whose request failed, and the connection is given up. Loading the
  batch again then leads to the same rows as a load that never failed.
\<close>

theorem pgv_upsert_stores_prefix:
  assumes "vectors_ok V" "pd_corpus s = Some rows" "corpus_ok rows" "pgv_upsert V rs s = (answer, s')"
  shows "\<exists>n \<le> length rs. pd_corpus s' = Some (snd (upsert (map (stored V) (take n rs)) rows)) \<and>
    (case answer of
       Inr m \<Rightarrow> m = length rs \<and> n = length rs
     | Inl x \<Rightarrow> n < length rs \<and> (x = OperationalError \<and> pc_conn s' \<noteq> Some False \<or> \<not> storable (rs ! n))) \<and>
    (pd_faults s = [] \<and> list_all storable rs \<longrightarrow> answer = Inr (length rs)) \<and>
    (\<forall>m s''. pgv_upsert V rs s' = (Inr m, s'') \<longrightarrow>
       (\<forall>k. corpus_row k (the (pd_corpus s'')) = corpus_row k (snd (upsert (map (stored V) rs) rows))))"
proof -
  let ?load = "\<lambda>n rows. snd (upsert (map (stored V) (take n rs)) rows)"
  have run: "\<exists>n \<le> length rs. pd_corpus s' = Some (?load n rows) \<and>
    (case answer of
       Inr m \<Rightarrow> m = length rs \<and> n = length rs
     | Inl x \<Rightarrow> n < length rs \<and> (x = OperationalError \<and> pd_faults s \<noteq> [] \<and> pc_conn s' \<noteq> Some False \<or> \<not> storable (rs ! n)))"
    if "pd_corpus s = Some rows" "corpus_ok rows" "pgv_upsert V rs s = (answer, s')" for s rows answer s'
  proof (cases "rs = []")
    case True
    then show ?thesis using that by (auto simp: pgv_upsert_def ret_def)
  next
    case False
    show ?thesis
    proof (cases s rule: corpus_connect_cases)
      case (up s1)
      with insert_records_prefix [OF assms(1), of s1 rows rs] that(1,2) obtain n s2 a where
        n: "insert_records V rs s1 = (a, s2)" "n \<le> length rs" "pd_corpus s2 = Some (?load n rows)"
        "case a of Inr u \<Rightarrow> n = length rs \<and> (pd_faults s1 = [] \<longrightarrow> pd_faults s2 = [])
         | Inl x \<Rightarrow> n < length rs \<and> (x = OperationalError \<and> pd_faults s1 \<noteq> [] \<and> pc_conn s2 \<noteq> Some False \<or> \<not> storable (rs ! n))"
        by auto
      then show ?thesis using False up that(3)
        by (intro exI [of _ n]) (cases a; auto simp: pgv_upsert_def ebind_def ret_def)
    next
      case (down s1)
      then show ?thesis using False that by (intro exI [of _ 0]) (auto simp: pgv_upsert_def)
    qed
  qed
  obtain n where n: "n \<le> length rs" "pd_corpus s' = Some (?load n rows)"
    "case answer of Inr m \<Rightarrow> m = length rs \<and> n = length rs
     | Inl x \<Rightarrow> n < length rs \<and> (x = OperationalError \<and> pd_faults s \<noteq> [] \<and> pc_conn s' \<noteq> Some False \<or> \<not> storable (rs ! n))"
    using run [OF assms(2-4)] by auto
  have "corpus_row k (the (pd_corpus s'')) = corpus_row k (snd (upsert (map (stored V) rs) rows))"
    if "pgv_upsert V rs s' = (Inr m, s'')" for m s'' k
    using run [OF n(2) upsert_ok [OF assms(3)] that] upsert_again [of k "map (stored V) rs" n rows] by (auto simp: take_map)
  moreover have "answer = Inr (length rs)" if "pd_faults s = []" "list_all storable rs"
    using n(3) that by (cases answer) (auto simp: list_all_length)
  ultimately show ?thesis using n by (intro exI [of _ n]) (auto split: sum.splits)
qed

lemma sample_vectors_count:
  "count_list (join '','' (map (\<lambda>_. ''x'') e)) (CHR ''x'') = length e"
proof (induction e)
  case (Cons a e)
  then show ?case by (cases e) simp_all
qed simp

definition sample_vectors :: pg_vectors where
  "sample_vectors =
     \<lparr>pv_repr = (\<lambda>_. ''x''), pv_parse = (\<lambda>s. Inr (replicate (count_list s (CHR ''x'')) 0)),
      pv_search = (\<lambda>rows q k. Inr (map (\<lambda>r. (r, 2)) (take k (map snd rows))))\<rparr>"

lemma sample_vectors_ok: "vectors_ok sample_vectors"
proof -
  have "fst ` set (map (\<lambda>r. (r, 2 :: pyfloat)) (take k rows)) \<subseteq> set rows" for k and rows :: "cve_record list"
    by (auto dest: in_set_takeD)
  then show ?thesis
    by (auto simp: vectors_ok_def sample_vectors_def stored_vec_def vec_literal_def sample_vectors_count comp_def
        dest!: in_set_takeD)
qed

definition corpus_with :: "corpus_rows \<Rightarrow> pg_corpus" where
  "corpus_with rows = \<lparr>pd_corpus = Some rows, pd_feedback = None, pd_faults = [], pc_conn = Some True\<rparr>"

definition row_for :: "string \<Rightarrow> cve_record" where
  "row_for cpe =
     \<lparr>cr_cve_id = ''CVE-1'', cr_cpe_string = cpe, cr_description = [], cr_family = None,
      cr_embedding = Some (replicate EMBEDDING_DIM 0)\<rparr>"

theorem pgv_upsert_stores_prefix_witness:
  "\<exists>s'. pgv_upsert sample_vectors [row_for ''c''] (corpus_with []) = (Inr 1, s') \<and>
     pd_corpus s' = Some [((''CVE-1'', ''c''), stored sample_vectors (row_for ''c''))]"
proof -
  obtain answer s' where run: "pgv_upsert sample_vectors [row_for ''c''] (corpus_with []) = (answer, s')"
    by (cases "pgv_upsert sample_vectors [row_for ''c''] (corpus_with [])")
  have start: "pd_corpus (corpus_with []) = Some []" "pd_faults (corpus_with []) = []" "corpus_ok []"
    "list_all storable [row_for ''c'']"
    by (simp_all add: corpus_with_def storable_def row_for_def corpus_ok_def)
  from pgv_upsert_stores_prefix [OF sample_vectors_ok start(1,3) run] start(2,4) run
  have "answer = Inr 1" "pd_corpus s' = Some (snd (upsert [stored sample_vectors (row_for ''c'')] []))"
    by (elim exE conjE, simp)+
  moreover have "cve_key (row_for ''c'') = (''CVE-1'', ''c'')" by (simp add: row_for_def cve_key_def)
  ultimately show ?thesis using run by (simp add: upsert_def)
qed

section \<open>Reading the corpus\<close>

definition canonical :: "string \<Rightarrow> bool" where
  "canonical c \<longleftrightarrow> lower c = c \<and> stripped c"

lemma pg_exact_bare: "pg_exact_cpe_lookup rows c = map bare (filter (\<lambda>r. cr_cpe_string r = c) (map snd rows))"
  by (simp add: pg_exact_cpe_lookup_def bare_def)

text \<open>A read answers from the table, or the request failed, the connection is given up and nothing else changed.\<close>

definition answers_or_reconnects :: "pg_corpus \<Rightarrow> ('a \<Rightarrow> bool) \<Rightarrow> 'a result \<times> pg_corpus \<Rightarrow> bool" where
  "answers_or_reconnects s P out \<longleftrightarrow> pd_corpus (snd out) = pd_corpus s \<and>
     (case fst out of
        Inr x \<Rightarrow> P x
      | Inl e \<Rightarrow> e = OperationalError \<and> pd_faults s \<noteq> [] \<and> pc_conn (snd out) \<noteq> Some False)"

lemma corpus_query:
  assumes "pd_corpus s = Some rows"
    "\<And>s. pd_corpus s = Some rows \<Longrightarrow> \<exists>x. f rows s = (Inr x, s) \<and> P x"
  shows "answers_or_reconnects s P (ebind corpus_connect (\<lambda>_. ebind corpus_execute (\<lambda>_. with_corpus f)) s)"
proof (cases s rule: corpus_connect_cases)
  case (down s1)
  then show ?thesis by (simp add: answers_or_reconnects_def)
next
  case s1: (up s1)
  show ?thesis
  proof (cases s1 rule: corpus_execute_cases)
    case (up s2)
    then show ?thesis using s1 assms(1) assms(2) [of s2]
      by (auto simp: answers_or_reconnects_def with_corpus_def)
  next
    case (down s2)
    then show ?thesis using s1 by (auto simp: answers_or_reconnects_def)
  qed
qed



text \<open>A CPE in upper case is found by the in-memory corpus only.\<close>

lemma exact_lookup_case:
  "fst (pgv_exact_cpe_lookup ''C'' (corpus_with [((''CVE-1'', ''c''), row_for ''c'')])) = Inr []"
  "exact_cpe_lookup [((''CVE-1'', ''c''), row_for ''c'')] ''C'' = [row_for ''c'']"
proof -
  have "lower (strip ''C'') = lower ''c''" by code_simp
  then show "exact_cpe_lookup [((''CVE-1'', ''c''), row_for ''c'')] ''C'' = [row_for ''c'']"
    by (simp add: exact_cpe_lookup_def row_for_def)
qed (simp add: pgv_exact_cpe_lookup_def corpus_with_def corpus_connect_def corpus_execute_def with_corpus_def
    pg_request_def catch_def ebind_def modify_def ret_def row_for_def pg_exact_bare)

text \<open>What the matcher gets while the database answers: the exact statement on the table.\<close>

lemma pg_repo_exact:
  assumes "pd_corpus s = Some rows" "pd_faults s = []"
  shows "co_exact (pg_repo V s) c = Inr (pg_exact_cpe_lookup rows c)"
proof -
  have "answers_or_reconnects s (\<lambda>hits. hits = pg_exact_cpe_lookup rows c) (pgv_exact_cpe_lookup c s)"
    unfolding pgv_exact_cpe_lookup_def by (rule corpus_query [OF assms(1)]) (simp add: ret_def)
  then show ?thesis
    using assms(2) by (simp add: pg_repo_def answers_or_reconnects_def split: sum.splits)
qed

end
