(* ===== verification/EtlPostgres.thy ===== *)
theory EtlPostgres
  imports Postgres
begin

text \<open>
  The ETL on the table of \<open>Postgres\<close>, as \<open>services/cve_matching/refresh_daemon.py\<close> runs it. The lemmas
  show that the loader of \<open>services/cve_matching/nvd_etl.py\<close> does on the real store what it does on
  the in-memory one, errors included.
\<close>

section \<open>refresh_daemon.py\<close>

text \<open>
  The three modes; the daemon's runs come with the start of their windows, until it is
  interrupted. Nothing is returned when a run pages forever.
\<close>

datatype refresh_args = Full "int option" | Incremental string | Daemon "string list"

fun refresh_runs ::
  "('s, unit) eff \<Rightarrow> (cve_record list \<Rightarrow> ('s, nat) eff) \<Rightarrow> (string list \<Rightarrow> vec list result) \<Rightarrow>
   (nat \<Rightarrow> payload \<Rightarrow> json result) \<Rightarrow> string list \<Rightarrow> 's \<Rightarrow> 's option" where
  "refresh_runs schema put encode_batch fetch [] s = Some s"
| "refresh_runs schema put encode_batch fetch (since # windows) s =
     (case refresh_job schema put encode_batch fetch since s of
        None \<Rightarrow> None
      | Some s \<Rightarrow> refresh_runs schema put encode_batch fetch windows s)"

definition refresh_main ::
  "('s, unit) eff \<Rightarrow> (cve_record list \<Rightarrow> ('s, nat) eff) \<Rightarrow> (string list \<Rightarrow> vec list result) \<Rightarrow>
   (nat \<Rightarrow> payload \<Rightarrow> json result) \<Rightarrow> refresh_args \<Rightarrow> 's \<Rightarrow> (int result \<times> 's) option" where
  "refresh_main schema put encode_batch fetch args s =
     (case args of
        Full max_records \<Rightarrow>
          map_option (\<lambda>(r, s). (rbind r (\<lambda>_. Inr 0), s)) (run_full_etl schema put encode_batch fetch max_records s)
      | Incremental since \<Rightarrow>
          map_option (\<lambda>(r, s). (rbind r (\<lambda>_. Inr 0), s)) (run_incremental_refresh schema put encode_batch fetch since None s)
      | Daemon windows \<Rightarrow>
          map_option (\<lambda>s. (Inr 0, s)) (refresh_runs schema put encode_batch fetch windows s))"

section \<open>The table against the dictionary\<close>

definition stored_rows :: "pg_vectors \<Rightarrow> corpus_rows \<Rightarrow> corpus_rows" where
  "stored_rows V rows = map (\<lambda>(k, r). (k, stored V r)) rows"

text \<open>A table that does not exist yet counts as empty.\<close>

definition agrees :: "pg_vectors \<Rightarrow> pg_corpus \<Rightarrow> corpus_rows \<Rightarrow> bool" where
  "agrees V s rows \<longleftrightarrow> pd_corpus s = Some (stored_rows V rows) \<and> corpus_ok rows \<and> pd_faults s = []"

definition agrees_fresh :: "pg_vectors \<Rightarrow> pg_corpus \<Rightarrow> corpus_rows \<Rightarrow> bool" where
  "agrees_fresh V s rows \<longleftrightarrow> agrees V s rows \<or> pd_corpus s = None \<and> rows = [] \<and> pd_faults s = []"

lemma dset_stored: "stored_rows V (dset k r rows) = dset k (stored V r) (stored_rows V rows)"
  by (induction rows) (auto simp: stored_rows_def)

lemma upsert_stored: "snd (upsert (map (stored V) rs) (stored_rows V rows)) = stored_rows V (snd (upsert rs rows))"
  by (induction rs arbitrary: rows) (simp_all add: upsert_Cons flip: dset_stored)

lemma corpus_ok_stored: "corpus_ok rows \<Longrightarrow> corpus_ok (stored_rows V rows)"
  by (force simp: corpus_ok_def stored_rows_def comp_def case_prod_unfold)

lemma pgv_upsert_agrees:
  assumes "vectors_ok V" "agrees V s rows" "list_all storable rs"
  shows "\<exists>s'. pgv_upsert V rs s = (Inr (length rs), s') \<and> agrees V s' (snd (upsert rs rows))"
proof (cases "rs = []")
  case True
  then show ?thesis using assms(2) by (simp add: pgv_upsert_def ret_def)
next
  case False
  have s: "pd_corpus s = Some (stored_rows V rows)" "corpus_ok rows" "pd_faults s = []"
    using assms(2) by (simp_all add: agrees_def)
  obtain s1 where s1: "corpus_connect s = (Inr (), s1)" "pd_corpus s1 = pd_corpus s" "pc_conn s1 = Some False" "pd_faults s1 = []"
    using s(3) by (cases s rule: corpus_connect_cases) auto
  obtain n s2 answer where ins: "insert_records V rs s1 = (answer, s2)"
    "pd_corpus s2 = Some (snd (upsert (map (stored V) (take n rs)) (stored_rows V rows)))"
    "case answer of
       Inr u \<Rightarrow> n = length rs \<and> (pd_faults s1 = [] \<longrightarrow> pd_faults s2 = [])
     | Inl x \<Rightarrow> n < length rs \<and> (x = OperationalError \<and> pd_faults s1 \<noteq> [] \<and> pc_conn s2 \<noteq> Some False \<or> \<not> storable (rs ! n))"
    using insert_records_prefix [OF assms(1), of s1 "stored_rows V rows" rs] s1 s corpus_ok_stored by auto
  have "answer = Inr ()" using ins(3) assms(3) s1(4) by (cases answer) (auto simp: list_all_length)
  then show ?thesis
    using False s1 ins s(2) upsert_ok [OF s(2)] by (auto simp: pgv_upsert_def ret_def agrees_def upsert_stored)
qed

lemma corpus_ensure_schema_agrees:
  assumes "agrees_fresh V s rows"
  shows "\<exists>s'. corpus_ensure_schema s = (Inr (), s') \<and> agrees V s' rows"
proof -
  have up: "\<exists>s'. corpus_execute t = (Inr (), s') \<and> pd_corpus s' = pd_corpus t \<and> pd_faults s' = []"
    if "pd_faults t = []" for t
    using that by (cases t rule: corpus_execute_cases) auto
  obtain s1 where s1: "corpus_connect s = (Inr (), s1)" "pd_corpus s1 = pd_corpus s" "pd_faults s1 = []"
    using assms by (cases s rule: corpus_connect_cases) (auto simp: agrees_fresh_def agrees_def)
  obtain s2 where s2: "corpus_execute s1 = (Inr (), s2)" "pd_corpus s2 = pd_corpus s" "pd_faults s2 = []"
    using up [OF s1(3)] s1(2) by auto
  obtain s3 where s3: "corpus_execute s2 = (Inr (), s3)" "pd_corpus s3 = pd_corpus s" "pd_faults s3 = []"
    using up [OF s2(3)] s2(2) by auto
  let ?t = "s3\<lparr>pd_corpus := Some (case pd_corpus s3 of None \<Rightarrow> [] | Some rows \<Rightarrow> rows)\<rparr>"
  obtain s4 where s4: "corpus_execute ?t = (Inr (), s4)" "pd_corpus s4 = pd_corpus ?t" "pd_faults s4 = []"
    using up [of ?t] s3(3) by auto
  obtain s5 where s5: "corpus_execute s4 = (Inr (), s5)" "pd_corpus s5 = pd_corpus ?t" "pd_faults s5 = []"
    using up [OF s4(3)] s4(2) by auto
  have "corpus_ensure_schema s = (Inr (), s5)"
    using s1(1) s2(1) s3(1) s4(1) s5(1) by (simp add: corpus_ensure_schema_def modify_def)
  moreover have "pd_corpus s5 = Some (stored_rows V rows)" "corpus_ok rows"
    using assms s3(2) s5(2) by (auto simp: agrees_fresh_def agrees_def stored_rows_def corpus_ok_def)
  ultimately show ?thesis using s5(3) by (simp add: agrees_def)
qed

section \<open>The loader\<close>

text \<open>What a model with 384 dimensions gives: one vector per text.\<close>

definition encoder_ok :: "(string list \<Rightarrow> vec list result) \<Rightarrow> bool" where
  "encoder_ok encode_batch \<longleftrightarrow>
     (\<forall>ts vs. encode_batch ts = Inr vs \<longrightarrow> length vs = length ts \<and> list_all (\<lambda>v. length v = EMBEDDING_DIM) vs)"

lemma set_embeddings_storable:
  "length vs = length rs \<Longrightarrow> list_all (\<lambda>v. length v = EMBEDDING_DIM) vs \<Longrightarrow> list_all storable (set_embeddings rs vs)"
  by (induction rs vs rule: set_embeddings.induct) (simp_all add: storable_def)

lemma records_storable:
  assumes "encoder_ok encode_batch" "records_from_cve encode_batch cve = Inr recs"
  shows "list_all storable recs"
proof -
  have "list_all storable (set_embeddings rs vs)" if "encode_batch (map corpus_text rs) = Inr vs" for rs vs
    using assms(1) that set_embeddings_storable [of vs rs] unfolding encoder_ok_def by fastforce
  then show ?thesis using assms(2) by (auto simp: records_from_cve_def Let_def split: if_splits)
qed

lemma flush_agrees:
  assumes "vectors_ok V" "agrees V s rows" "list_all storable (ep_batch p)"
  shows "\<exists>s' p'. flush (pgv_upsert V) p s = (Inr p', s') \<and> fst (flush mem_put p rows) = Inr p' \<and>
    agrees V s' (snd (flush mem_put p rows)) \<and> ep_batch p' = []"
proof (cases "ep_batch p = []")
  case True
  then show ?thesis using assms(2) by (simp add: flush_def ret_def)
next
  case False
  then show ?thesis using pgv_upsert_agrees [OF assms]
    by (auto simp: flush_def ebind_def ret_def mem_put_def upsert_def)
qed

lemma ingest_loop_agrees:
  assumes "vectors_ok V" "\<forall>cve recs. records cve = Inr recs \<longrightarrow> list_all storable recs"
  shows "agrees V s rows \<Longrightarrow> list_all storable (ep_batch p) \<Longrightarrow>
    \<exists>s' r. ingest_loop (pgv_upsert V) records b cves p s = (r, s') \<and> fst (ingest_loop mem_put records b cves p rows) = r \<and>
      agrees V s' (snd (ingest_loop mem_put records b cves p rows)) \<and> (\<forall>p'. r = Inr p' \<longrightarrow> list_all storable (ep_batch p'))"
proof (induction cves arbitrary: s rows p)
  case Nil
  then show ?case by (simp add: ret_def)
next
  case (Cons cve cves)
  show ?case
  proof (cases "records cve")
    case (Inl e)
    then show ?thesis using Cons.prems by (simp add: ebind_def lift_result_def)
  next
    case (Inr recs)
    let ?p = "see_cve recs p"
    have batch: "list_all storable (ep_batch ?p)" using assms(2) Inr Cons.prems(2) by (simp add: see_cve_def)
    show ?thesis
    proof (cases "b \<le> int (length (ep_batch ?p))")
      case False
      then show ?thesis using Cons.IH [OF Cons.prems(1) batch] Inr by (simp add: ebind_def lift_result_def ret_def)
    next
      case True
      obtain s1 p1 where f: "flush (pgv_upsert V) ?p s = (Inr p1, s1)" "fst (flush mem_put ?p rows) = Inr p1"
          "agrees V s1 (snd (flush mem_put ?p rows))" "ep_batch p1 = []"
        using flush_agrees [OF assms(1) Cons.prems(1) batch] by blast
      obtain rows1 where m: "flush mem_put ?p rows = (Inr p1, rows1)" using f(2) by (cases "flush mem_put ?p rows") simp
      from Cons.IH [of s1 rows1 p1] f m True Inr show ?thesis by (simp add: ebind_def lift_result_def)
    qed
  qed
qed

lemma ingest_cves_agrees:
  assumes "vectors_ok V" "\<forall>cve recs. records cve = Inr recs \<longrightarrow> list_all storable recs" "agrees V s rows"
  shows "\<exists>s'. ingest_cves (pgv_upsert V) records b stream s = (fst (ingest_cves mem_put records b stream rows), s') \<and>
    agrees V s' (snd (ingest_cves mem_put records b stream rows))"
proof -
  let ?p = "\<lparr>ep_result = \<lparr>et_cves_seen = 0, et_records_upserted = 0, et_families = []\<rparr>, ep_batch = []\<rparr>"
  obtain s1 r where l: "ingest_loop (pgv_upsert V) records b (fst stream) ?p s = (r, s1)"
      "fst (ingest_loop mem_put records b (fst stream) ?p rows) = r"
      "agrees V s1 (snd (ingest_loop mem_put records b (fst stream) ?p rows))"
      "\<forall>p'. r = Inr p' \<longrightarrow> list_all storable (ep_batch p')"
    using ingest_loop_agrees [OF assms(1,2,3), of ?p b "fst stream"] by auto
  obtain rows1 where m: "ingest_loop mem_put records b (fst stream) ?p rows = (r, rows1)"
    using l(2) by (cases "ingest_loop mem_put records b (fst stream) ?p rows") simp
  show ?thesis
  proof (cases "\<exists>p'. r = Inr p' \<and> snd stream = None")
    case False
    then show ?thesis using l m by (cases r) (auto simp: ingest_cves_def ebind_def raise_def)
  next
    case True
    then obtain p' where p': "r = Inr p'" "snd stream = None" by blast
    have "agrees V s1 rows1" "list_all storable (ep_batch p')" using l m p' by simp_all
    from flush_agrees [OF assms(1) this] obtain s2 p2 where f: "flush (pgv_upsert V) p' s1 = (Inr p2, s2)"
        "fst (flush mem_put p' rows1) = Inr p2" "agrees V s2 (snd (flush mem_put p' rows1))" by blast
    then show ?thesis using l m p' by (cases "flush mem_put p' rows1") (simp add: ingest_cves_def ebind_def ret_def)
  qed
qed

lemma run_etl_agrees:
  assumes "vectors_ok V" "encoder_ok enc" "agrees_fresh V s rows"
  shows "rel_option (\<lambda>(r, s') (r', rows'). r = r' \<and> agrees V s' rows')
    (run_etl corpus_ensure_schema (pgv_upsert V) enc cves s) (run_etl (ret ()) mem_put enc cves rows)"
proof -
  obtain s1 where s1: "corpus_ensure_schema s = (Inr (), s1)" "agrees V s1 rows"
    using corpus_ensure_schema_agrees [OF assms(3)] by blast
  show ?thesis
  proof (cases cves)
    case (Some stream)
    obtain s2 where "ingest_cves (pgv_upsert V) (records_from_cve enc) 200 stream s1 =
        (fst (ingest_cves mem_put (records_from_cve enc) 200 stream rows), s2)"
      "agrees V s2 (snd (ingest_cves mem_put (records_from_cve enc) 200 stream rows))"
      using ingest_cves_agrees [OF assms(1) _ s1(2), of "records_from_cve enc" 200 stream] records_storable [OF assms(2)]
      by blast
    then show ?thesis using Some s1(1) by (simp add: run_etl_def ret_def case_prod_unfold)
  qed (simp add: run_etl_def s1(1) ret_def)
qed

lemma refresh_runs_agrees:
  assumes "vectors_ok V" "encoder_ok enc"
  shows "agrees_fresh V s rows \<Longrightarrow>
    rel_option (\<lambda>s' rows'. agrees_fresh V s' rows')
      (refresh_runs corpus_ensure_schema (pgv_upsert V) enc fetch windows s) (refresh_runs (ret ()) mem_put enc fetch windows rows)"
proof (induction windows arbitrary: s rows)
  case (Cons since windows)
  have "rel_option (\<lambda>s' rows'. agrees_fresh V s' rows')
      (refresh_job corpus_ensure_schema (pgv_upsert V) enc fetch since s) (refresh_job (ret ()) mem_put enc fetch since rows)"
    using run_etl_agrees [OF assms Cons.prems, of "fetch_nvd fetch 2000 (Some since) None None"]
    by (auto simp: refresh_job_def run_incremental_refresh_def option.rel_map agrees_fresh_def case_prod_unfold
        elim!: option.rel_mono_strong)
  then show ?case using Cons.IH by (auto elim!: option.rel_cases)
qed simp


definition wide_encode :: "string list \<Rightarrow> vec list result" where
  "wide_encode ts = Inr (map (\<lambda>t. replicate EMBEDDING_DIM 0) ts)"


end
