(* ===== verification/Wiring.thy ===== *)
theory Wiring
  imports JobIndex Notifier Postgres
begin

text \<open>
  How the processes are put together: the lazily made singletons of
  \<open>services/cve_matching/runtime.py\<close>, \<open>services/gateway/runtime.py\<close>, \<open>services/ingestion/runtime.py\<close> and
  \<open>services/integration/job_index.py\<close>, and the lifespan of the composed application
  (\<open>services/integration/app.py\<close>): the table it creates, the consumer that builds the index of
  a completed job, and the sweeper. The lemmas show that a singleton is made once and which
  indexes the application holds.
\<close>

section \<open>Singletons\<close>

text \<open>
  A slot is \<open>None\<close> until something is put there. The getter makes the default from the environment
  of its call.
\<close>

locale singleton =
  fixes get :: "'env \<Rightarrow> 's \<Rightarrow> 'a \<times> 's"
    and put :: "'a option \<Rightarrow> 's \<Rightarrow> 's"
    and slot :: "'s \<Rightarrow> 'a option"
    and new :: "'env \<Rightarrow> 'a"
  assumes get_value: "fst (get e s) = (case slot s of None \<Rightarrow> new e | Some x \<Rightarrow> x)"
    and get_keeps: "slot (snd (get e s)) = Some (fst (get e s))"
    and put_slot: "slot (put x s) = x"
begin

text \<open>Once taken, it stays what it is, whatever becomes of the environment.\<close>

lemma get_again: "fst (get e' (snd (get e s))) = fst (get e s)"
  by (simp add: get_value get_keeps)

lemma get_put: "fst (get e (put (Some x) s)) = x"
  by (simp add: get_value put_slot)

lemma get_fresh: "fst (get e (put None s)) = new e"
  by (simp add: get_value put_slot)

end

record ('repo, 'artifact, 'report, 'feedback) cve_runtime =
  cvr_repo :: "'repo option"
  cvr_artifact_store :: "'artifact option"
  cvr_report_store :: "'report option"
  cvr_feedback_store :: "'feedback option"

definition get_repo where
  "get_repo new e s =
     (case cvr_repo s of None \<Rightarrow> (new e, s\<lparr>cvr_repo := Some (new e)\<rparr>) | Some x \<Rightarrow> (x, s))"

definition set_repo where "set_repo x s = s\<lparr>cvr_repo := x\<rparr>"

definition get_artifact_store where
  "get_artifact_store new e s =
     (case cvr_artifact_store s of None \<Rightarrow> (new e, s\<lparr>cvr_artifact_store := Some (new e)\<rparr>) | Some x \<Rightarrow> (x, s))"

definition set_artifact_store where "set_artifact_store x s = s\<lparr>cvr_artifact_store := x\<rparr>"

definition get_report_store where
  "get_report_store new e s =
     (case cvr_report_store s of None \<Rightarrow> (new e, s\<lparr>cvr_report_store := Some (new e)\<rparr>) | Some x \<Rightarrow> (x, s))"

definition set_report_store where "set_report_store x s = s\<lparr>cvr_report_store := x\<rparr>"

definition get_feedback_store where
  "get_feedback_store new e s =
     (case cvr_feedback_store s of None \<Rightarrow> (new e, s\<lparr>cvr_feedback_store := Some (new e)\<rparr>) | Some x \<Rightarrow> (x, s))"

definition set_feedback_store where "set_feedback_store x s = s\<lparr>cvr_feedback_store := x\<rparr>"

record ('storage, 'jobs, 'emitter) gateway_runtime =
  gwr_storage :: "'storage option"
  gwr_jobs_repo :: "'jobs option"
  gwr_emitter :: "'emitter option"

definition get_storage where
  "get_storage new e s =
     (case gwr_storage s of None \<Rightarrow> (new e, s\<lparr>gwr_storage := Some (new e)\<rparr>) | Some x \<Rightarrow> (x, s))"

definition set_storage where "set_storage x s = s\<lparr>gwr_storage := x\<rparr>"

definition get_jobs_repo where
  "get_jobs_repo new e s =
     (case gwr_jobs_repo s of None \<Rightarrow> (new e, s\<lparr>gwr_jobs_repo := Some (new e)\<rparr>) | Some x \<Rightarrow> (x, s))"

definition set_jobs_repo where "set_jobs_repo x s = s\<lparr>gwr_jobs_repo := x\<rparr>"

definition get_emitter where
  "get_emitter new e s =
     (case gwr_emitter s of None \<Rightarrow> (new e, s\<lparr>gwr_emitter := Some (new e)\<rparr>) | Some x \<Rightarrow> (x, s))"

definition set_emitter where "set_emitter x s = s\<lparr>gwr_emitter := x\<rparr>"

definition gateway_reset where
  "gateway_reset s = set_emitter None (set_jobs_repo None (set_storage None s))"

record ('blobs, 'extractor) ingestion_runtime =
  inr_blobstore :: "'blobs option"
  inr_extractor :: "'extractor option"

definition get_blobstore where
  "get_blobstore new e s =
     (case inr_blobstore s of None \<Rightarrow> (new e, s\<lparr>inr_blobstore := Some (new e)\<rparr>) | Some x \<Rightarrow> (x, s))"

definition set_blobstore where "set_blobstore x s = s\<lparr>inr_blobstore := x\<rparr>"

definition get_extractor where
  "get_extractor new e s =
     (case inr_extractor s of None \<Rightarrow> (new e, s\<lparr>inr_extractor := Some (new e)\<rparr>) | Some x \<Rightarrow> (x, s))"

definition set_extractor where "set_extractor x s = s\<lparr>inr_extractor := x\<rparr>"

definition ingestion_reset where
  "ingestion_reset s = set_extractor None (set_blobstore None s)"

text \<open>\<open>_manager\<close> is the only slot of its module.\<close>

definition get_manager :: "('env \<Rightarrow> 'm) \<Rightarrow> 'env \<Rightarrow> 'm option \<Rightarrow> 'm \<times> 'm option" where
  "get_manager new e s = (case s of None \<Rightarrow> (new e, Some (new e)) | Some m \<Rightarrow> (m, s))"

definition set_manager :: "'m option \<Rightarrow> 'm option \<Rightarrow> 'm option" where
  "set_manager x s = x"

lemmas runtime_defs =
  get_repo_def set_repo_def get_artifact_store_def set_artifact_store_def get_report_store_def
  set_report_store_def get_feedback_store_def set_feedback_store_def get_storage_def set_storage_def
  get_jobs_repo_def set_jobs_repo_def get_emitter_def set_emitter_def get_blobstore_def set_blobstore_def
  get_extractor_def set_extractor_def get_manager_def set_manager_def

interpretation repo_singleton: singleton "get_repo new" set_repo cvr_repo new for new
  by unfold_locales (simp_all add: runtime_defs split: option.split)

interpretation artifact_singleton: singleton "get_artifact_store new" set_artifact_store cvr_artifact_store new for new
  by unfold_locales (simp_all add: runtime_defs split: option.split)

interpretation report_singleton: singleton "get_report_store new" set_report_store cvr_report_store new for new
  by unfold_locales (simp_all add: runtime_defs split: option.split)

interpretation feedback_singleton: singleton "get_feedback_store new" set_feedback_store cvr_feedback_store new for new
  by unfold_locales (simp_all add: runtime_defs split: option.split)

interpretation storage_singleton: singleton "get_storage new" set_storage gwr_storage new for new
  by unfold_locales (simp_all add: runtime_defs split: option.split)

interpretation jobs_singleton: singleton "get_jobs_repo new" set_jobs_repo gwr_jobs_repo new for new
  by unfold_locales (simp_all add: runtime_defs split: option.split)

interpretation emitter_singleton: singleton "get_emitter new" set_emitter gwr_emitter new for new
  by unfold_locales (simp_all add: runtime_defs split: option.split)

interpretation blob_singleton: singleton "get_blobstore new" set_blobstore inr_blobstore new for new
  by unfold_locales (simp_all add: runtime_defs split: option.split)

interpretation extractor_singleton: singleton "get_extractor new" set_extractor inr_extractor new for new
  by unfold_locales (simp_all add: runtime_defs split: option.split)

interpretation manager_singleton: singleton "get_manager new" set_manager "\<lambda>s. s" new for new
  by unfold_locales (simp_all add: runtime_defs split: option.split)

text \<open>A reset makes every getter build anew.\<close>

lemma reset_rebuilds:
  "fst (get_storage new e (gateway_reset g)) = new e" "fst (get_emitter new' e (gateway_reset g)) = new' e"
  "fst (get_jobs_repo new'' e (gateway_reset g)) = new'' e"
  "fst (get_blobstore mk e (ingestion_reset i)) = mk e" "fst (get_extractor mk' e (ingestion_reset i)) = mk' e"
  by (simp_all add: gateway_reset_def ingestion_reset_def runtime_defs)

section \<open>Settings\<close>

text \<open>
  What the clients of the stores read from the environment: \<open>services/cve_matching/config.py\<close>,
  \<open>services/ingestion/blobstore.py\<close> and \<open>services/cve_matching/artifacts.py\<close>. An argument that is given, and
  not empty, wins.
\<close>

definition given :: "string option \<Rightarrow> string \<Rightarrow> string" where
  "given arg dflt = (case arg of None \<Rightarrow> dflt | Some v \<Rightarrow> if v = [] then dflt else v)"

definition postgres_dsn :: "environ \<Rightarrow> string" where
  "postgres_dsn os =
     given (dget os ''POSTGRES_DSN'')
       (''postgresql://'' @ getenv os ''POSTGRES_USER'' ''firmosaurus'' @ '':'' @
        getenv os ''POSTGRES_PASSWORD'' ''firmosaurus'' @ ''@'' @ getenv os ''POSTGRES_HOST'' ''localhost'' @ '':'' @
        getenv os ''POSTGRES_PORT'' ''5432'' @ ''/'' @ getenv os ''POSTGRES_DB'' ''firmosaurus'')"

record minio_settings =
  ms_endpoint :: string
  ms_access_key :: string
  ms_secret_key :: string
  ms_bucket :: string

definition blob_internal_endpoint :: "environ \<Rightarrow> string" where
  "blob_internal_endpoint os =
     (let endpoint = getenv os ''MINIO_ENDPOINT_INTERNAL'' ''minio:9000'';
          scheme = (if lower (getenv os ''MINIO_USE_SSL'' ''false'') = ''true'' then ''https'' else ''http'')
      in scheme @ ''://'' @ endpoint)"

definition blob_settings ::
  "environ \<Rightarrow> string option \<Rightarrow> string option \<Rightarrow> string option \<Rightarrow> string option \<Rightarrow> minio_settings" where
  "blob_settings os endpoint access secret named =
     \<lparr>ms_endpoint = given endpoint (blob_internal_endpoint os),
      ms_access_key = given access (getenv os ''MINIO_ROOT_USER'' ''minioadmin''),
      ms_secret_key = given secret (getenv os ''MINIO_ROOT_PASSWORD'' ''minioadmin''),
      ms_bucket = given named (getenv os ''MINIO_RAW_BUCKET'' ''raw-uploads'')\<rparr>"

definition artifact_settings ::
  "environ \<Rightarrow> string option \<Rightarrow> string option \<Rightarrow> string option \<Rightarrow> string option \<Rightarrow> bool option \<Rightarrow> minio_settings \<times> bool" where
  "artifact_settings os endpoint access secret named secure =
     (\<lparr>ms_endpoint = given endpoint (getenv os ''MINIO_ENDPOINT_INTERNAL'' ''minio:9000''),
       ms_access_key = given access (getenv os ''MINIO_ROOT_USER'' ''minioadmin''),
       ms_secret_key = given secret (getenv os ''MINIO_ROOT_PASSWORD'' ''minioadmin''),
       ms_bucket = given named (getenv os ''MINIO_ARTIFACTS_BUCKET'' ''artifacts'')\<rparr>,
      case secure of None \<Rightarrow> lower (getenv os ''MINIO_USE_SSL'' ''false'') = ''true'' | Some b \<Rightarrow> b)"

text \<open>The worker reads the objects where the gateway has put them.\<close>

lemma blob_store_is_gateways:
  "ms_endpoint (blob_settings os None None None None) = internal_endpoint_url os"
  "ms_bucket (blob_settings os None None None None) = RAW_BUCKET os"
  "ms_access_key (blob_settings os None None None None) = access_key os"
  "ms_secret_key (blob_settings os None None None None) = secret_key os"
  by (simp_all add: blob_settings_def given_def blob_internal_endpoint_def internal_endpoint_url_def url_of_def
      use_ssl_def RAW_BUCKET_def access_key_def secret_key_def Let_def)

text \<open>An environment that names the same bucket twice mixes raw uploads and artifacts; the defaults do not.\<close>

lemma default_buckets_differ:
  "ms_bucket (blob_settings [] None None None None) \<noteq> ms_bucket (fst (artifact_settings [] None None None None None))"
  by (simp add: blob_settings_def artifact_settings_def given_def getenv_def)

section \<open>app.py: the lifespan\<close>

text \<open>
  \<open>ia_consumer\<close> says whether the consumer thread runs. An event is a poll of that thread, with the
  reports of that moment and the time, or a tick of the sweeper, whose exceptions are logged.
\<close>

record index_app =
  ia_db :: pg_db
  ia_consumer :: bool
  ia_indexes :: indexes

datatype app_event = Polled poll report_docs pyfloat | Tick pyfloat

text \<open>The table first, best effort; then the consumer, if there is a broker to start it with.\<close>

definition app_startup :: "bool \<Rightarrow> bool \<Rightarrow> index_app \<Rightarrow> index_app" where
  "app_startup start_index_consumer broker s =
     (if start_index_consumer
      then s\<lparr>ia_db := snd (ensure_feedback_schema (ia_db s)), ia_consumer := broker\<rparr>
      else s)"

text \<open>The loop of \<open>NotifierConsumer.run\<close> with any callback on JSON objects.\<close>

definition consumer_poll :: "env \<Rightarrow> (string \<Rightarrow> payload \<Rightarrow> 's \<Rightarrow> 's) \<Rightarrow> poll \<Rightarrow> 's \<Rightarrow> 's" where
  "consumer_poll E callback p s =
     (case p of
        PollNone \<Rightarrow> s
      | PollError eof \<Rightarrow> s
      | PollMsg msg \<Rightarrow>
          (case km_value msg of
             None \<Rightarrow> s
           | Some raw \<Rightarrow>
               (case e_loads E raw of
                  Inr (JObj payload) \<Rightarrow> callback (km_topic msg) payload s
                | _ \<Rightarrow> s)))"

lemma notifier_poll_is_consumer_poll: "notifier_poll E = consumer_poll E on_event"
  by (intro ext) (simp add: notifier_poll_def consumer_poll_def)

definition app_step :: "env \<Rightarrow> (json \<Rightarrow> string) \<Rightarrow> embedder \<Rightarrow> int \<Rightarrow> index_app \<Rightarrow> app_event \<Rightarrow> index_app" where
  "app_step E rep emb ttl s ev =
     (case ev of
        Polled p docs now \<Rightarrow>
          if ia_consumer s
          then s\<lparr>ia_indexes := consumer_poll E (index_on_event rep emb now docs) p (ia_indexes s)\<rparr>
          else s
      | Tick now \<Rightarrow> s\<lparr>ia_indexes := snd (sweep ttl now (ia_indexes s))\<rparr>)"

definition app_run :: "env \<Rightarrow> (json \<Rightarrow> string) \<Rightarrow> embedder \<Rightarrow> int \<Rightarrow> app_event list \<Rightarrow> index_app \<Rightarrow> index_app" where
  "app_run E rep emb ttl evs s = foldl (app_step E rep emb ttl) s evs"

text \<open>What an index must come from.\<close>

definition built_by :: "env \<Rightarrow> (json \<Rightarrow> string) \<Rightarrow> app_event \<Rightarrow> string \<Rightarrow> job_index \<Rightarrow> bool" where
  "built_by E rep ev j i \<longleftrightarrow> (\<exists>msg raw payload docs now cs.
     ev = Polled (PollMsg msg) docs now \<and> km_topic msg = FIRMWARE_COMPLETED \<and> km_value msg = Some raw \<and>
     e_loads E raw = Inr (JObj payload) \<and> jget payload ''job_id'' = JStr j \<and>
     chunks_from_report rep (get_report j docs) [] = Inr cs \<and>
     ji_created_at i = now \<and> map fst (ji_entries i) = filter indexable cs)"

lemma index_on_event_cases:
  assumes "dget (index_on_event rep emb now docs topic payload idx) j = Some i"
  shows "dget idx j = Some i \<or>
    topic = FIRMWARE_COMPLETED \<and> jget payload ''job_id'' = JStr j \<and> ji_created_at i = now \<and>
      (\<exists>cs. chunks_from_report rep (get_report j docs) [] = Inr cs \<and> map fst (ji_entries i) = filter indexable cs)"
proof (cases "topic = FIRMWARE_COMPLETED \<and> (\<exists>k. jget payload ''job_id'' = JStr k \<and> k \<noteq> [])")
  case False
  then show ?thesis using assms by (auto simp: index_on_event_def split: json.splits if_splits)
next
  case True
  then obtain k where k: "topic = FIRMWARE_COMPLETED" "jget payload ''job_id'' = JStr k" "k \<noteq> []" by blast
  then have "dget (snd (build_for_job rep emb now docs k idx)) j = Some i"
    using assms by (simp add: index_on_event_def)
  then show ?thesis using k encode_entries_texts [of emb]
    by (auto simp: build_for_job_def build_def ebind_def lift_result_def split: sum.splits if_splits)
qed

lemma index_on_event_ok:
  "index_ok idx \<Longrightarrow> index_ok (index_on_event rep emb now docs topic payload idx)"
  by (auto simp: index_on_event_def build_for_job_def build_def ebind_def lift_result_def dset_ok
      split: json.splits sum.splits)

definition indexes_accounted :: "env \<Rightarrow> (json \<Rightarrow> string) \<Rightarrow> app_event list \<Rightarrow> indexes \<Rightarrow> bool" where
  "indexes_accounted E rep evs idx \<longleftrightarrow> index_ok idx \<and>
     (\<forall>j i. dget idx j = Some i \<longrightarrow> (\<exists>ev \<in> set evs. built_by E rep ev j i))"

lemma sweep_ok: "index_ok idx \<Longrightarrow> index_ok (snd (sweep ttl now idx))"
  by (simp add: sweep_def Let_def foldl_teardown_ok)

lemma sweep_subset:
  "index_ok idx \<Longrightarrow> dget (snd (sweep ttl now idx)) j = Some i \<Longrightarrow> dget idx j = Some i \<and> \<not> expired ttl now i"
  by (simp add: index_ok_def sweep_dget split: option.splits if_splits)

lemma poll_accounted:
  assumes "indexes_accounted E rep evs idx"
  shows "indexes_accounted E rep (evs @ [Polled p docs now]) (consumer_poll E (index_on_event rep emb now docs) p idx)"
proof -
  let ?idx = "consumer_poll E (index_on_event rep emb now docs) p idx"
  have same: "?idx = idx \<or> (\<exists>msg raw payload. p = PollMsg msg \<and> km_value msg = Some raw \<and>
      e_loads E raw = Inr (JObj payload) \<and> ?idx = index_on_event rep emb now docs (km_topic msg) payload idx)"
    by (auto simp: consumer_poll_def split: poll.split option.split sum.split json.split)
  then show ?thesis
  proof (elim disjE exE conjE)
    assume "?idx = idx"
    with assms show ?thesis by (auto simp: indexes_accounted_def)
  next
    fix msg raw payload
    assume m: "p = PollMsg msg" "km_value msg = Some raw" "e_loads E raw = Inr (JObj payload)"
      "?idx = index_on_event rep emb now docs (km_topic msg) payload idx"
    have "\<exists>ev \<in> set (evs @ [Polled p docs now]). built_by E rep ev j i" if "dget ?idx j = Some i" for j i
      using index_on_event_cases [OF that [unfolded m(4)]] assms m(1-3)
      by (auto simp: indexes_accounted_def built_by_def)
    then show ?thesis using assms index_on_event_ok m(4) by (simp add: indexes_accounted_def)
  qed
qed

lemma step_accounted:
  assumes "indexes_accounted E rep evs (ia_indexes s)"
  shows "indexes_accounted E rep (evs @ [ev]) (ia_indexes (app_step E rep emb ttl s ev))"
proof (cases ev)
  case (Polled p docs now)
  with poll_accounted [OF assms] assms show ?thesis by (auto simp: app_step_def indexes_accounted_def)
next
  case (Tick now)
  have ok: "index_ok (ia_indexes s)" using assms by (simp add: indexes_accounted_def)
  then show ?thesis
    using Tick assms sweep_ok [OF ok, of ttl now] sweep_subset [OF ok, of ttl now]
    by (fastforce simp: app_step_def indexes_accounted_def)
qed

lemma run_accounted: "ia_indexes s = [] \<Longrightarrow> indexes_accounted E rep evs (ia_indexes (app_run E rep emb ttl evs s))"
proof (induction evs rule: rev_induct)
  case (snoc ev evs)
  then show ?case using step_accounted by (simp add: app_run_def)
qed (simp add: app_run_def indexes_accounted_def index_ok_def)

lemma no_consumer_no_index:
  "ia_indexes s = [] \<Longrightarrow> \<not> ia_consumer s \<Longrightarrow> ia_indexes (app_run E rep emb ttl evs s) = []"
proof -
  assume s: "ia_indexes s = []" "\<not> ia_consumer s"
  have "ia_indexes (app_run E rep emb ttl evs s) = [] \<and> \<not> ia_consumer (app_run E rep emb ttl evs s)"
    using s by (induction evs rule: rev_induct) (auto simp: app_run_def app_step_def sweep_def split: app_event.split)
  then show ?thesis ..
qed

text \<open>
  C39. Whatever the consumer polls and whenever the sweeper ticks, every index the application holds was
  built by a \<open>firmware.completed\<close> event for its job, from the indexable chunks of that job's report
  at that moment; without a consumer there is none; and right after a tick none is older than
  its time to live.
\<close>

theorem app_holds_completed_jobs:
  assumes "ia_indexes s = []" "ia_consumer s = False"
    and "s' = app_run E rep emb ttl evs (app_startup start_index_consumer broker s)"
  shows "index_ok (ia_indexes s') \<and>
    (\<forall>j i. dget (ia_indexes s') j = Some i \<longrightarrow> (\<exists>ev \<in> set evs. built_by E rep ev j i)) \<and>
    (start_index_consumer \<and> broker \<or> ia_indexes s' = []) \<and>
    (\<forall>now j i. dget (ia_indexes (app_step E rep emb ttl s' (Tick now))) j = Some i \<longrightarrow>
       dget (ia_indexes s') j = Some i \<and> \<not> expired ttl now i)"
proof -
  let ?s = "app_startup start_index_consumer broker s"
  have init: "ia_indexes ?s = []" "ia_consumer ?s = (start_index_consumer \<and> broker)"
    using assms(1,2) by (simp_all add: app_startup_def)
  have acc: "indexes_accounted E rep evs (ia_indexes s')"
    unfolding assms(3) by (rule run_accounted) (rule init(1))
  then have ok: "index_ok (ia_indexes s')" by (simp add: indexes_accounted_def)
  have "start_index_consumer \<and> broker \<or> ia_indexes s' = []"
    using no_consumer_no_index [OF init(1), of E rep emb ttl evs] init(2) assms(3) by blast
  with acc ok sweep_subset [OF ok] show ?thesis by (simp add: indexes_accounted_def app_step_def)
qed

text \<open>
  The sweeper runs beside the consumer thread without a lock: an index that is rebuilt between the
  choice of the expired ones and their teardown is lost although it is new.
\<close>

lemma sweep_race:
  assumes "dget idx j = Some i" "expired ttl now i" "index_ok idx" "encode_entries emb chunks = Inr es"
  shows "dget (foldl (\<lambda>d jid. snd (teardown jid d)) (snd (build emb now j chunks idx)) (fst (sweep ttl now idx))) j = None"
proof -
  have "j \<in> set (fst (sweep ttl now idx))"
    using assms expired_keys [of idx j ttl now] by (auto simp: sweep_def Let_def index_ok_def)
  then show ?thesis by (simp add: foldl_teardown)
qed

definition sample_app :: index_app where
  "sample_app = \<lparr>ia_db = \<lparr>pd_corpus = None, pd_feedback = None, pd_faults = []\<rparr>, ia_consumer = False, ia_indexes = []\<rparr>"

definition sample_completion :: app_event where
  "sample_completion =
     Polled (PollMsg \<lparr>km_topic = FIRMWARE_COMPLETED, km_key = Some ''j'', km_value = Some ''v''\<rparr>) [] 7"

theorem app_holds_completed_jobs_witness:
  "ia_indexes (app_run sample_env (\<lambda>_. []) sample_embedder 3600 [sample_completion] (app_startup True True sample_app)) =
     [(''j'', \<lparr>ji_job_id = ''j'', ji_entries = [], ji_created_at = 7\<rparr>)] \<and>
   built_by sample_env (\<lambda>_. []) sample_completion ''j'' \<lparr>ji_job_id = ''j'', ji_entries = [], ji_created_at = 7\<rparr>"
proof -
  let ?s = "app_run sample_env (\<lambda>_. []) sample_embedder 3600 [sample_completion] (app_startup True True sample_app)"
  have "ia_indexes ?s = [(''j'', \<lparr>ji_job_id = ''j'', ji_entries = [], ji_created_at = 7\<rparr>)]"
    by (simp add: app_run_def app_startup_def sample_app_def app_step_def sample_completion_def consumer_poll_def
        sample_env_def index_on_event_def sample_payload_def jget_def build_for_job_def chunks_from_report_def get_report_def
        build_def eff_simps)
  then show ?thesis
    using app_holds_completed_jobs [OF _ _ refl, of sample_app sample_env "\<lambda>_. []" sample_embedder 3600
        "[sample_completion]" True True]
    by (simp add: sample_app_def)
qed

end
