(* ===== verification/Surface.thy ===== *)
theory Surface
  imports Wiring
begin

text \<open>
  The HTTP surface of the composed application (\<open>create_integration_app\<close> of
  \<open>services/integration/app.py\<close>): the routes of \<open>services/gateway/app.py\<close>, \<open>services/gateway/cve_api.py\<close>,
  \<open>services/integration/http.py\<close> and \<open>services/integration/reports_api.py\<close> in the order in which they are
  registered, and the token check, of which each module has a copy. The lemmas show that the copies
  agree, that no route hides another, and that every route but the health check is behind its permission.
\<close>

section \<open>The token check of each module\<close>

definition cve_api_claims :: "jwt_env \<Rightarrow> environ \<Rightarrow> string option \<Rightarrow> json result" where
  "cve_api_claims W os authorization =
     (if \<not> auth_enabled os then Inr (JObj [(''sub'', JStr ''dev''), (''role'', JStr ''admin'')])
      else
        let token = (case authorization of
                       None \<Rightarrow> None
                     | Some a \<Rightarrow> if a \<noteq> [] \<and> starts_with ''bearer '' (lower a) then Some (strip (drop 7 a)) else None)
        in case verify_token W os token of
             Inl (AuthError m) \<Rightarrow> Inl (HTTPException 401)
           | r \<Rightarrow> r)"

definition cve_api_require :: "jwt_env \<Rightarrow> environ \<Rightarrow> string \<Rightarrow> string option \<Rightarrow> json result" where
  "cve_api_require W os permission authorization =
     rbind (cve_api_claims W os authorization) (\<lambda>claims.
       case require_permission claims permission of
         Inl (AuthError m) \<Rightarrow> Inl (HTTPException 403)
       | Inl e \<Rightarrow> Inl e
       | Inr _ \<Rightarrow> Inr claims)"

definition http_claims :: "jwt_env \<Rightarrow> environ \<Rightarrow> string option \<Rightarrow> json result" where
  "http_claims W os authorization =
     (if \<not> auth_enabled os then Inr (JObj [(''sub'', JStr ''dev''), (''role'', JStr ''admin'')])
      else
        let token = (case authorization of
                       None \<Rightarrow> None
                     | Some a \<Rightarrow> if a \<noteq> [] \<and> starts_with ''bearer '' (lower a) then Some (strip (drop 7 a)) else None)
        in case verify_token W os token of
             Inl (AuthError m) \<Rightarrow> Inl (HTTPException 401)
           | r \<Rightarrow> r)"

definition http_require :: "jwt_env \<Rightarrow> environ \<Rightarrow> string \<Rightarrow> string option \<Rightarrow> json result" where
  "http_require W os permission authorization =
     rbind (http_claims W os authorization) (\<lambda>claims.
       case require_permission claims permission of
         Inl (AuthError m) \<Rightarrow> Inl (HTTPException 403)
       | Inl e \<Rightarrow> Inl e
       | Inr _ \<Rightarrow> Inr claims)"

definition reports_claims :: "jwt_env \<Rightarrow> environ \<Rightarrow> string option \<Rightarrow> json result" where
  "reports_claims W os authorization =
     (if \<not> auth_enabled os then Inr (JObj [(''sub'', JStr ''dev''), (''role'', JStr ''admin'')])
      else
        let token = (case authorization of
                       None \<Rightarrow> None
                     | Some a \<Rightarrow> if a \<noteq> [] \<and> starts_with ''bearer '' (lower a) then Some (strip (drop 7 a)) else None)
        in case verify_token W os token of
             Inl (AuthError m) \<Rightarrow> Inl (HTTPException 401)
           | r \<Rightarrow> r)"

definition reports_require :: "jwt_env \<Rightarrow> environ \<Rightarrow> string \<Rightarrow> string option \<Rightarrow> json result" where
  "reports_require W os permission authorization =
     rbind (reports_claims W os authorization) (\<lambda>claims.
       case require_permission claims permission of
         Inl (AuthError m) \<Rightarrow> Inl (HTTPException 403)
       | Inl e \<Rightarrow> Inl e
       | Inr _ \<Rightarrow> Inr claims)"

text \<open>So the handlers of \<open>CveApi\<close> may be stated over the check of the gateway.\<close>

lemma token_checks_agree: "cve_api_require = require" "http_require = require" "reports_require = require"
  by (simp_all add: fun_eq_iff cve_api_require_def http_require_def reports_require_def require_def
      cve_api_claims_def http_claims_def reports_claims_def request_claims_def bearer_token_def Let_def)

section \<open>The routes\<close>

text \<open>A parameter stands for one segment that is not empty.\<close>

datatype segment = Fixed string | Param

record route =
  ro_method :: string
  ro_path :: "segment list"
  ro_permission :: "string option"

fun path_matches :: "segment list \<Rightarrow> string list \<Rightarrow> bool" where
  "path_matches [] [] = True"
| "path_matches (Fixed s # ss) (p # ps) = (s = p \<and> path_matches ss ps)"
| "path_matches (Param # ss) (p # ps) = (p \<noteq> [] \<and> path_matches ss ps)"
| "path_matches _ _ = False"

definition gateway_routes :: "route list" where
  "gateway_routes =
     [\<lparr>ro_method = ''POST'', ro_path = [Fixed ''uploads''], ro_permission = Some ''upload''\<rparr>,
      \<lparr>ro_method = ''POST'', ro_path = [Fixed ''uploads'', Param, Fixed ''complete''], ro_permission = Some ''upload''\<rparr>,
      \<lparr>ro_method = ''GET'', ro_path = [Fixed ''jobs'', Param], ro_permission = Some ''view''\<rparr>]"

definition cve_routes :: "route list" where
  "cve_routes =
     [\<lparr>ro_method = ''POST'', ro_path = [Fixed ''cve'', Fixed ''chat''], ro_permission = Some ''view''\<rparr>,
      \<lparr>ro_method = ''POST'', ro_path = [Fixed ''cve'', Fixed ''feedback''], ro_permission = Some ''feedback''\<rparr>]"

definition http_routes :: "route list" where
  "http_routes =
     [\<lparr>ro_method = ''POST'', ro_path = [Fixed ''jobs'', Param, Fixed ''feedback''], ro_permission = Some ''feedback''\<rparr>,
      \<lparr>ro_method = ''GET'', ro_path = [Fixed ''config'', Fixed ''thresholds''], ro_permission = Some ''manage_config''\<rparr>,
      \<lparr>ro_method = ''POST'', ro_path = [Fixed ''config'', Fixed ''recalibrate''], ro_permission = Some ''manage_config''\<rparr>]"

definition reports_routes :: "route list" where
  "reports_routes =
     [\<lparr>ro_method = ''GET'', ro_path = [Fixed ''jobs''], ro_permission = Some ''view''\<rparr>,
      \<lparr>ro_method = ''GET'', ro_path = [Fixed ''jobs'', Param, Fixed ''report''], ro_permission = Some ''view''\<rparr>]"

definition surface_routes :: "route list" where
  "surface_routes = gateway_routes @ cve_routes @ http_routes @ reports_routes @
     [\<lparr>ro_method = ''GET'', ro_path = [Fixed ''healthz''], ro_permission = None\<rparr>]"

definition serves :: "string \<Rightarrow> string list \<Rightarrow> route \<Rightarrow> bool" where
  "serves verb path r \<longleftrightarrow> ro_method r = verb \<and> path_matches (ro_path r) path"

text \<open>The first route that matches answers.\<close>

definition find_route :: "string \<Rightarrow> string list \<Rightarrow> route option" where
  "find_route verb path = find (serves verb path) surface_routes"

section \<open>The application\<close>

datatype surface_request = Uploads request | Api api_request | Health

datatype surface_answer = UploadsAnswer answer | ApiAnswer api_answer | Healthy

definition on_first :: "('s, 'a) eff \<Rightarrow> ('s \<times> 't, 'a) eff" where
  "on_first m = (\<lambda>(s, t). case m s of (r, s') \<Rightarrow> (r, (s', t)))"

definition on_second :: "('t, 'a) eff \<Rightarrow> ('s \<times> 't, 'a) eff" where
  "on_second m = (\<lambda>(s, t). case m t of (r, t') \<Rightarrow> (r, (s, t')))"

text \<open>One process: all modules verify tokens with the same libraries and the same environment.\<close>

fun surface_serve ::
  "gateway_env \<Rightarrow> api_env \<Rightarrow> surface_request \<Rightarrow> (gateway_state \<times> api_state, surface_answer) eff" where
  "surface_serve G A (Uploads r) = ebind (on_first (serve G r)) (\<lambda>a. ret (UploadsAnswer a))"
| "surface_serve G A (Api r) =
     ebind (on_second (api_serve (A\<lparr>ae_jwt := ge_jwt G, ae_os := ge_os G\<rparr>) r)) (\<lambda>a. ret (ApiAnswer a))"
| "surface_serve G A Health = ret Healthy"

fun request_line :: "surface_request \<Rightarrow> string \<times> string list" where
  "request_line (Uploads (PostUploads a r)) = (''POST'', [''uploads''])"
| "request_line (Uploads (PostComplete a j r)) = (''POST'', [''uploads'', j, ''complete''])"
| "request_line (Uploads (GetJob a j)) = (''GET'', [''jobs'', j])"
| "request_line (Api (PostChat a j q k)) = (''POST'', [''cve'', ''chat''])"
| "request_line (Api (PostCveFeedback a j c v)) = (''POST'', [''cve'', ''feedback''])"
| "request_line (Api (PostJobFeedback a j c v)) = (''POST'', [''jobs'', j, ''feedback''])"
| "request_line (Api (GetThresholds a)) = (''GET'', [''config'', ''thresholds''])"
| "request_line (Api (PostRecalibrate a)) = (''POST'', [''config'', ''recalibrate''])"
| "request_line (Api (GetJobs a)) = (''GET'', [''jobs''])"
| "request_line (Api (GetReport a j)) = (''GET'', [''jobs'', j, ''report''])"
| "request_line Health = (''GET'', [''healthz''])"

fun surface_credential :: "surface_request \<Rightarrow> string option" where
  "surface_credential (Uploads r) = credential r"
| "surface_credential (Api r) = api_credential r"
| "surface_credential Health = None"

lemmas route_defs = surface_routes_def gateway_routes_def cve_routes_def http_routes_def reports_routes_def

section \<open>No route hides another\<close>

fun overlap :: "segment list \<Rightarrow> segment list \<Rightarrow> bool" where
  "overlap [] [] = True"
| "overlap (Fixed s # ss) (Fixed t # ts) = (s = t \<and> overlap ss ts)"
| "overlap (s # ss) (t # ts) = overlap ss ts"
| "overlap _ _ = False"

lemma both_match_overlap: "path_matches ss path \<Longrightarrow> path_matches ts path \<Longrightarrow> overlap ss ts"
proof (induction ss path arbitrary: ts rule: path_matches.induct)
  case 1
  then show ?case by (cases ts) simp_all
next
  case (2 s ss p ps)
  then show ?case by (cases "(ts, p # ps)" rule: path_matches.cases) simp_all
next
  case (3 ss p ps)
  then show ?case by (cases "(ts, p # ps)" rule: path_matches.cases) simp_all
qed simp_all

lemma routes_disjoint:
  "sorted_wrt (\<lambda>r r'. \<not> (ro_method r = ro_method r' \<and> overlap (ro_path r) (ro_path r'))) surface_routes"
  by (simp add: route_defs)

lemma served_once:
  assumes "r \<in> set surface_routes" "r' \<in> set surface_routes" "serves verb path r" "serves verb path r'"
  shows "r = r'"
proof -
  obtain i j where i: "i < length surface_routes" "r = surface_routes ! i"
    and j: "j < length surface_routes" "r' = surface_routes ! j"
    using assms(1,2) by (metis in_set_conv_nth)
  have "ro_method r = ro_method r'" "overlap (ro_path r) (ro_path r')" "overlap (ro_path r') (ro_path r)"
    using assms(3,4) by (auto simp: serves_def intro: both_match_overlap)
  then have "\<not> i < j" "\<not> j < i"
    using routes_disjoint i j unfolding sorted_wrt_iff_nth_less by metis+
  with i j show ?thesis by simp
qed

lemma find_route_iff: "find_route verb path = Some r \<longleftrightarrow> r \<in> set surface_routes \<and> serves verb path r"
proof
  assume "find_route verb path = Some r"
  then show "r \<in> set surface_routes \<and> serves verb path r" unfolding find_route_def by (rule find_SomeD)
next
  assume r: "r \<in> set surface_routes \<and> serves verb path r"
  then obtain r' where r': "find_route verb path = Some r'"
    by (cases "find_route verb path") (auto simp: find_route_def find_None_iff)
  then have "r' \<in> set surface_routes \<and> serves verb path r'" unfolding find_route_def by (rule find_SomeD)
  with r r' show "find_route verb path = Some r" using served_once by metis
qed

section \<open>Every route is behind its permission\<close>

lemma refused_first: "m s = (Inl e, s) \<Longrightarrow> ebind (on_first m) f (s, t) = (Inl e, (s, t))"
  by (simp add: on_first_def)

lemma refused_second: "m t = (Inl e, t) \<Longrightarrow> ebind (on_second m) f (s, t) = (Inl e, (s, t))"
  by (simp add: on_second_def)

definition route_of :: "surface_request \<Rightarrow> route option" where
  "route_of rq = find_route (fst (request_line rq)) (snd (request_line rq))"

lemma request_route:
  "serves (fst (request_line rq)) (snd (request_line rq)) r \<Longrightarrow> r \<in> set surface_routes \<Longrightarrow>
   (case rq of
      Uploads (PostUploads a q) \<Rightarrow> ro_permission r = Some ''upload''
    | Uploads (PostComplete a j q) \<Rightarrow> ro_permission r = Some ''upload''
    | Uploads (GetJob a j) \<Rightarrow> ro_permission r = Some ''view''
    | Api (PostChat a j q k) \<Rightarrow> ro_permission r = Some ''view''
    | Api (PostCveFeedback a j c v) \<Rightarrow> ro_permission r = Some ''feedback''
    | Api (PostJobFeedback a j c v) \<Rightarrow> ro_permission r = Some ''feedback''
    | Api (GetThresholds a) \<Rightarrow> ro_permission r = Some ''manage_config''
    | Api (PostRecalibrate a) \<Rightarrow> ro_permission r = Some ''manage_config''
    | Api (GetJobs a) \<Rightarrow> ro_permission r = Some ''view''
    | Api (GetReport a j) \<Rightarrow> ro_permission r = Some ''view''
    | Health \<Rightarrow> ro_permission r = None)"
  by (cases rq rule: request_line.cases) (auto simp: route_defs serves_def)

lemma gateway_refuses:
  "require (ge_jwt G) (ge_os G) ''upload'' a = Inl e \<Longrightarrow> create_upload G a q s = (Inl e, s)"
  "require (ge_jwt G) (ge_os G) ''upload'' a = Inl e \<Longrightarrow> complete_upload G a j q' s = (Inl e, s)"
  "require (ge_jwt G) (ge_os G) ''view'' a = Inl e \<Longrightarrow> get_job G a j s = (Inl e, s)"
  by (simp_all add: create_upload_def complete_upload_def get_job_def lift_result_def ebind_def)

lemma api_refuses:
  "require (ae_jwt A) (ae_os A) ''view'' a = Inl e \<Longrightarrow> cve_chat A a j q k t = (Inl e, t)"
  "require (ae_jwt A) (ae_os A) ''feedback'' a = Inl e \<Longrightarrow> cve_feedback A a j c v t = (Inl e, t)"
  "require (ae_jwt A) (ae_os A) ''feedback'' a = Inl e \<Longrightarrow> job_feedback A a j (c, v) t = (Inl e, t)"
  "require (ae_jwt A) (ae_os A) ''manage_config'' a = Inl e \<Longrightarrow> get_thresholds A a t = (Inl e, t)"
  "require (ae_jwt A) (ae_os A) ''manage_config'' a = Inl e \<Longrightarrow> post_recalibrate A a t = (Inl e, t)"
  "require (ae_jwt A) (ae_os A) ''view'' a = Inl e \<Longrightarrow> list_jobs A a t = (Inl e, t)"
  "require (ae_jwt A) (ae_os A) ''view'' a = Inl e \<Longrightarrow> get_report_route A a j t = (Inl e, t)"
  by (simp_all add: cve_chat_def cve_feedback_def job_feedback_def get_thresholds_def post_recalibrate_def
      list_jobs_def get_report_route_def lift_result_def ebind_def)

end
