(* ===== verification/DevScripts.thy ===== *)
theory DevScripts
  imports Router
begin

text \<open>
  The checks that CI runs and the harness beside the brokers (\<open>scripts/schema_lint.py\<close>,
  \<open>scripts/check_handler_boundaries.py\<close>, \<open>scripts/kafka_io.py\<close>, \<open>scripts/emit_test_event.py\<close>,
  \<open>scripts/consume_topic.py\<close>, \<open>scripts/roundtrip_test.py\<close>). The lemmas say exactly when the checks
  pass, which calls between handlers the static one sees and which it does not, and that an
  event the harness emits comes back as it was.
\<close>

section \<open>schema_lint.py\<close>

text \<open>The sample files in order: the stem of the name, and the parsed content or the exception.\<close>

type_synonym samples = "(string \<times> json result) list"

definition lint_errors :: "coercers \<Rightarrow> samples \<Rightarrow> string list" where
  "lint_errors C samples =
     concat (map (\<lambda>(topic, content). case rbind content (validate_payload C topic) of Inl e \<Rightarrow> [topic] | Inr _ \<Rightarrow> []) samples)"

definition lint_missing :: "samples \<Rightarrow> string list" where
  "lint_missing samples = sort (filter (\<lambda>t. t \<notin> set (map fst samples)) (dkeys TOPIC_MODELS))"

definition schema_lint :: "coercers \<Rightarrow> samples \<Rightarrow> int" where
  "schema_lint C samples =
     (if samples = [] then 1
      else if lint_errors C samples @ lint_missing samples \<noteq> [] then 1 else 0)"

text \<open>\<open>check_all_samples\<close> of the round trip stops at the first sample that is off.\<close>

fun check_all_samples :: "coercers \<Rightarrow> samples \<Rightarrow> string list result" where
  "check_all_samples C [] = Inr []"
| "check_all_samples C ((topic, content) # samples) =
     rbind content (\<lambda>payload. rbind (validate_payload C topic payload) (\<lambda>_.
     rbind (check_all_samples C samples) (\<lambda>topics. Inr (topic # topics))))"

section \<open>check_handler_boundaries.py\<close>

text \<open>A syntax tree as far as the check looks at it; \<open>ast.walk\<close> goes breadth first.\<close>

datatype node =
    FunctionDef string "node list"
  | AsyncFunctionDef string "node list"
  | Call node "node list" nat
  | Name string
  | Attribute node string
  | Other "node list"

fun children :: "node \<Rightarrow> node list" where
  "children (FunctionDef n body) = body"
| "children (AsyncFunctionDef n body) = body"
| "children (Call f args l) = f # args"
| "children (Name i) = []"
| "children (Attribute v a) = [v]"
| "children (Other ns) = ns"

lemma children_smaller: "sum_list (map (\<lambda>c. Suc (size c)) (children n)) \<le> size n"
  by (cases n) (simp_all add: size_list_conv_sum_list sum_list_Suc)

function ast_walk :: "node list \<Rightarrow> node list" where
  "ast_walk [] = []"
| "ast_walk (n # todo) = n # ast_walk (todo @ children n)"
  by pat_completeness auto
termination
  by (relation "measure (\<lambda>todo. sum_list (map (\<lambda>c. Suc (size c)) todo))")
    (use children_smaller in \<open>auto simp: less_Suc_eq_le\<close>)

definition handler_name :: "node \<Rightarrow> string list" where
  "handler_name n =
     (case n of
        FunctionDef f body \<Rightarrow> if starts_with ''handle_'' f then [f] else []
      | AsyncFunctionDef f body \<Rightarrow> if starts_with ''handle_'' f then [f] else []
      | _ \<Rightarrow> [])"

definition handler_funcs :: "node \<Rightarrow> string list" where
  "handler_funcs tree = concat (map handler_name (ast_walk [tree]))"

definition called_name :: "node \<Rightarrow> (string \<times> nat) list" where
  "called_name n =
     (case n of
        Call f args line \<Rightarrow>
          (case f of Name i \<Rightarrow> [(i, line)] | Attribute v a \<Rightarrow> [(a, line)] | _ \<Rightarrow> [])
      | _ \<Rightarrow> [])"

definition calls_in :: "node \<Rightarrow> (string \<times> nat) list" where
  "calls_in tree = concat (map called_name (ast_walk [tree]))"

type_synonym modules = "(string \<times> node) list"

definition handler_owner :: "modules \<Rightarrow> (string, string) dict" where
  "handler_owner files =
     foldl (\<lambda>d (p, tree). foldl (\<lambda>d name. dset name p d) d (handler_funcs tree)) [] files"

definition boundary_violations :: "modules \<Rightarrow> (string \<times> nat \<times> string \<times> string) list" where
  "boundary_violations files =
     concat (map (\<lambda>(p, tree).
       concat (map (\<lambda>(name, line).
         if name \<noteq> [] \<and> dget (handler_owner files) name \<noteq> None \<and> name \<notin> set (handler_funcs tree)
         then [(p, line, name, the (dget (handler_owner files) name))] else [])
         (calls_in tree))) files)"

definition check_boundaries :: "modules \<Rightarrow> int" where
  "check_boundaries files =
     (if files = [] then 1 else if boundary_violations files \<noteq> [] then 1 else 0)"

section \<open>kafka_io.py and the scripts around it\<close>

definition produce_event :: "env \<Rightarrow> bool \<Rightarrow> string \<Rightarrow> payload \<Rightarrow> ('z router_state_scheme, json) eff" where
  "produce_event E check topic payload =
     ebind (if check then lift_result (validate_payload (e_coerce E) topic (JObj payload)) else ret payload) (\<lambda>payload.
     let key = partition_key topic payload in
     ebind (lift_result (encode_key key)) (\<lambda>k.
     ebind (produce \<lparr>km_topic = topic, km_key = k, km_value = Some (e_dumps E (JObj payload))\<rparr>) (\<lambda>_.
     ret key)))"

text \<open>\<open>emit_test_event.py\<close>: the arguments, the parsed file, the exit code.\<close>

definition emit_main :: "env \<Rightarrow> string list \<Rightarrow> payload result \<Rightarrow> ('z router_state_scheme, int) eff" where
  "emit_main E argv file =
     (case argv of
        [_, topic, path] \<Rightarrow>
          (case file of
             Inl e \<Rightarrow> ret 1
           | Inr payload \<Rightarrow>
               catch (ebind (produce_event E True topic payload) (\<lambda>key. ret 0)) (\<lambda>e. ret 1))
      | _ \<Rightarrow> ret 2)"

text \<open>
  \<open>consume_topic.py\<close> over the polls until the interrupt: what it prints, and stops after \<open>count\<close>
  messages unless that is 0. A message without a value is not decoded.
\<close>

definition decoded :: "env \<Rightarrow> kmsg \<Rightarrow> json result" where
  "decoded E msg =
     (case km_value msg of
        None \<Rightarrow> Inl (AttributeError ''decode'')
      | Some raw \<Rightarrow> (case e_loads E raw of Inl e \<Rightarrow> Inr (JStr raw) | Inr j \<Rightarrow> Inr j))"

fun consume_main :: "env \<Rightarrow> nat \<Rightarrow> nat \<Rightarrow> poll list \<Rightarrow> (string option \<times> json) list result" where
  "consume_main E count seen [] = Inr []"
| "consume_main E count seen (PollMsg msg # ps) =
     rbind (decoded E msg) (\<lambda>v.
     if count \<noteq> 0 \<and> count \<le> seen + 1 then Inr [(km_key msg, v)]
     else rbind (consume_main E count (seen + 1) ps) (\<lambda>out. Inr ((km_key msg, v) # out)))"
| "consume_main E count seen (_ # ps) = consume_main E count seen ps"

text \<open>
  \<open>roundtrip_test.py\<close>: the first of the next 40 polls whose job id is the marker. A value that is
  not JSON, or not an object, ends the test.
\<close>

fun await_marker :: "env \<Rightarrow> string \<Rightarrow> poll list \<Rightarrow> kmsg option result" where
  "await_marker E marker [] = Inr None"
| "await_marker E marker (PollMsg msg # ps) =
     (case km_value msg of
        None \<Rightarrow> Inl (TypeError ''loads'')
      | Some raw \<Rightarrow>
          rbind (e_loads E raw) (\<lambda>j.
          (case j of
             JObj d \<Rightarrow> if jget d ''job_id'' = JStr marker then Inr (Some msg) else await_marker E marker ps
           | _ \<Rightarrow> Inl (AttributeError ''get''))))"
| "await_marker E marker (_ # ps) = await_marker E marker ps"

text \<open>The message the test produces, and the test on the polls that follow.\<close>

definition roundtrip_message :: "env \<Rightarrow> string \<Rightarrow> payload \<Rightarrow> string \<Rightarrow> kmsg result" where
  "roundtrip_message E topic sample marker =
     rbind (validate_payload (e_coerce E) topic (JObj sample)) (\<lambda>payload.
     let payload = dset ''job_id'' (JStr marker) payload in
     rbind (encode_key (partition_key topic payload)) (\<lambda>k.
     Inr \<lparr>km_topic = topic, km_key = k, km_value = Some (e_dumps E (JObj payload))\<rparr>))"

definition roundtrip :: "env \<Rightarrow> string \<Rightarrow> payload \<Rightarrow> string \<Rightarrow> poll list \<Rightarrow> unit result" where
  "roundtrip E topic sample marker polls =
     rbind (roundtrip_message E topic sample marker) (\<lambda>sent.
     rbind (await_marker E marker (take 40 polls)) (\<lambda>matched.
     (case matched of
        None \<Rightarrow> Inl (RuntimeError ''AssertionError'')
      | Some got \<Rightarrow>
          if km_key got \<noteq> km_key sent then Inl (RuntimeError ''AssertionError'')
          else rbind (e_loads E (the (km_value got))) (\<lambda>a.
               rbind (e_loads E (the (km_value sent))) (\<lambda>b.
               if a = b then Inr () else Inl (RuntimeError ''AssertionError''))))))"

section \<open>When the checks pass\<close>

definition sample_ok :: "coercers \<Rightarrow> string \<times> json result \<Rightarrow> bool" where
  "sample_ok C s \<longleftrightarrow> (\<exists>p. rbind (snd s) (validate_payload C (fst s)) = Inr p)"

lemma lint_errors_Nil: "lint_errors C samples = [] \<longleftrightarrow> list_all (sample_ok C) samples"
proof (induction samples)
  case (Cons s samples)
  obtain t c where s: "s = (t, c)" by (cases s)
  have step: "lint_errors C (s # samples) =
      (case rbind c (validate_payload C t) of Inl e \<Rightarrow> [t] | Inr _ \<Rightarrow> []) @ lint_errors C samples"
    by (simp add: s lint_errors_def)
  show ?case
    unfolding step using Cons by (cases "rbind c (validate_payload C t)") (simp_all add: s sample_ok_def del: rbind_eq_Inr)
qed (simp add: lint_errors_def)

lemma check_all_samples_iff:
  "check_all_samples C samples = Inr ts \<longleftrightarrow> ts = map fst samples \<and> list_all (sample_ok C) samples"
proof (induction samples arbitrary: ts)
  case (Cons s samples)
  obtain t c where s: "s = (t, c)" by (cases s)
  show ?case unfolding s by (auto simp: Cons sample_ok_def)
qed auto

text \<open>
  The schema check passes exactly if there are samples, each of them parses and validates against
  the contract of the topic it is named after, and every topic has one; and the offline round
  trip accepts the samples exactly if they all validate.
\<close>

theorem schema_lint_exact:
  "(schema_lint C samples = 0) =
     (samples \<noteq> [] \<and> list_all (sample_ok C) samples \<and> set ALL_TOPICS \<subseteq> set (map fst samples)) \<and>
   (check_all_samples C samples = Inr ts) = (ts = map fst samples \<and> list_all (sample_ok C) samples)"
proof -
  have "lint_missing samples = [] \<longleftrightarrow> set ALL_TOPICS \<subseteq> set (map fst samples)"
    by (auto simp: lint_missing_def TOPIC_MODELS_keys filter_empty_conv simp flip: set_empty)
  then show ?thesis by (simp add: schema_lint_def lint_errors_Nil check_all_samples_iff)
qed

section \<open>Calls between handlers\<close>

inductive below :: "node \<Rightarrow> node \<Rightarrow> bool" where
  "below n n"
| "m \<in> set (children n) \<Longrightarrow> below m k \<Longrightarrow> below n k"

inductive_cases belowE: "below n k"

lemma set_ast_walk: "set (ast_walk todo) = {k. \<exists>n \<in> set todo. below n k}"
proof (induction todo rule: ast_walk.induct)
  case (2 n todo)
  have "below n k \<longleftrightarrow> k = n \<or> (\<exists>m \<in> set (children n). below m k)" for k
    by (auto intro: below.intros elim: belowE)
  with 2 show ?case by auto
qed simp

lemma set_ast_walk_tree: "set (ast_walk [tree]) = {k. below tree k}"
  by (simp only: set_ast_walk) simp

definition defines_handler :: "node \<Rightarrow> string \<Rightarrow> bool" where
  "defines_handler tree f \<longleftrightarrow> starts_with ''handle_'' f \<and>
     (\<exists>body. below tree (FunctionDef f body) \<or> below tree (AsyncFunctionDef f body))"

definition calls_by_name :: "node \<Rightarrow> string \<Rightarrow> bool" where
  "calls_by_name tree f \<longleftrightarrow>
     (\<exists>args line. below tree (Call (Name f) args line) \<or> (\<exists>v. below tree (Call (Attribute v f) args line)))"

lemma handler_name_iff:
  "f \<in> set (handler_name n) \<longleftrightarrow> starts_with ''handle_'' f \<and> (\<exists>body. n = FunctionDef f body \<or> n = AsyncFunctionDef f body)"
  by (cases n) (auto simp: handler_name_def)

lemma called_name_iff:
  "(f, line) \<in> set (called_name n) \<longleftrightarrow> (\<exists>args. n = Call (Name f) args line \<or> (\<exists>v. n = Call (Attribute v f) args line))"
  by (cases n) (auto simp: called_name_def split: node.splits)

lemma handler_funcs_iff: "f \<in> set (handler_funcs tree) \<longleftrightarrow> defines_handler tree f"
  by (auto simp: handler_funcs_def set_ast_walk_tree handler_name_iff defines_handler_def simp del: ast_walk.simps)

lemma calls_iff: "(\<exists>line. (f, line) \<in> set (calls_in tree)) \<longleftrightarrow> calls_by_name tree f"
  by (auto simp: calls_in_def set_ast_walk_tree called_name_iff calls_by_name_def simp del: ast_walk.simps)

lemma handler_owner_iff:
  "dget (handler_owner files) f = None \<longleftrightarrow> \<not> (\<exists>(p, tree) \<in> set files. defines_handler tree f)"
proof -
  have inner: "dget (foldl (\<lambda>d name. dset name p d) d names) f = None \<longleftrightarrow> dget d f = None \<and> f \<notin> set names"
    for d names and p :: string
    by (induction names arbitrary: d) auto
  have "dget (foldl (\<lambda>d (p, tree). foldl (\<lambda>d name. dset name p d) d (handler_funcs tree)) d files) f = None \<longleftrightarrow>
      dget d f = None \<and> \<not> (\<exists>(p, tree) \<in> set files. defines_handler tree f)" for d
    by (induction files arbitrary: d) (auto simp: inner handler_funcs_iff)
  from this [of "[]"] show ?thesis by (simp add: handler_owner_def)
qed

text \<open>
  The boundary check passes exactly if there are handler modules and none of them calls, by its name
  or as an attribute and at any depth, a \<open>handle_\<close> function that another module defines and it does not.
\<close>

theorem boundary_check_exact:
  "(check_boundaries files = 0) =
     (files \<noteq> [] \<and>
      \<not> (\<exists>p tree q other f. (p, tree) \<in> set files \<and> (q, other) \<in> set files \<and>
           calls_by_name tree f \<and> defines_handler other f \<and> \<not> defines_handler tree f))"
proof -
  have "f \<noteq> []" if "defines_handler tree f" for tree f
    using that by (auto simp: defines_handler_def starts_with_def)
  moreover have "boundary_violations files = [] \<longleftrightarrow>
      (\<forall>(p, tree) \<in> set files. \<forall>(f, line) \<in> set (calls_in tree).
         \<not> (f \<noteq> [] \<and> dget (handler_owner files) f \<noteq> None \<and> \<not> defines_handler tree f))"
  proof -
    have empty: "concat (map f xs) = [] \<longleftrightarrow> (\<forall>x \<in> set xs. f x = [])" for f :: "'a \<Rightarrow> 'b list" and xs
      by simp
    have single: "(if P then [x] else []) = [] \<longleftrightarrow> \<not> P" for P and x :: 'c
      by simp
    show ?thesis
      unfolding boundary_violations_def handler_funcs_iff case_prod_unfold empty single by (rule refl)
  qed
  ultimately have "boundary_violations files = [] \<longleftrightarrow>
      \<not> (\<exists>(p, tree) \<in> set files. \<exists>f. (\<exists>line. (f, line) \<in> set (calls_in tree)) \<and>
           dget (handler_owner files) f \<noteq> None \<and> \<not> defines_handler tree f)"
    unfolding handler_owner_iff by fast
  also have "\<dots> \<longleftrightarrow> \<not> (\<exists>p tree q other f. (p, tree) \<in> set files \<and> (q, other) \<in> set files \<and>
           calls_by_name tree f \<and> defines_handler other f \<and> \<not> defines_handler tree f)"
    unfolding handler_owner_iff calls_iff by fast
  finally show ?thesis by (simp add: check_boundaries_def)
qed

text \<open>A handler that is called under another name, as after an assignment, is not seen.\<close>

lemma alias_is_not_seen:
  "check_boundaries
     [(''a.py'', Other [FunctionDef ''handle_a'' [Other [Name ''h'', Name ''handle_b''], Call (Name ''h'') [] 3]]),
      (''b.py'', Other [FunctionDef ''handle_b'' []])] = 0"
  "check_boundaries
     [(''a.py'', Other [FunctionDef ''handle_a'' [Call (Name ''handle_b'') [] 3]]),
      (''b.py'', Other [FunctionDef ''handle_b'' []])] = 1"
  by code_simp+

section \<open>An event comes back\<close>

definition other_poll :: "env \<Rightarrow> string \<Rightarrow> poll \<Rightarrow> bool" where
  "other_poll E marker p \<longleftrightarrow>
     (case p of
        PollMsg msg \<Rightarrow> (\<exists>raw d. km_value msg = Some raw \<and> e_loads E raw = Inr (JObj d) \<and> jget d ''job_id'' \<noteq> JStr marker)
      | _ \<Rightarrow> True)"

lemma await_marker_skips:
  "list_all (other_poll E marker) pre \<Longrightarrow> await_marker E marker (pre @ ps) = await_marker E marker ps"
proof (induction pre)
  case (Cons p pre)
  then show ?case by (cases p) (auto simp: other_poll_def)
qed simp

text \<open>
  The round trip succeeds if the codec reads what it wrote and the message comes within 40 polls,
  whatever other jobs' messages come before it; a message before it that is not JSON makes the test
  raise, although the broker works.
\<close>

theorem harness_roundtrip:
  assumes "roundtrip_message E topic sample marker = Inr sent"
    and "validate_payload (e_coerce E) topic (JObj sample) = Inr payload"
    and "p = dset ''job_id'' (JStr marker) payload" "e_loads E (e_dumps E (JObj p)) = Inr (JObj p)"
    and "list_all (other_poll E marker) pre" "length pre < 40"
  shows "roundtrip E topic sample marker (pre @ PollMsg sent # post) = Inr () \<and>
    (km_value bad = Some raw \<and> e_loads E raw = Inl e \<longrightarrow>
       roundtrip E topic sample marker (pre @ PollMsg bad # post) = Inl e)"
proof -
  have "40 - length pre = Suc (39 - length pre)" using assms(6) by simp
  then have first_polls: "take 40 (pre @ m # post) = pre @ m # take (39 - length pre) post" for m
    using assms(6) by simp
  have sent: "km_value sent = Some (e_dumps E (JObj p))"
    using assms(1-3) by (auto simp: roundtrip_message_def Let_def)
  have "jget p ''job_id'' = JStr marker" using assms(3) by (simp add: jget_def)
  then have "await_marker E marker (pre @ PollMsg sent # ps) = Inr (Some sent)" for ps
    by (simp add: await_marker_skips [OF assms(5)] sent assms(4))
  then have ok: "roundtrip E topic sample marker (pre @ PollMsg sent # post) = Inr ()"
    unfolding roundtrip_def first_polls assms(1) by (simp add: sent assms(4))
  have "roundtrip E topic sample marker (pre @ PollMsg bad # post) = Inl e"
    if "km_value bad = Some raw" "e_loads E raw = Inl e"
    unfolding roundtrip_def first_polls assms(1) await_marker_skips [OF assms(5)] using that by simp
  with ok show ?thesis by blast
qed

theorem harness_roundtrip_witness:
  "roundtrip sample_env FIRMWARE_UPLOADED sample_payload ''j'' [PollNone, PollMsg sample_msg] = Inr ()"
proof -
  have valid: "validate_payload (e_coerce sample_env) FIRMWARE_UPLOADED (JObj sample_payload) = Inr sample_payload"
    using sample_validates by (simp add: sample_env_def)
  have same: "sample_payload = dset ''job_id'' (JStr ''j'') sample_payload" by (simp add: sample_payload_def)
  have sent: "roundtrip_message sample_env FIRMWARE_UPLOADED sample_payload ''j'' = Inr sample_msg"
    unfolding roundtrip_message_def valid
    by (simp add: Let_def flip: same)
      (simp add: sample_msg_def sample_env_def sample_payload_def partition_key_def encode_key_def jget_def
        SUB_BLOB_KEYED_TOPICS_def topic_defs)
  show ?thesis
    using harness_roundtrip [OF sent valid same, of "[PollNone]" "[]"]
    by (simp add: sample_env_def other_poll_def)
qed

section \<open>The harness produces what the router does\<close>

lemma produce_event_is_emit: "ebind (produce_event E True topic payload) (\<lambda>_. ret ()) = emit E topic payload"
  by (auto simp: fun_eq_iff produce_event_def emit_def ebind_def lift_result_def ret_def Let_def
      split: sum.split prod.split)

text \<open>An event that is off its contract is not produced, and the exit code says so.\<close>

lemma emit_main_refuses:
  assumes "validate_payload (e_coerce E) topic (JObj payload) = Inl e"
  shows "emit_main E [prog, topic, path] (Inr payload) s = (Inr 1, s)"
  using assms by (simp add: emit_main_def produce_event_def catch_def ebind_def lift_result_def ret_def)

end
