(* ===== verification/Spec2Isabelle.thy ===== *)
theory Spec2Isabelle
  imports Unpack Hardening Aggregator Matcher DlqReplay FeedbackLoop Gateway JobIndex Notifier Pipeline Sandbox CveApi
    MongoReports Production JobsTable ObjectStores EtlPostgres Surface DevScripts
begin

text \<open>
  Firmosaurus takes firmware images, unpacks them, analyses the parts, matches them against a local
  corpus of CVEs and assembles one report per job. It is a set of Python processes around a Kafka
  log: an upload gateway (\<open>services/gateway\<close>) that emits \<open>firmware.uploaded\<close>; one worker, the router
  (\<open>services/router\<close>), whose five handlers consume a topic each and emit the next one (uploaded,
  triaged, extracted, analyzed, matched, completed); a replayer of dead letters; a progress notifier;
  and an HTTP surface for chat, feedback, thresholds and reports. The stages share state only
  through Redis (counters, markers, idempotency keys, locks, a Bloom filter), an object store and
  a document store of reports.

  \<^bold>\<open>How the code is modelled.\<close> A stage is a function on a state record (\<open>eff\<close>, in Prelude: explicit
  state passing with an exception or a value). States extend each other along the pipeline:
  \<open>router_state\<close> (Redis, produced messages, faults of the producer) is extended by \<open>report_state\<close>
  (reports, artifacts, job rows), \<open>ingest_state\<close> (blobs), \<open>unpack_state\<close> (counters of the walk) and
  \<open>gateway_state\<close>. JSON values and payload dictionaries are \<open>json\<close> and association lists in
  insertion order; floats are rationals rounded to binary64 (PyFloat); strings and bytes are lists of
  characters. What is not code of the repository is a parameter: digests, HMAC, the JSON codec, the
  archive libraries, the embedder, the language model, the S3 and SQL servers, clocks and uuids.
  \<open>produce\<close> takes its failures from a list, so every statement holds for every failure pattern.

  \<^bold>\<open>The theories.\<close>

  \<^item> Prelude, PyStr, PyFloat, PyRegex: shared definitions of Python's behaviour (dictionaries,
    exceptions, string methods, binary64 rounding, the regular expressions the code uses) with the
    simplification rules the component proofs rest on.
  \<^item> Contracts, Events: \<open>shared/contracts\<close> and \<open>shared/topics.py\<close>, \<open>redis_keys.py\<close>: the pydantic
    schemas with their strictness and validators; validated payloads are well formed.
  \<^item> RedisStore: the Redis commands used, with expiry.
  \<^item> Router: \<open>runner.py\<close>, \<open>registry.py\<close>, \<open>topology.py\<close>, \<open>idempotency.py\<close>, \<open>dlq.py\<close>: every message is
    committed, failures become dead letters, redelivery within the window does nothing.
  \<^item> Ingestion, Unpack, Sandbox: \<open>services/ingestion\<close>: triage (magic bytes, digest, Bloom filter), archive
    extraction with its four defenses (names, links, depth, ratio), the recursive walk, the fan-out of
    sub-blobs with the counters, and the supervision of the extraction process.
  \<^item> StringScan, StaticAnalysis, Hardening: \<open>services/static_analysis\<close>: strings, versions, secrets, entropy,
    and the hand-written ELF parser, which reads unsigned integers at explicit offsets and widths.
  \<^item> CveConfig, Cpe, Corpus, Matcher, NvdEtl: the families, thresholds and tiers, CPE parsing and
    candidate generation, the corpus in memory and in SQL, similarity search, matching, and the import
    of NVD pages.
  \<^item> Reports, Narrator, Aggregator: report and artifact stores, the optional narrator, the completion
    gate, the merge of the SBOM and the one transition of a job to COMPLETE.
  \<^item> MongoReports: the MongoDB report store over any server that behaves as documented; it refines the
    in-memory store when recording, and rejects the report the aggregator builds.
  \<^item> Production: the aggregate stage over any report store and the worker on the MongoDB one, as
    \<open>runtime.py\<close> sets it up; it never announces a completed job.
  \<^item> JobsTable: the \<open>jobs\<close> table as the gateway, the aggregator and the job list share it, under outages.
  \<^item> ObjectStores: the blob and artifact stores on MinIO, over any server that behaves as documented;
    where they refine the in-memory stores and what a failed read does to the merged SBOM.
  \<^item> Postgres, EtlPostgres: the corpus table with its connection, and the feedback table; the refresh
    program does on them what it does in memory.
  \<^item> Pipeline: the five handlers registered in one worker. Whatever is polled, messages follow the
    topology and a job completes at most once; a single-blob image completes; and the gate, which counts
    matches and not recorded slots, can close a report that misses findings.
  \<^item> Locks, DlqReplay: the Redis lock and the replay of dead letters with back-off.
  \<^item> FeedbackLoop: verdict counts and the recalibration of thresholds.
  \<^item> Security, Gateway, CveApi: base64, tokens and roles, the upload routes with the multipart life
    cycle, and the chat, feedback, threshold and report routes.
  \<^item> JobIndex, Notifier: the per-job index with its expiry, and the progress tracker, mailboxes and hub.
  \<^item> Wiring: the lazy singletons of the processes, the settings of their clients, and the composed
    application with its index consumer and sweeper.
  \<^item> Surface: the routes of the composed application in the order of their registration, each behind
    the permission of the role table.
  \<^item> DevScripts: the schema check, the check of handler boundaries and the Kafka harness.

  \<^bold>\<open>Interfaces.\<close> Locales state what a client needs of its provider, and each is interpreted on the
  model's own definitions: \<open>key_value\<close> (RedisStore), \<open>bitmap\<close> and \<open>blob_store\<close> (Ingestion),
  \<open>report_store\<close> and \<open>artifact_store\<close> (Reports), \<open>cve_corpus\<close> (Corpus), \<open>scored_corpus\<close> (Matcher),
  \<open>object_storage\<close> (Gateway) and \<open>singleton\<close> (Wiring). The client lemmas are proved from the laws and reach the properties
  through the interpretations.

  \<^bold>\<open>What the lemma groups show.\<close> Safety: extraction never writes outside its directory, a job
  completes at most once, redelivery and repeated uploads are inert, state changes need a signed token of
  the right role, lock holders exclude each other while leases run. Contracts: what each stage
  emits validates against the schema of the topic it is emitted on. Function: string scanning, matching,
  tiers, recalibration, paging, batching and progress agree with declarative descriptions.
  Refinement: the corpora, the mailbox and the SQL store refine finite maps and queues. Termination
  and liveness: paging, supervision and every message of a run end.

  \<^bold>\<open>Bounds and recursion.\<close> The recursive walk descends at most \<open>RECURSION_DEPTH_CAP\<close> levels, which is
  the measure of its recursion. Loops that can run forever (paging, process supervision) are partial
  functions into options, and what makes them end is proved. Regular expressions are matched by a
  backtracking matcher that recurses on the pattern and the remaining text. Integers are unbounded in
  Python and here; the ELF parser reads fixed widths through \<open>be_value\<close> and two's complement.

  \<^bold>\<open>Outages.\<close> A client of a server is modelled with the failures the server can have: Postgres takes
  them from a list of coming requests (\<open>jd_faults\<close>, \<open>pd_faults\<close>), MongoDB and MinIO are records of
  effects under laws (\<open>mongo_ok\<close>, \<open>objects_ok\<close>) that allow any request to raise. The witnesses
  instantiate them with servers that keep a dictionary.

  \<^bold>\<open>Not modelled.\<close> The event loop, FastAPI's request parsing, threads and Kafka's group
  protocol, the resource limits and signals inside a sandboxed child, the servers behind the clients
  of S3, MinIO, MongoDB and Postgres beyond the laws their callers rely on, the vector index, argument
  parsing and log lines, the timer of APScheduler, the smoke test of the router, the deployment files and
  the TypeScript frontend: they contain no decisions of the program, or rest on code outside the
  repository. The worker of Pipeline and Production runs over the in-memory blobs and artifacts, which
  ObjectStores relates to MinIO.
\<close>

end
